(* ===== verification/Zt_Prelude.thy ===== *)
theory Zt_Prelude
  imports Main "HOL-Library.Word"
begin

text \<open>
  Shared vocabulary of the development: the machine integer types, the error type of
  \<^verbatim>\<open>src/src/error.rs\<close>, the outcome of a Rust call (a value, an error value, or a panic),
  big-endian byte codecs in the style of the \<^verbatim>\<open>bytes\<close> cursors the sources use, checked
  and saturating 64-bit arithmetic on naturals, and list lemmas for in-place loops.

  Integers that are taken apart bitwise or go over the wire are words
  (\<open>u8\<close>, \<open>u32\<close>, \<open>u64\<close>); counters, lengths and offsets are naturals, and every place
  where the source adds without a check on an attacker-controlled quantity is written with
  an explicit range test whose failing branch is \<open>Panic\<close>.  A theorem that an operation does
  not panic therefore also says that no addition in it wraps in a release build.
\<close>

unbundle bit_operations_syntax

type_synonym u8 = "8 word"
type_synonym u16 = "16 word"
type_synonym u32 = "32 word"
type_synonym u64 = "64 word"
type_synonym bytes = "u8 list"

named_theorems codec_simps \<open>reading back what a writer has just produced\<close>
named_theorems no_panic \<open>introduction rules for the absence of a panic\<close>
named_theorems outcome_defs \<open>unfolding of the outcome combinators\<close>

section \<open>Errors and outcomes\<close>

datatype io_kind = WouldBlock | ConnectionReset | PermissionDenied | TimedOut
  | ConnectionAborted | OtherIo

datatype zt_error =
    InvalidConfiguration string
  | Io io_kind
  | Crypto string
  | InvalidPacket string
  | Timeout
  | Unauthorized
  | PacketNumberOverflow
  | ConnectionIdExhausted
  | ActorFailed
  | FlowControlBlocked
  | CongestionWindowFull
  | PacingBlocked nat
  | TooManyStreams nat
  | StreamReset u32 u64
  | ConnectionClosedByPeer u64 bytes
  | IdleTimeout

datatype 'a outcome = Ok 'a | Err zt_error | Panic

definition obind :: "'a outcome \<Rightarrow> ('a \<Rightarrow> 'b outcome) \<Rightarrow> 'b outcome" where
  "obind m f = (case m of Ok x \<Rightarrow> f x | Err e \<Rightarrow> Err e | Panic \<Rightarrow> Panic)"

definition ok_or :: "zt_error \<Rightarrow> 'a option \<Rightarrow> 'a outcome" where
  "ok_or e m = (case m of None \<Rightarrow> Err e | Some x \<Rightarrow> Ok x)"

definition guard :: "bool \<Rightarrow> zt_error \<Rightarrow> 'a outcome \<Rightarrow> 'a outcome" where
  "guard b e m = (if b then Err e else m)"

fun is_ok :: "'a outcome \<Rightarrow> bool" where
  "is_ok (Ok _) = True"
| "is_ok _ = False"

section \<open>Addresses\<close>

text \<open>An IP address by its octets; flow label and scope of IPv6 socket addresses are not kept.\<close>

datatype ip_addr = V4 bytes | V6 bytes

datatype socket_addr = SocketAddr (sa_ip: ip_addr) (sa_port: u16)

section \<open>Checked and saturating arithmetic\<close>

abbreviation two64 :: nat where
  "two64 \<equiv> 18446744073709551616"

abbreviation u64_max :: nat where
  "u64_max \<equiv> 18446744073709551615"

abbreviation u32_max :: nat where
  "u32_max \<equiv> 4294967295"

definition checked_add64 :: "nat \<Rightarrow> nat \<Rightarrow> nat option" where
  "checked_add64 a b = (if a + b < two64 then Some (a + b) else None)"

definition saturating_add64 :: "nat \<Rightarrow> nat \<Rightarrow> nat" where
  "saturating_add64 a b = min (a + b) u64_max"

text \<open>An unchecked addition: overflow panics in a debug build and wraps in a release build.\<close>

definition add64 :: "nat \<Rightarrow> nat \<Rightarrow> nat outcome" where
  "add64 a b = (if a + b < two64 then Ok (a + b) else Panic)"

definition mul64 :: "nat \<Rightarrow> nat \<Rightarrow> nat outcome" where
  "mul64 a b = (if a * b < two64 then Ok (a * b) else Panic)"

text \<open>A sequence of fallible steps, stopping at the first failure.\<close>

fun osteps :: "('e \<Rightarrow> 's \<Rightarrow> 's outcome) \<Rightarrow> 'e list \<Rightarrow> 's \<Rightarrow> 's outcome" where
  "osteps f [] s = Ok s"
| "osteps f (e # es) s = obind (f e s) (osteps f es)"

section \<open>Big-endian integers on byte lists\<close>

primrec to_be :: "nat \<Rightarrow> 'a::len word \<Rightarrow> bytes" where
  "to_be 0 w = []"
| "to_be (Suc n) w = to_be n (drop_bit 8 w) @ [ucast w]"

definition from_be :: "bytes \<Rightarrow> 'a::len word" where
  "from_be bs = foldl (\<lambda>acc b. push_bit 8 acc OR ucast b) 0 bs"

text \<open>
  The reading side of a \<^verbatim>\<open>Bytes\<close> cursor.  Every read returns the value and the advanced
  cursor; reading past the end panics, as the getters of the \<^verbatim>\<open>bytes\<close> crate do.
\<close>

definition get_be :: "nat \<Rightarrow> bytes \<Rightarrow> ('a::len word \<times> bytes) outcome" where
  "get_be n src = (if length src < n then Panic else Ok (from_be (take n src), drop n src))"

definition get_u8 :: "bytes \<Rightarrow> (u8 \<times> bytes) outcome" where
  "get_u8 src = (case src of [] \<Rightarrow> Panic | b # rest \<Rightarrow> Ok (b, rest))"

abbreviation get_u16 :: "bytes \<Rightarrow> (u16 \<times> bytes) outcome" where
  "get_u16 \<equiv> get_be 2"

abbreviation get_u32 :: "bytes \<Rightarrow> (u32 \<times> bytes) outcome" where
  "get_u32 \<equiv> get_be 4"

abbreviation get_u64 :: "bytes \<Rightarrow> (u64 \<times> bytes) outcome" where
  "get_u64 \<equiv> get_be 8"

definition copy_to_bytes :: "nat \<Rightarrow> bytes \<Rightarrow> (bytes \<times> bytes) outcome" where
  "copy_to_bytes n src = (if length src < n then Panic else Ok (take n src, drop n src))"

abbreviation put_u16 :: "u16 \<Rightarrow> bytes" where
  "put_u16 \<equiv> to_be 2"

abbreviation put_u32 :: "u32 \<Rightarrow> bytes" where
  "put_u32 \<equiv> to_be 4"

abbreviation put_u64 :: "u64 \<Rightarrow> bytes" where
  "put_u64 \<equiv> to_be 8"

section \<open>Slices\<close>

definition slice :: "'a list \<Rightarrow> nat \<Rightarrow> nat \<Rightarrow> 'a list outcome" where
  "slice xs i j = (if i \<le> j \<and> j \<le> length xs then Ok (take (j - i) (drop i xs)) else Panic)"

text \<open>\<^verbatim>\<open>dst[i..i + src.len()].copy_from_slice(src)\<close>\<close>

definition copy_into :: "'a list \<Rightarrow> nat \<Rightarrow> 'a list \<Rightarrow> 'a list outcome" where
  "copy_into dst i src =
     (if i + length src \<le> length dst
      then Ok (take i dst @ src @ drop (i + length src) dst) else Panic)"

section \<open>Outcome lemmas\<close>

lemma obind_Ok [simp]: "obind (Ok x) f = f x"
  and obind_Err [simp]: "obind (Err e) f = Err e"
  and obind_Panic [simp]: "obind Panic f = Panic"
  by (simp_all add: obind_def)

lemma obind_eq_Ok: "obind m f = Ok y \<longleftrightarrow> (\<exists>x. m = Ok x \<and> f x = Ok y)"
  by (cases m) auto

lemma obind_not_Panic:
  "m \<noteq> Panic \<Longrightarrow> (\<And>x. m = Ok x \<Longrightarrow> f x \<noteq> Panic) \<Longrightarrow> obind m f \<noteq> Panic"
  by (cases m) auto

lemma obind_pair_not_Panic [no_panic]:
  "m \<noteq> Panic \<Longrightarrow> (\<And>x y. m = Ok (x, y) \<Longrightarrow> f x y \<noteq> Panic) \<Longrightarrow> obind m (\<lambda>(x, y). f x y) \<noteq> Panic"
  by (cases m) auto

lemma guard_False [simp]: "guard False e m = m"
  and guard_True [simp]: "guard True e m = Err e"
  by (simp_all add: guard_def)

lemma guard_eq_Ok: "guard b e m = Ok y \<longleftrightarrow> \<not> b \<and> m = Ok y"
  by (simp add: guard_def)

lemma guard_not_Panic [no_panic]: "(\<not> b \<Longrightarrow> m \<noteq> Panic) \<Longrightarrow> guard b e m \<noteq> Panic"
  by (simp add: guard_def)

lemma Ok_not_Panic [no_panic]: "Ok x \<noteq> Panic"
  and Err_not_Panic [no_panic]: "Err e \<noteq> Panic"
  by simp_all

lemma if_not_Panic [no_panic]:
  "(b \<Longrightarrow> x \<noteq> Panic) \<Longrightarrow> (\<not> b \<Longrightarrow> y \<noteq> Panic) \<Longrightarrow> (if b then x else y) \<noteq> Panic"
  by simp

lemma ok_or_simps [simp]: "ok_or e None = Err e" "ok_or e (Some x) = Ok x"
  by (simp_all add: ok_or_def)

lemma ok_or_eq_Ok: "ok_or e m = Ok y \<longleftrightarrow> m = Some y"
  by (cases m) auto

lemma ok_or_not_Panic: "ok_or e m \<noteq> Panic"
  by (cases m) auto

lemma obind_ok_or_not_Panic [no_panic]:
  "(\<And>x. m = Some x \<Longrightarrow> f x \<noteq> Panic) \<Longrightarrow> obind (ok_or e m) f \<noteq> Panic"
  by (cases m) auto

lemmas outcome_Ok_iffs = obind_eq_Ok guard_eq_Ok ok_or_eq_Ok

lemma is_ok_iff: "is_ok m \<longleftrightarrow> (\<exists>x. m = Ok x)"
  by (cases m) auto

section \<open>Codec lemmas\<close>

lemma length_to_be [simp]: "length (to_be n w) = n"
  by (induction n arbitrary: w) auto

lemma to_be_numeral:
  "to_be (numeral k) w = to_be (pred_numeral k) (drop_bit 8 w) @ [ucast w]"
  by (simp add: numeral_eq_Suc)

lemma from_be_Nil [simp]: "from_be [] = 0"
  by (simp add: from_be_def)

lemma from_be_snoc [simp]: "from_be (bs @ [b]) = push_bit 8 (from_be bs) OR ucast b"
  by (simp add: from_be_def)

lemma take_bit_split8:
  fixes w :: "'a::len word"
  shows "push_bit 8 (take_bit n (drop_bit 8 w)) OR ucast (ucast w :: u8) = take_bit (n + 8) w"
  by (rule bit_word_eqI)
     (auto simp: bit_or_iff bit_push_bit_iff bit_take_bit_iff bit_drop_bit_eq bit_ucast_iff
           dest: bit_imp_le_length)

lemma from_be_to_be: "from_be (to_be n w) = take_bit (8 * n) w"
proof (induction n arbitrary: w)
  case 0
  then show ?case by simp
next
  case (Suc n)
  then show ?case by (simp add: take_bit_split8 add.commute)
qed

lemma to_be_Suc_hd: "to_be (Suc n) w = ucast (drop_bit (8 * n) w) # to_be n w"
proof (induction n arbitrary: w)
  case 0
  then show ?case by simp
next
  case (Suc n)
  have "to_be (Suc (Suc n)) w = to_be (Suc n) (drop_bit 8 w) @ [ucast w]"
    by (simp only: to_be.simps)
  also have "to_be (Suc n) (drop_bit 8 w) = ucast (drop_bit (8 * n) (drop_bit 8 w)) # to_be n (drop_bit 8 w)"
    by (rule Suc.IH)
  also have "\<dots> @ [ucast w] = ucast (drop_bit (8 * Suc n) w) # to_be (Suc n) w"
    by (simp add: add.commute)
  finally show ?case .
qed

lemma word_bound_bit: "w < 2 ^ k \<Longrightarrow> bit (w :: 'a::len word) n \<Longrightarrow> n < k"
proof (rule ccontr)
  assume w: "w < 2 ^ k" and b: "bit w n" and "\<not> n < k"
  then have "k < LENGTH('a)" using bit_imp_le_length [OF b] by simp
  then have "take_bit k w = w" using w by (metis less_mask_eq take_bit_eq_mask)
  with b \<open>\<not> n < k\<close> show False by (metis bit_take_bit_iff)
qed

lemma take_bit_small: "v < 2 ^ k \<Longrightarrow> take_bit k v = v" for v :: "'a::len word"
  by (rule bit_word_eqI) (auto simp: bit_take_bit_iff dest: word_bound_bit)

lemma get_be_append [codec_simps]:
  fixes w :: "'a::len word"
  assumes "LENGTH('a) \<le> 8 * n"
  shows "get_be n (to_be n w @ rest) = Ok (w, rest)"
  using assms by (simp add: get_be_def from_be_to_be take_bit_word_eq_self)

lemma get_u8_Cons [codec_simps]: "get_u8 (b # rest) = Ok (b, rest)"
  by (simp add: get_u8_def)

lemma copy_to_bytes_append [codec_simps]: "copy_to_bytes (length xs) (xs @ rest) = Ok (xs, rest)"
  by (simp add: copy_to_bytes_def)

lemma get_be_not_Panic [no_panic]: "n \<le> length src \<Longrightarrow> get_be n src \<noteq> Panic"
  by (simp add: get_be_def)

lemma get_u8_not_Panic [no_panic]: "src \<noteq> [] \<Longrightarrow> get_u8 src \<noteq> Panic"
  by (cases src) (simp_all add: get_u8_def)

lemma copy_to_bytes_not_Panic [no_panic]: "n \<le> length src \<Longrightarrow> copy_to_bytes n src \<noteq> Panic"
  by (simp add: copy_to_bytes_def)

text \<open>Every successful read splits the cursor into the bytes read and the rest.\<close>

lemma get_be_Ok: "get_be n src = Ok (w, rest) \<Longrightarrow> length src = n + length rest \<and> rest = drop n src"
  by (auto simp: get_be_def split: if_splits)

lemma get_u8_Ok: "get_u8 src = Ok (b, rest) \<longleftrightarrow> src = b # rest"
  by (cases src) (auto simp: get_u8_def)

lemma copy_to_bytes_Ok:
  "copy_to_bytes n src = Ok (xs, rest) \<longleftrightarrow> src = xs @ rest \<and> length xs = n"
  by (auto simp: copy_to_bytes_def)

lemma get_be_length: "get_be n src = Ok (w, rest) \<Longrightarrow> length src = n + length rest"
  by (auto dest: get_be_Ok)

lemma get_u8_length: "get_u8 src = Ok (b, rest) \<Longrightarrow> length src = 1 + length rest"
  by (simp add: get_u8_Ok)

lemma copy_to_bytes_length: "copy_to_bytes n src = Ok (xs, rest) \<Longrightarrow> length src = n + length rest"
  by (simp add: copy_to_bytes_Ok)

lemmas read_lengths = get_be_length get_u8_length copy_to_bytes_length

lemma unat_ucast_u32_u64 [simp]: "unat (ucast (t :: u32) :: u64) = unat t"
proof -
  have "unat t < 4294967296" using unsigned_less [of t, where ?'a = nat] by simp
  then show ?thesis by (simp add: unsigned_ucast_eq take_bit_nat_eq_self_iff)
qed

lemma unat_u8_less: "unat (b :: u8) < 256"
  using unsigned_less [of b, where ?'a = nat] by simp

lemma unat_u16_less: "unat (x :: u16) < 65536"
  using unsigned_less [of x, where ?'a = nat] by simp

lemma unat_u32_less: "unat (x :: u32) < 4294967296"
  using unsigned_less [of x, where ?'a = nat] by simp

lemma unat_u64_less: "unat (x :: u64) < two64"
  using unsigned_less [of x, where ?'a = nat] by simp

section \<open>Slice lemmas\<close>

lemma length_copy_into: "copy_into dst i src = Ok dst' \<Longrightarrow> length dst' = length dst"
  by (auto simp: copy_into_def split: if_splits)

lemma nth_copy_into:
  assumes "copy_into dst i src = Ok dst'" and "j < length dst"
  shows "dst' ! j = (if i \<le> j \<and> j < i + length src then src ! (j - i) else dst ! j)"
  using assms by (auto simp: copy_into_def nth_append split: if_splits)

lemma copy_into_not_Panic [no_panic]:
  "i + length src \<le> length dst \<Longrightarrow> copy_into dst i src \<noteq> Panic"
  by (simp add: copy_into_def)

lemma slice_Ok_nth:
  assumes "slice xs i j = Ok ys" and "k < length ys"
  shows "ys ! k = xs ! (i + k)"
  using assms by (auto simp: slice_def split: if_splits)

lemma slice_Ok_length: "slice xs i j = Ok ys \<Longrightarrow> length ys = j - i \<and> i \<le> j \<and> j \<le> length xs"
  by (auto simp: slice_def split: if_splits)

lemma slice_not_Panic [no_panic]: "i \<le> j \<Longrightarrow> j \<le> length xs \<Longrightarrow> slice xs i j \<noteq> Panic"
  by (simp add: slice_def)

section \<open>In-place loops over an array\<close>

text \<open>
  A loop that runs over the indices from high to low and overwrites each cell from cells that
  are not above it computes every new cell from the original array.
\<close>

definition update_cells :: "(nat \<Rightarrow> 'a list \<Rightarrow> 'a) \<Rightarrow> nat list \<Rightarrow> 'a list \<Rightarrow> 'a list" where
  "update_cells g is xs = foldl (\<lambda>ys i. ys[i := g i ys]) xs is"

lemma length_update_cells [simp]: "length (update_cells g is xs) = length xs"
  unfolding update_cells_def by (induction "is" arbitrary: xs) auto

lemma update_cells_Cons [simp]: "update_cells g (i # is) xs = update_cells g is (xs[i := g i xs])"
  and update_cells_Nil [simp]: "update_cells g [] xs = xs"
  by (simp_all add: update_cells_def)

lemma nth_update_cells_notin: "j \<notin> set is \<Longrightarrow> update_cells g is xs ! j = xs ! j"
  by (induction "is" arbitrary: xs) auto

lemma nth_update_cells_down:
  assumes low: "\<And>i ys zs. (\<And>k. k \<le> i \<Longrightarrow> ys ! k = zs ! k) \<Longrightarrow> g i ys = g i zs"
    and "m \<le> n" and "n \<le> length xs" and "j < length xs"
  shows "update_cells g (rev [m..<n]) xs ! j = (if m \<le> j \<and> j < n then g j xs else xs ! j)"
  using assms(2-4)
proof (induction "n - m" arbitrary: n xs)
  case 0
  then show ?case by auto
next
  case (Suc d)
  then obtain n' where n: "n = Suc n'" and "m \<le> n'"
    by (metis Suc_le_D diff_is_0_eq le_SucE not_less_eq_eq nat.distinct(1) less_or_eq_imp_le)
  let ?xs = "xs[n' := g n' xs]"
  have rec: "update_cells g (rev [m..<n]) xs = update_cells g (rev [m..<n']) ?xs"
    using n \<open>m \<le> n'\<close> by simp
  have IH: "update_cells g (rev [m..<n']) ?xs ! j = (if m \<le> j \<and> j < n' then g j ?xs else ?xs ! j)"
    using Suc.hyps(1) [of n' ?xs] Suc.hyps(2) Suc.prems n by auto
  have same: "g j ?xs = g j xs" if "j < n'"
    by (rule low) (use that in auto)
  show ?case
    using rec IH same Suc.prems n \<open>m \<le> n'\<close> by (auto simp: nth_list_update)
qed

lemma nth_update_cells_const:
  assumes "\<And>i ys. g i ys = c" and "j < length xs"
  shows "update_cells g is xs ! j = (if j \<in> set is then c else xs ! j)"
  using assms(2)
proof (induction "is" arbitrary: xs)
  case Nil
  then show ?case by simp
next
  case (Cons i "is")
  then show ?case by (simp add: nth_list_update assms(1))
qed

section \<open>Bit lengths\<close>

fun bit_len :: "nat \<Rightarrow> nat" where
  "bit_len n = (if n = 0 then 0 else Suc (bit_len (n div 2)))"

declare bit_len.simps [simp del]

lemma bit_len_0 [simp]: "bit_len 0 = 0"
  by (simp add: bit_len.simps)

lemma bit_len_less_iff: "n < 2 ^ k \<longleftrightarrow> bit_len n \<le> k"
proof (induction n arbitrary: k rule: bit_len.induct)
  case (1 n)
  show ?case
  proof (cases "n = 0")
    case False
    have a: "n < 2 ^ k \<longleftrightarrow> 0 < k \<and> n div 2 < 2 ^ (k - 1)"
      using False by (cases k) (simp_all add: div_less_iff_less_mult mult.commute)
    have b: "bit_len n = Suc (bit_len (n div 2))" using False by (subst bit_len.simps) simp
    have IH: "n div 2 < 2 ^ (k - 1) \<longleftrightarrow> bit_len (n div 2) \<le> k - 1"
      using "1.IH" False by blast
    show ?thesis unfolding a b IH by linarith
  qed simp
qed

lemma less_exp_bit_len: "n < 2 ^ bit_len n"
  by (simp add: bit_len_less_iff)

end
