(* ===== verification/Zt_PacketNumber.thy ===== *)
theory Zt_PacketNumber
  imports Zt_Prelude
begin

text \<open>
  Packet-number truncation and expansion (\<^verbatim>\<open>src/src/protocol/packet_number.rs\<close>).  The model
  works on 64-bit words with the masks and saturating steps of the source; the lemmas carry it
  to naturals and show that expansion recovers exactly the packet numbers in the half-open
  window around the expected one.
\<close>

section \<open>Definitions\<close>

definition leading_zeros :: "u64 \<Rightarrow> nat" where
  "leading_zeros w = 64 - bit_len (unat w)"

definition saturating_sub :: "u64 \<Rightarrow> u64 \<Rightarrow> u64" where
  "saturating_sub a b = (if b \<le> a then a - b else 0)"

definition saturating_add :: "u64 \<Rightarrow> u64 \<Rightarrow> u64" where
  "saturating_add a b = (if unat a + unat b < 2 ^ 64 then a + b else 0xFFFFFFFFFFFFFFFF)"

definition checked_add :: "u64 \<Rightarrow> u64 \<Rightarrow> u64 option" where
  "checked_add a b = (if unat a + unat b < 2 ^ 64 then Some (a + b) else None)"

definition truncate_pn :: "u64 \<Rightarrow> u64 \<Rightarrow> (u32 \<times> nat) outcome" where
  "truncate_pn pn largest_acked =
     (let unacked = saturating_sub pn largest_acked in
      if 2 ^ 64 \<le> unat unacked * 2 then Panic else
      let num_bits = 64 - leading_zeros (unacked * 2);
          pn_len = (num_bits + 7) div 8;
          pn_len = (if pn_len = 0 then 1 else pn_len);
          pn_len = (if pn_len > 4 then 4 else pn_len)
      in if pn_len = 1 then Ok (ucast (pn AND 0xFF), pn_len)
         else if pn_len = 2 then Ok (ucast (pn AND 0xFFFF), pn_len)
         else if pn_len = 3 then Ok (ucast (pn AND 0xFFFFFF), pn_len)
         else if pn_len = 4 then Ok (ucast (pn AND 0xFFFFFFFF), pn_len)
         else Panic)"

definition expand_pn :: "u64 \<Rightarrow> nat \<Rightarrow> u64 \<Rightarrow> u64" where
  "expand_pn pn_truncated pn_len largest_pn =
     (let pn_nbits = pn_len * 8;
          expected_pn = saturating_add largest_pn 1;
          pn_win = push_bit pn_nbits 1;
          pn_hwin = pn_win div 2;
          pn_mask = pn_win - 1;
          candidate_pn = (expected_pn AND NOT pn_mask) OR pn_truncated
      in if pn_hwin \<le> expected_pn \<and> candidate_pn \<le> expected_pn - pn_hwin
         then saturating_add candidate_pn pn_win
         else if (case checked_add expected_pn pn_hwin of
                    None \<Rightarrow> False | Some limit \<Rightarrow> limit < candidate_pn)
                 \<and> pn_win \<le> candidate_pn
         then saturating_sub candidate_pn pn_win
         else candidate_pn)"

section \<open>Bit lengths\<close>

lemma bit_len_unat_u64: "bit_len (unat (w :: u64)) \<le> 64"
proof -
  have "unat w < 2 ^ 64" using unsigned_less [of w, where ?'a = nat] by simp
  then show ?thesis by (simp only: bit_len_less_iff)
qed

section \<open>From words to naturals\<close>

lemma unat_plus_no_overflow:
  fixes a b :: u64
  shows "unat a + unat b < 2 ^ 64 \<Longrightarrow> unat (a + b) = unat a + unat b"
  by (simp add: unat_word_ariths)

lemma unat_saturating_add: "unat (saturating_add a b) = min (unat a + unat b) (2 ^ 64 - 1)"
  unfolding saturating_add_def using unat_plus_no_overflow [of a b] by (simp add: min_def)

lemma unat_saturating_sub: "unat (saturating_sub a b) = unat a - unat b"
  unfolding saturating_sub_def using unat_sub [of b a] by (simp add: word_le_nat_alt)

lemma checked_add_Some_iff:
  "checked_add a b = Some c \<longleftrightarrow> unat a + unat b < 2 ^ 64 \<and> c = a + b"
  by (auto simp: checked_add_def)

lemma unat_exp_u64: "n < 64 \<Longrightarrow> unat (2 ^ n :: u64) = 2 ^ n"
proof -
  assume n: "n < 64"
  then have a: "(2::nat) ^ n < 2 ^ 64" by (rule power_strict_increasing) simp
  have "unat (push_bit n 1 :: u64) = take_bit 64 (push_bit n 1)"
    by (simp only: unsigned_push_bit_eq unsigned_1) simp
  then show ?thesis using a by (simp only: push_bit_of_1 take_bit_nat_eq_self_iff)
qed

lemma unat_pn_win: "n < 64 \<Longrightarrow> unat (push_bit n 1 :: u64) = 2 ^ n"
  by (simp add: push_bit_of_1 unat_exp_u64)

lemma unat_clear_low_bits:
  fixes e t :: u64
  assumes "n < 64" and "unat t < 2 ^ n"
  shows "unat ((e AND NOT (push_bit n 1 - 1)) OR t) = 2 ^ n * (unat e div 2 ^ n) + unat t"
proof -
  have clear: "e AND NOT (push_bit n 1 - 1) = push_bit n (drop_bit n e)"
    unfolding push_bit_of_1 mask_eq_exp_minus_1 [symmetric]
    by (rule bit_word_eqI) (auto simp: bit_simps)
  have tn: "take_bit n t = t"
  proof -
    have "unat (take_bit n t) = take_bit n (unat t)"
      by (rule unsigned_take_bit_eq)
    also have "\<dots> = unat t"
      using assms(2) by (simp add: take_bit_nat_eq_self_iff)
    finally show ?thesis by (simp only: word_unat_eq_iff)
  qed
  have or: "push_bit n (drop_bit n e) OR t = push_bit n (drop_bit n e) + t"
  proof (rule disjunctive_add [symmetric])
    fix k
    have "bit t k \<longleftrightarrow> bit (take_bit n t) k" by (simp add: tn)
    then show "\<not> bit (push_bit n (drop_bit n e)) k \<or> \<not> bit t k"
      by (auto simp: bit_simps)
  qed
  have bound: "2 ^ n * (unat e div 2 ^ n) + unat t < 2 ^ 64"
  proof -
    have split: "(2::nat) ^ 64 = 2 ^ (64 - n) * 2 ^ n"
      unfolding power_add [symmetric] using assms(1) by (simp only: le_add_diff_inverse2 less_imp_le)
    have "unat e < 2 ^ 64"
      using unsigned_less [of e, where ?'a = nat] by simp
    then have "unat e div 2 ^ n < 2 ^ (64 - n)"
      unfolding split by (rule less_mult_imp_div_less)
    then have "Suc (unat e div 2 ^ n) * 2 ^ n \<le> 2 ^ (64 - n) * 2 ^ n"
      by (intro mult_right_mono) simp_all
    then have "Suc (unat e div 2 ^ n) * 2 ^ n \<le> 2 ^ 64"
      by (simp only: split)
    then show ?thesis using assms(2) by (simp add: mult.commute)
  qed
  have push: "unat (push_bit n (drop_bit n e)) = 2 ^ n * (unat e div 2 ^ n)"
  proof -
    have "unat (push_bit n (drop_bit n e)) = take_bit 64 (push_bit n (unat e div 2 ^ n))"
      by (simp only: unsigned_push_bit_eq unat_drop_bit_eq) (simp add: drop_bit_eq_div)
    also have "\<dots> = (2 ^ n * (unat e div 2 ^ n)) mod 2 ^ 64"
      by (simp only: push_bit_eq_mult take_bit_eq_mod mult.commute)
    finally show ?thesis using bound by (simp only: mod_less add_lessD1)
  qed
  have "unat (push_bit n (drop_bit n e) + t) = unat (push_bit n (drop_bit n e)) + unat t"
    by (rule unat_plus_no_overflow) (simp only: push bound)
  then show ?thesis by (simp only: clear or push)
qed

section \<open>Expansion\<close>

text \<open>
  The expansion step on naturals: \<open>e\<close> is the expected packet number, \<open>2 * h\<close> the size of the
  truncation window, and \<open>c\<close> the candidate that shares its high part with \<open>e\<close>.
\<close>

lemma candidate_offset:
  fixes e pn h :: nat
  defines "c \<equiv> 2 * h * (e div (2 * h)) + pn mod (2 * h)"
  assumes "0 < h" and "e < pn + h" and "pn \<le> e + h"
  shows "(c = pn \<and> \<not> (h \<le> e \<and> c \<le> e - h) \<and> c \<le> e + h)
       \<or> (pn = c + 2 * h \<and> h \<le> e \<and> c \<le> e - h)
       \<or> (c = pn + 2 * h \<and> \<not> (h \<le> e \<and> c \<le> e - h) \<and> e + h < c)"
proof -
  let ?w = "2 * h"
  let ?q = "e div ?w" and ?p = "pn div ?w"
  have e: "e = ?w * ?q + e mod ?w" and p: "pn = ?w * ?p + pn mod ?w"
    by simp_all
  have em: "e mod ?w < ?w" and pm: "pn mod ?w < ?w"
    using assms(2) by simp_all
  consider "?p = ?q" | "?p = Suc ?q" | "?q = Suc ?p"
  proof -
    have "?w * (?q + 2) = ?w * ?q + 2 * ?w" and "?w * (?p + 2) = ?w * ?p + 2 * ?w"
      by (simp_all add: algebra_simps)
    then have "?w * ?p < ?w * (?q + 2)" and "?w * ?q < ?w * (?p + 2)"
      using e p em pm assms by linarith+
    then have "?p < ?q + 2" and "?q < ?p + 2"
      using assms(2) by (simp_all only: mult_less_cancel1)
    then show ?thesis using that by linarith
  qed
  then show ?thesis
  proof cases
    case 1
    then have "c = pn" using p by (simp add: c_def)
    then show ?thesis using assms by linarith
  next
    case 2
    then have "pn = c + ?w" using p by (simp add: c_def algebra_simps)
    then show ?thesis using assms by linarith
  next
    case 3
    then have "c = pn + ?w" using p by (simp add: c_def algebra_simps)
    then show ?thesis using assms by linarith
  qed
qed


lemma expand_pn_window:
  fixes pn largest t :: u64
  defines "e \<equiv> min (unat largest + 1) (2 ^ 64 - 1)"
  assumes len: "1 \<le> len" "len \<le> 4"
    and t: "unat t = unat pn mod 2 ^ (8 * len)"
    and lo: "e < unat pn + 2 ^ (8 * len - 1)" and hi: "unat pn \<le> e + 2 ^ (8 * len - 1)"
  shows "expand_pn t len largest = pn"
proof -
  let ?n = "len * 8"
  define W E C :: u64
    where "W = push_bit ?n 1" and "E = saturating_add largest 1" and "C = (E AND NOT (W - 1)) OR t"
  define h :: nat where "h = 2 ^ (8 * len - 1)"
  have n64: "?n < 64" using len by simp
  have w: "2 ^ ?n = 2 * h"
    unfolding h_def using len by (simp add: mult.commute flip: power_Suc)
  have t': "unat t = unat pn mod 2 ^ ?n"
    using t by (simp only: mult.commute)
  have h0: "0 < h" by (simp add: h_def)
  have uE: "unat E = e"
    by (simp add: unat_saturating_add e_def E_def)
  have uW: "unat W = 2 * h"
    using unat_pn_win [OF n64] by (simp only: w W_def)
  have uh: "unat (W div 2) = h"
    by (simp add: unat_div uW)
  have uC: "unat C = 2 * h * (e div (2 * h)) + unat pn mod (2 * h)"
    using unat_clear_low_bits [OF n64, of t E] unfolding C_def W_def
    by (simp only: uE t' w) (simp add: h0)
  have le_iff: "(W div 2 \<le> E \<and> C \<le> E - W div 2) \<longleftrightarrow> (h \<le> e \<and> unat C \<le> e - h)"
    by (auto simp: word_le_nat_alt uh uE unat_sub)
  have lim_iff: "(case checked_add E (W div 2) of None \<Rightarrow> False | Some l \<Rightarrow> l < C) \<longleftrightarrow> e + h < unat C"
    using unsigned_less [of C, where ?'a = nat]
    by (auto simp: checked_add_def uE uh word_less_nat_alt unat_plus_no_overflow)
  have win_iff: "W \<le> C \<longleftrightarrow> 2 * h \<le> unat C"
    by (simp add: word_le_nat_alt uW)
  have expand: "expand_pn t len largest =
      (if h \<le> e \<and> unat C \<le> e - h then saturating_add C W
       else if e + h < unat C \<and> 2 * h \<le> unat C then saturating_sub C W else C)"
    unfolding expand_pn_def Let_def W_def [symmetric] E_def [symmetric] C_def [symmetric]
      le_iff lim_iff win_iff ..
  have "unat (expand_pn t len largest) = unat pn"
    using candidate_offset [OF h0, of e "unat pn", folded uC] lo hi
      unsigned_less [of pn, where ?'a = nat] unfolding h_def [symmetric]
    by (auto simp: expand unat_saturating_add unat_saturating_sub uW)
  then show ?thesis by (simp only: word_unat_eq_iff)
qed

section \<open>Truncation\<close>

lemma truncate_pn_len:
  assumes "truncate_pn pn la = Ok (t, len)" and "unat pn - unat la < 2 ^ 31"
  shows "1 \<le> len \<and> len \<le> 4 \<and> unat pn - unat la < 2 ^ (8 * len - 1)
         \<and> unat t = unat pn mod 2 ^ (8 * len)"
proof -
  let ?u = "saturating_sub pn la"
  let ?b = "bit_len (2 * (unat pn - unat la))"
  have u2: "unat (?u * 2) = 2 * (unat pn - unat la)"
    using assms(2) by (simp add: unat_word_ariths unat_saturating_sub mult.commute)
  have b32: "?b \<le> 32"
    unfolding bit_len_less_iff [symmetric] using assms(2) by simp
  have lz: "64 - leading_zeros (?u * 2) = ?b"
    using b32 by (simp add: leading_zeros_def u2)
  have low: "2 * (unat pn - unat la) < 2 ^ ?b" by (rule less_exp_bit_len)
  let ?L = "max 1 ((?b + 7) div 8)"
  have "(?b + 7) div 8 \<le> 4" using b32 by linarith
  then consider "(?b + 7) div 8 = 0" | "(?b + 7) div 8 = 1" | "(?b + 7) div 8 = 2"
    | "(?b + 7) div 8 = 3" | "(?b + 7) div 8 = 4" by linarith
  then have "truncate_pn pn la = Ok (ucast (pn AND mask (8 * ?L)), ?L)"
    using assms(2) by cases (simp_all add: truncate_pn_def Let_def unat_saturating_sub lz mask_numeral)
  then have len: "len = ?L" and t: "t = ucast (take_bit (8 * len) pn)"
    using assms(1) by (simp_all add: take_bit_eq_mask)
  have b8: "?b \<le> 8 * len" and len4: "1 \<le> len" "len \<le> 4"
    using len b32 by linarith+
  have "2 * (unat pn - unat la) < 2 ^ (8 * len)"
    using low power_increasing [OF b8, of "2::nat"] by linarith
  moreover have "(2::nat) ^ (8 * len) = 2 * 2 ^ (8 * len - 1)"
    using len4 by (simp flip: power_Suc)
  ultimately have bound: "unat pn - unat la < 2 ^ (8 * len - 1)" by linarith
  have "unat t = take_bit 32 (take_bit (8 * len) (unat pn))"
    unfolding t by (simp only: unsigned_ucast_eq unsigned_take_bit_eq) (simp add: min.commute)
  also have "\<dots> = unat pn mod 2 ^ (8 * len)"
    using len4 by (simp add: take_bit_eq_mod [symmetric] min_absorb2)
  finally show ?thesis using bound len4 by blast
qed

lemma truncate_pn_total:
  assumes "unat pn - unat la < 2 ^ 63"
  shows "\<exists>t len. truncate_pn pn la = Ok (t, len)"
proof -
  define q where "q = (64 - leading_zeros (saturating_sub pn la * 2) + 7) div 8"
  have "q = 0 \<or> q = 1 \<or> q = 2 \<or> q = 3 \<or> 4 \<le> q" by linarith
  then show ?thesis
    using assms unfolding truncate_pn_def Let_def q_def [symmetric]
    by (auto simp: unat_saturating_sub)
qed

lemma expand_truncated:
  assumes "truncate_pn pn la = Ok (t, len)"
    and "unat pn - unat la < 2 ^ 31"
    and "la \<le> L" and "unat L < unat pn + 127"
    and "unat w = unat pn mod 2 ^ (8 * len)"
  shows "expand_pn w len L = pn"
proof (rule expand_pn_window)
  note tr = truncate_pn_len [OF assms(1,2)]
  have "(2::nat) ^ 7 \<le> 2 ^ (8 * len - 1)"
    using tr by (intro power_increasing) auto
  then show "min (unat L + 1) (2 ^ 64 - 1) < unat pn + 2 ^ (8 * len - 1)"
    using assms(4) by simp
  show "unat pn \<le> min (unat L + 1) (2 ^ 64 - 1) + 2 ^ (8 * len - 1)"
    using tr assms(3) unsigned_less [of pn, where ?'a = nat] by (auto simp: word_le_nat_alt min_def)
  show "1 \<le> len" "len \<le> 4" "unat w = unat pn mod 2 ^ (8 * len)"
    using tr assms(5) by simp_all
qed

section \<open>Properties\<close>

text \<open>
  C21: a packet number truncated by the sender is recovered exactly by the receiver.  The sender
  truncates relative to \<open>la\<close>; the receiver expands relative to its own highest processed packet
  number \<open>L\<close>, which may be anything from \<open>la\<close> up to 126 packets beyond the packet in question
  (reordering).  The only requirement on the sender is that fewer than \<open>2 ^ 31\<close> packets are
  outstanding, where the four-byte encoding stops being long enough.
\<close>

theorem expand_truncate_roundtrip:
  assumes "truncate_pn pn la = Ok (t, len)"
    and "unat pn - unat la < 2 ^ 31"
    and "la \<le> L" and "unat L < unat pn + 127"
  shows "expand_pn (ucast t) len L = pn"
  using truncate_pn_len [OF assms(1,2)] expand_truncated [OF assms(1-4)] by simp

theorem expand_truncate_roundtrip_witness:
  "truncate_pn 1000 900 = Ok (1000 AND 0xFF, 1) \<and> expand_pn 0xE8 1 950 = 1000"
proof -
  have tr: "truncate_pn 1000 900 = Ok (0xE8, 1)"
    by (simp add: truncate_pn_def saturating_sub_def leading_zeros_def bit_len.simps)
  have "expand_pn (ucast (0xE8 :: u32)) 1 950 = 1000"
    by (rule expand_truncate_roundtrip [OF tr]) simp_all
  with tr show ?thesis by simp
qed

text \<open>
  When the receiver is further behind than the truncation length allows, expansion yields a
  different number.  The sender chooses the length relative to its lowest \<^emph>\<open>unacknowledged\<close>
  packet (falling back to the packet itself when nothing is outstanding), and
  acknowledgement-only packets are never entered there, so a receiver whose highest processed
  packet is 200 and that missed the burst 201 to 399 expands packet 400 to 144.
\<close>

lemma expand_pn_desynchronised:
  "truncate_pn 400 399 = Ok (400 AND 0xFF, 1) \<and> expand_pn (400 AND 0xFF) 1 200 = 144"
  by (simp add: truncate_pn_def saturating_sub_def leading_zeros_def bit_len.simps
      expand_pn_def Let_def saturating_add_def checked_add_def)

end
