(* ===== verification/Zt_Config.thy ===== *)
theory Zt_Config
  imports Zt_Prelude
begin

text \<open>
  Endpoint configuration and its validation (\<^verbatim>\<open>src/src/config.rs\<close>), and the transport
  parameters derived from it (\<^verbatim>\<open>src/src/protocol/frame.rs\<close>).  Durations are nanoseconds;
  \<^verbatim>\<open>usize\<close> is 64 bits wide.  The fault-injection field of the \<^verbatim>\<open>testing\<close> feature is not part of
  the modelled build.
\<close>

section \<open>Configuration\<close>

datatype congestion_control_algorithm = Cubic | Reno

record zt_config =
  cfg_connect_timeout :: nat
  cfg_idle_timeout :: nat
  cfg_max_concurrent_streams :: nat
  cfg_alpn :: bytes
  cfg_initial_stream_window :: nat
  cfg_max_stream_window :: nat
  cfg_initial_max_data :: nat
  cfg_max_connection_buffer :: nat
  cfg_mtu_min :: nat
  cfg_mtu_max :: nat
  cfg_mtu_probe_interval :: nat
  cfg_cookie_max_age_ms :: nat
  cfg_key_update_packet_interval :: nat
  cfg_psk :: "bytes option"
  cfg_max_path_validation_retries :: nat
  cfg_cc_algorithm :: congestion_control_algorithm

abbreviation secs :: "nat \<Rightarrow> nat" where
  "secs n \<equiv> n * 1000000000"

abbreviation millis :: "nat \<Rightarrow> nat" where
  "millis n \<equiv> n * 1000000"

definition as_millis :: "nat \<Rightarrow> nat" where
  "as_millis d = d div 1000000"

definition default_config :: zt_config where
  "default_config =
     \<lparr>cfg_connect_timeout = secs 5,
      cfg_idle_timeout = secs 60,
      cfg_max_concurrent_streams = 100,
      cfg_alpn = [0x7A, 0x65, 0x74, 0x74, 0x61],
      cfg_initial_stream_window = 1048576,
      cfg_max_stream_window = 16 * 1024 * 1024,
      cfg_initial_max_data = 1048576,
      cfg_max_connection_buffer = 64 * 1024 * 1024,
      cfg_mtu_min = 1200,
      cfg_mtu_max = 9000,
      cfg_mtu_probe_interval = secs 15,
      cfg_cookie_max_age_ms = 5000,
      cfg_key_update_packet_interval = 1048576,
      cfg_psk = None,
      cfg_max_path_validation_retries = 3,
      cfg_cc_algorithm = Cubic\<rparr>"

definition validate_config :: "zt_config \<Rightarrow> unit outcome" where
  "validate_config c =
     guard (cfg_connect_timeout c = 0)
       (InvalidConfiguration ''connect_timeout must be greater than zero'') (
     guard (as_millis (cfg_idle_timeout c) = 0 \<or> as_millis (cfg_idle_timeout c) > u64_max)
       (InvalidConfiguration ''idle_timeout must fit in a non-zero millisecond wire value'') (
     guard (cfg_max_concurrent_streams c = 0 \<or> cfg_max_concurrent_streams c > u32_max div 2)
       (InvalidConfiguration ''max_concurrent_streams must be in 1..=u32::MAX/2'') (
     guard (cfg_alpn c = [] \<or> length (cfg_alpn c) > 255)
       (InvalidConfiguration ''alpn length must be in 1..=255 bytes'') (
     guard (cfg_initial_stream_window c = 0 \<or> cfg_initial_stream_window c > cfg_max_stream_window c)
       (InvalidConfiguration ''initial_stream_window must be non-zero and no larger than max_stream_window'') (
     guard (cfg_max_stream_window c > cfg_max_connection_buffer c)
       (InvalidConfiguration ''max_stream_window must fit in usize and max_connection_buffer'') (
     guard (cfg_initial_max_data c = 0 \<or> cfg_initial_max_data c > u32_max)
       (InvalidConfiguration ''initial_max_data must be in 1..=u32::MAX (ACK wire limit)'') (
     guard (cfg_max_connection_buffer c = 0)
       (InvalidConfiguration ''max_connection_buffer must be greater than zero'') (
     guard (cfg_initial_max_data c > cfg_max_connection_buffer c)
       (InvalidConfiguration ''initial_max_data must not exceed max_connection_buffer'') (
     guard (cfg_mtu_min c < 1200 \<or> cfg_mtu_min c > cfg_mtu_max c)
       (InvalidConfiguration ''mtu_min must be at least 1200 and no larger than mtu_max'') (
     guard (cfg_mtu_probe_interval c = 0)
       (InvalidConfiguration ''mtu_probe_interval must be greater than zero'') (
     guard (cfg_mtu_max c > 65507)
       (InvalidConfiguration ''mtu_max must not exceed the UDP payload limit (65507)'') (
     guard (cfg_cookie_max_age_ms c = 0)
       (InvalidConfiguration ''cookie_max_age_ms must be greater than zero'') (
     guard (cfg_key_update_packet_interval c = 0)
       (InvalidConfiguration ''key_update_packet_interval must be greater than zero'') (
     Ok ()))))))))))))))"

section \<open>Transport parameters\<close>

record transport_parameters =
  tp_max_streams :: u64
  tp_initial_stream_window :: u64
  tp_initial_max_data :: u64
  tp_max_datagram_size :: u32
  tp_idle_timeout_ms :: u64

text \<open>\<^const>\<open>of_nat\<close> into a word is Rust's truncating \<^verbatim>\<open>as\<close> cast.\<close>

definition parameters_from_config :: "zt_config \<Rightarrow> transport_parameters" where
  "parameters_from_config c =
     \<lparr>tp_max_streams = of_nat (cfg_max_concurrent_streams c),
      tp_initial_stream_window = of_nat (cfg_initial_stream_window c),
      tp_initial_max_data = of_nat (cfg_initial_max_data c),
      tp_max_datagram_size = of_nat (cfg_mtu_max c - 64),
      tp_idle_timeout_ms = of_nat (as_millis (cfg_idle_timeout c))\<rparr>"

definition validate_parameters :: "transport_parameters \<Rightarrow> transport_parameters outcome" where
  "validate_parameters p =
     (if tp_max_streams p = 0
        \<or> tp_max_streams p > 2147483647
        \<or> tp_initial_stream_window p = 0
        \<or> tp_initial_max_data p = 0
        \<or> tp_initial_max_data p > 4294967295
        \<or> tp_max_datagram_size p = 0
        \<or> tp_idle_timeout_ms p = 0
      then Err (InvalidPacket ''invalid peer transport parameters'')
      else Ok p)"

definition transcript_bytes :: "transport_parameters \<Rightarrow> bytes" where
  "transcript_bytes p =
     put_u64 (tp_max_streams p) @
     put_u64 (tp_initial_stream_window p) @
     put_u64 (tp_initial_max_data p) @
     put_u32 (tp_max_datagram_size p) @
     put_u64 (tp_idle_timeout_ms p)"

section \<open>Facts about accepted configurations\<close>

lemma length_transcript_bytes [simp]: "length (transcript_bytes p) = 36"
  by (simp add: transcript_bytes_def)

text \<open>The limits an accepted configuration gives to the rest of the stack.\<close>

definition config_ok :: "zt_config \<Rightarrow> bool" where
  "config_ok c \<longleftrightarrow>
     0 < cfg_initial_stream_window c \<and> cfg_initial_stream_window c \<le> cfg_max_stream_window c
   \<and> cfg_max_stream_window c \<le> cfg_max_connection_buffer c
   \<and> 0 < cfg_initial_max_data c \<and> cfg_initial_max_data c \<le> u32_max
   \<and> cfg_initial_max_data c \<le> cfg_max_connection_buffer c
   \<and> 0 < cfg_max_concurrent_streams c \<and> cfg_max_concurrent_streams c \<le> 2147483647
   \<and> 1200 \<le> cfg_mtu_min c \<and> cfg_mtu_min c \<le> cfg_mtu_max c \<and> cfg_mtu_max c \<le> 65507
   \<and> 0 < as_millis (cfg_idle_timeout c) \<and> as_millis (cfg_idle_timeout c) \<le> u64_max
   \<and> cfg_alpn c \<noteq> [] \<and> length (cfg_alpn c) \<le> 255
   \<and> 0 < cfg_cookie_max_age_ms c \<and> 0 < cfg_key_update_packet_interval c"

lemma validate_config_ok: "validate_config c = Ok () \<Longrightarrow> config_ok c"
  by (auto simp: validate_config_def config_ok_def guard_eq_Ok)

lemma validate_config_not_Panic [no_panic]: "validate_config c \<noteq> Panic"
  unfolding validate_config_def by (simp add: guard_def)

lemma unat_of_nat_u64: "n < two64 \<Longrightarrow> unat (of_nat n :: u64) = n"
  by (simp add: unat_of_nat)

lemma unat_of_nat_u32: "n < 4294967296 \<Longrightarrow> unat (of_nat n :: u32) = n"
  by (simp add: unat_of_nat)

lemma parameters_from_valid_config:
  assumes "validate_config c = Ok ()" and "cfg_initial_stream_window c \<le> u64_max"
  shows "validate_parameters (parameters_from_config c) = Ok (parameters_from_config c)
    \<and> unat (tp_max_streams (parameters_from_config c)) = cfg_max_concurrent_streams c
    \<and> unat (tp_initial_stream_window (parameters_from_config c)) = cfg_initial_stream_window c
    \<and> unat (tp_initial_max_data (parameters_from_config c)) = cfg_initial_max_data c
    \<and> unat (tp_max_datagram_size (parameters_from_config c)) = cfg_mtu_max c - 64
    \<and> unat (tp_idle_timeout_ms (parameters_from_config c)) = as_millis (cfg_idle_timeout c)"
proof -
  let ?p = "parameters_from_config c"
  have ok: "config_ok c" by (rule validate_config_ok) fact
  have vals: "unat (tp_max_streams ?p) = cfg_max_concurrent_streams c"
    "unat (tp_initial_stream_window ?p) = cfg_initial_stream_window c"
    "unat (tp_initial_max_data ?p) = cfg_initial_max_data c"
    "unat (tp_max_datagram_size ?p) = cfg_mtu_max c - 64"
    "unat (tp_idle_timeout_ms ?p) = as_millis (cfg_idle_timeout c)"
    using ok assms(2)
    by (simp_all add: parameters_from_config_def config_ok_def unat_of_nat_u64 unat_of_nat_u32
        less_imp_diff_less del: of_nat_diff)
  have "validate_parameters ?p = Ok ?p"
    using ok vals
    by (auto simp: validate_parameters_def config_ok_def word_less_nat_alt simp flip: unat_eq_zero)
  with vals show ?thesis by blast
qed

section \<open>Properties\<close>

text \<open>
  Whatever configuration \<open>validate\<close> accepts, the transport parameters derived from it are
  accepted by the peer's own check, and the casts to the wire widths lose nothing: the parameters
  carry exactly the configured limits.
\<close>

theorem accepted_config_gives_valid_parameters:
  assumes "validate_config c = Ok ()" and "cfg_initial_stream_window c \<le> u64_max"
  shows "validate_parameters (parameters_from_config c) = Ok (parameters_from_config c)
    \<and> unat (tp_max_streams (parameters_from_config c)) = cfg_max_concurrent_streams c
    \<and> unat (tp_initial_stream_window (parameters_from_config c)) = cfg_initial_stream_window c
    \<and> unat (tp_initial_max_data (parameters_from_config c)) = cfg_initial_max_data c
    \<and> unat (tp_max_datagram_size (parameters_from_config c)) = cfg_mtu_max c - 64
    \<and> unat (tp_idle_timeout_ms (parameters_from_config c)) = as_millis (cfg_idle_timeout c)"
  by (rule parameters_from_valid_config [OF assms])

theorem accepted_config_gives_valid_parameters_witness:
  "validate_config default_config = Ok ()
   \<and> unat (tp_max_datagram_size (parameters_from_config default_config)) = 8936"
proof -
  have v: "validate_config default_config = Ok ()"
    by (simp add: validate_config_def default_config_def as_millis_def)
  have "cfg_initial_stream_window default_config \<le> u64_max"
    by (simp add: default_config_def)
  from accepted_config_gives_valid_parameters [OF v this] v show ?thesis
    by (simp add: default_config_def)
qed

end
