(* ===== verification/Zt_Frame.thy ===== *)
theory Zt_Frame
  imports Zt_Prelude Zt_Config "HOL-Library.Sublist"
begin

text \<open>
  Frames, the units carried inside a decrypted packet (\<^verbatim>\<open>src/src/protocol/frame.rs\<close>), the
  variable-length integers they use, the stream direction byte
  (\<^verbatim>\<open>src/src/transport/state/stream_state.rs\<close>) and the loop that hands the frames of one payload
  to a handler (\<^verbatim>\<open>src/src/transport/actor/incoming_handler.rs\<close>).

  An encoder is the list of bytes it appends to the buffer.  A decoder maps the cursor to the value
  read and the advanced cursor; one definition per frame type follows the branches of
  \<^verbatim>\<open>Frame::decode\<close>.  What a failed decoder leaves in the cursor is not modelled: every caller
  drops the cursor then.
\<close>

section \<open>Variable-length integers\<close>

definition put_varint :: "u64 \<Rightarrow> bytes" where
  "put_varint val =
     (if val < 64 then [ucast val]
      else if val < 16384 then put_u16 (ucast val OR 0x4000)
      else if val < 1073741824 then put_u32 (ucast val OR 0x80000000)
      else put_u64 (val OR 0xC000000000000000))"

definition get_varint :: "bytes \<Rightarrow> (u64 \<times> bytes) outcome" where
  "get_varint src =
     guard (length src < 1) (InvalidPacket ''Truncated varint'') (
     let tag = drop_bit 6 (hd src) in
     if tag = 0 then obind (get_u8 src) (\<lambda>(b, src). Ok (ucast b, src))
     else if tag = 1 then
       guard (length src < 2) (InvalidPacket ''Truncated varint 2'') (
       obind (get_u16 src) (\<lambda>(w, src). Ok (ucast (w AND 0x3FFF), src)))
     else if tag = 2 then
       guard (length src < 4) (InvalidPacket ''Truncated varint 4'') (
       obind (get_u32 src) (\<lambda>(w, src). Ok (ucast (w AND 0x3FFFFFFF), src)))
     else if tag = 3 then
       guard (length src < 8) (InvalidPacket ''Truncated varint 8'') (
       obind (get_u64 src) (\<lambda>(w, src). Ok (w AND 0x3FFFFFFFFFFFFFFF, src)))
     else Panic)"

section \<open>Stream directions\<close>

datatype stream_type = Bidirectional | UnidirectionalOut | UnidirectionalIn

fun to_wire :: "stream_type \<Rightarrow> u8" where
  "to_wire Bidirectional = 0"
| "to_wire UnidirectionalOut = 1"
| "to_wire UnidirectionalIn = 2"

definition from_wire :: "u8 \<Rightarrow> stream_type option" where
  "from_wire value =
     (if value = 0 then Some Bidirectional
      else if value = 1 then Some UnidirectionalOut
      else if value = 2 then Some UnidirectionalIn
      else None)"

fun for_peer :: "stream_type \<Rightarrow> stream_type option" where
  "for_peer Bidirectional = Some Bidirectional"
| "for_peer UnidirectionalOut = Some UnidirectionalIn"
| "for_peer UnidirectionalIn = None"

section \<open>Frames\<close>

datatype frame =
    Padding nat
  | StreamFrame u32 stream_type u64 bytes
  | Ack u64 u32 u64 "(u64 \<times> u64) list"
  | ConnectionClose
  | Handshake bytes bytes bytes bytes bytes
  | Cookie bytes
  | StreamClose u32 u64
  | MaxStreamData u32 u64
  | MaxData u64
  | Datagram bytes
  | PathChallenge bytes
  | PathResponse bytes
  | CryptoFrame u64 bytes
  | MaxStreams u64
  | StreamsBlocked u64
  | Ping
  | ResetStream u32 u64 u64
  | StopSending u32 u64
  | DataBlocked u64
  | StreamDataBlocked u32 u64
  | ConnectionCloseV2 u64 bytes
  | TransportParameters transport_parameters

definition put_len16 :: "bytes \<Rightarrow> bytes" where
  "put_len16 xs = put_u16 (of_nat (length xs)) @ xs"

definition put_len_varint :: "bytes \<Rightarrow> bytes" where
  "put_len_varint xs = put_varint (of_nat (length xs)) @ xs"

fun encode :: "frame \<Rightarrow> bytes" where
  "encode (Padding len) = replicate len 0x00"
| "encode (StreamFrame sid st offset data) =
     0x01 # put_u32 sid @ [to_wire st] @ put_u64 offset @ put_len_varint data"
| "encode (Ack largest_acked window_size ack_delay ack_ranges) =
     (let range_len = min (length ack_ranges) 128 in
      0x02 # put_u64 largest_acked @ put_u32 window_size @ put_varint ack_delay @
      [of_nat range_len] @
      concat (map (\<lambda>(start, end). put_u64 start @ put_u64 end) (take range_len ack_ranges)))"
| "encode ConnectionClose = [0x03]"
| "encode (Handshake public_key ed_public_key transcript_hash signature alpn) =
     0x04 # public_key @ ed_public_key @ put_len16 transcript_hash @ signature @
     [of_nat (length alpn)] @ alpn"
| "encode (Cookie cookie) = 0x05 # put_len16 cookie"
| "encode (StreamClose sid final_size) = 0x06 # put_u32 sid @ put_u64 final_size"
| "encode (MaxStreamData sid max_data) = 0x07 # put_u32 sid @ put_u64 max_data"
| "encode (MaxData max_data) = 0x08 # put_u64 max_data"
| "encode (Datagram data) = 0x09 # put_len_varint data"
| "encode (PathChallenge data) = 0x0A # data"
| "encode (PathResponse data) = 0x0B # data"
| "encode (CryptoFrame offset data) = 0x0C # put_u64 offset @ put_len_varint data"
| "encode (MaxStreams max_streams) = 0x12 # put_u64 max_streams"
| "encode (StreamsBlocked max_streams) = 0x13 # put_u64 max_streams"
| "encode Ping = [0x0D]"
| "encode (ResetStream sid error_code final_size) =
     0x0E # put_u32 sid @ put_varint error_code @ put_varint final_size"
| "encode (StopSending sid error_code) = 0x0F # put_u32 sid @ put_varint error_code"
| "encode (DataBlocked max_data) = 0x10 # put_varint max_data"
| "encode (StreamDataBlocked sid max_data) = 0x11 # put_u32 sid @ put_varint max_data"
| "encode (ConnectionCloseV2 error_code reason) =
     0x14 # put_varint error_code @ put_len_varint reason"
| "encode (TransportParameters p) = 0x15 # transcript_bytes p"

section \<open>Decoding, one definition per frame type\<close>

fun skip_zeros :: "bytes \<Rightarrow> nat \<Rightarrow> nat \<times> bytes" where
  "skip_zeros (b # src) padding_len =
     (if b = 0x00 then skip_zeros src (padding_len + 1) else (padding_len, b # src))"
| "skip_zeros [] padding_len = (padding_len, [])"

definition decode_padding :: "bytes \<Rightarrow> (frame \<times> bytes) outcome" where
  "decode_padding src = (let (padding_len, src) = skip_zeros src 1 in Ok (Padding padding_len, src))"

definition decode_stream :: "bytes \<Rightarrow> (frame \<times> bytes) outcome" where
  "decode_stream src =
     guard (length src < 14) (InvalidPacket ''Stream frame too short'') (
     obind (get_u32 src) (\<lambda>(sid, src).
     obind (get_u8 src) (\<lambda>(b, src).
     obind (ok_or (InvalidPacket ''Invalid stream type'') (from_wire b)) (\<lambda>st.
     obind (get_u64 src) (\<lambda>(offset, src).
     obind (get_varint src) (\<lambda>(len, src).
     guard (length src < unat len) (InvalidPacket ''Stream frame truncated'') (
     obind (copy_to_bytes (unat len) src) (\<lambda>(data, src).
     Ok (StreamFrame sid st offset data, src)))))))))"

fun get_ranges :: "nat \<Rightarrow> bytes \<Rightarrow> ((u64 \<times> u64) list \<times> bytes) outcome" where
  "get_ranges 0 src = Ok ([], src)"
| "get_ranges (Suc n) src =
     obind (get_u64 src) (\<lambda>(start, src).
     obind (get_u64 src) (\<lambda>(end, src).
     guard (start > end) (InvalidPacket ''Ack range start > end'') (
     obind (get_ranges n src) (\<lambda>(rs, src). Ok ((start, end) # rs, src)))))"

definition decode_ack :: "bytes \<Rightarrow> (frame \<times> bytes) outcome" where
  "decode_ack src =
     guard (length src < 13) (InvalidPacket ''Ack frame too short'') (
     obind (get_u64 src) (\<lambda>(largest_acked, src).
     obind (get_u32 src) (\<lambda>(window_size, src).
     obind (get_varint src) (\<lambda>(ack_delay, src).
     guard (length src < 1) (InvalidPacket ''Ack frame range count missing'') (
     obind (get_u8 src) (\<lambda>(range_count, src).
     guard (unat range_count > 128) (InvalidPacket ''Too many ACK ranges'') (
     guard (length src < unat range_count * 16) (InvalidPacket ''Ack frame ranges truncated'') (
     obind (get_ranges (unat range_count) src) (\<lambda>(ack_ranges, src).
     Ok (Ack largest_acked window_size ack_delay ack_ranges, src))))))))))"

definition decode_handshake :: "bytes \<Rightarrow> (frame \<times> bytes) outcome" where
  "decode_handshake src =
     guard (length src < 130) (InvalidPacket ''Handshake frame too short'') (
     obind (copy_to_bytes 32 src) (\<lambda>(public_key, src).
     obind (copy_to_bytes 32 src) (\<lambda>(ed_public_key, src).
     obind (get_u16 src) (\<lambda>(th_len, src).
     guard (length src < unat th_len + 64) (InvalidPacket ''Handshake frame truncated'') (
     obind (copy_to_bytes (unat th_len) src) (\<lambda>(transcript_hash, src).
     obind (copy_to_bytes 64 src) (\<lambda>(signature, src).
     guard (length src < 1) (InvalidPacket ''Handshake frame ALPN length missing'') (
     obind (get_u8 src) (\<lambda>(alpn_len, src).
     guard (length src < unat alpn_len) (InvalidPacket ''Handshake frame ALPN truncated'') (
     obind (copy_to_bytes (unat alpn_len) src) (\<lambda>(alpn, src).
     Ok (Handshake public_key ed_public_key transcript_hash signature alpn, src))))))))))))"

definition decode_cookie :: "bytes \<Rightarrow> (frame \<times> bytes) outcome" where
  "decode_cookie src =
     guard (length src < 2) (InvalidPacket ''Cookie frame too short'') (
     obind (get_u16 src) (\<lambda>(len, src).
     guard (length src < unat len) (InvalidPacket ''Cookie frame truncated'') (
     obind (copy_to_bytes (unat len) src) (\<lambda>(cookie, src). Ok (Cookie cookie, src)))))"

definition decode_stream_close :: "bytes \<Rightarrow> (frame \<times> bytes) outcome" where
  "decode_stream_close src =
     guard (length src < 12) (InvalidPacket ''StreamClose frame too short'') (
     obind (get_u32 src) (\<lambda>(sid, src).
     obind (get_u64 src) (\<lambda>(final_size, src). Ok (StreamClose sid final_size, src))))"

definition decode_max_stream_data :: "bytes \<Rightarrow> (frame \<times> bytes) outcome" where
  "decode_max_stream_data src =
     guard (length src < 12) (InvalidPacket ''MaxStreamData frame too short'') (
     obind (get_u32 src) (\<lambda>(sid, src).
     obind (get_u64 src) (\<lambda>(max_data, src). Ok (MaxStreamData sid max_data, src))))"

text \<open>The three frame types whose body is one 64-bit integer.\<close>

definition decode_u64_frame ::
  "string \<Rightarrow> (u64 \<Rightarrow> frame) \<Rightarrow> bytes \<Rightarrow> (frame \<times> bytes) outcome" where
  "decode_u64_frame msg mk src =
     guard (length src < 8) (InvalidPacket msg) (
     obind (get_u64 src) (\<lambda>(v, src). Ok (mk v, src)))"

text \<open>The two frame types whose body is an 8-byte token.\<close>

definition decode_token_frame ::
  "string \<Rightarrow> (bytes \<Rightarrow> frame) \<Rightarrow> bytes \<Rightarrow> (frame \<times> bytes) outcome" where
  "decode_token_frame msg mk src =
     guard (length src < 8) (InvalidPacket msg) (
     obind (copy_to_bytes 8 src) (\<lambda>(data, src). Ok (mk data, src)))"

definition decode_datagram :: "bytes \<Rightarrow> (frame \<times> bytes) outcome" where
  "decode_datagram src =
     obind (get_varint src) (\<lambda>(len, src).
     guard (length src < unat len) (InvalidPacket ''Datagram frame truncated'') (
     obind (copy_to_bytes (unat len) src) (\<lambda>(data, src). Ok (Datagram data, src))))"

definition decode_crypto :: "bytes \<Rightarrow> (frame \<times> bytes) outcome" where
  "decode_crypto src =
     guard (length src < 9) (InvalidPacket ''Crypto frame too short'') (
     obind (get_u64 src) (\<lambda>(offset, src).
     obind (get_varint src) (\<lambda>(len, src).
     guard (length src < unat len) (InvalidPacket ''Crypto frame truncated'') (
     obind (copy_to_bytes (unat len) src) (\<lambda>(data, src). Ok (CryptoFrame offset data, src))))))"

definition decode_reset_stream :: "bytes \<Rightarrow> (frame \<times> bytes) outcome" where
  "decode_reset_stream src =
     guard (length src < 4) (InvalidPacket ''ResetStream frame too short'') (
     obind (get_u32 src) (\<lambda>(sid, src).
     obind (get_varint src) (\<lambda>(error_code, src).
     obind (get_varint src) (\<lambda>(final_size, src).
     Ok (ResetStream sid error_code final_size, src)))))"

definition decode_stop_sending :: "bytes \<Rightarrow> (frame \<times> bytes) outcome" where
  "decode_stop_sending src =
     guard (length src < 4) (InvalidPacket ''StopSending frame too short'') (
     obind (get_u32 src) (\<lambda>(sid, src).
     obind (get_varint src) (\<lambda>(error_code, src). Ok (StopSending sid error_code, src))))"

definition decode_data_blocked :: "bytes \<Rightarrow> (frame \<times> bytes) outcome" where
  "decode_data_blocked src = obind (get_varint src) (\<lambda>(max_data, src). Ok (DataBlocked max_data, src))"

definition decode_stream_data_blocked :: "bytes \<Rightarrow> (frame \<times> bytes) outcome" where
  "decode_stream_data_blocked src =
     guard (length src < 4) (InvalidPacket ''StreamDataBlocked frame too short'') (
     obind (get_u32 src) (\<lambda>(sid, src).
     obind (get_varint src) (\<lambda>(max_data, src). Ok (StreamDataBlocked sid max_data, src))))"

definition decode_connection_close_v2 :: "bytes \<Rightarrow> (frame \<times> bytes) outcome" where
  "decode_connection_close_v2 src =
     obind (get_varint src) (\<lambda>(error_code, src).
     obind (get_varint src) (\<lambda>(reason_len, src).
     guard (length src < unat reason_len) (InvalidPacket ''ConnectionCloseV2 reason truncated'') (
     obind (copy_to_bytes (unat reason_len) src) (\<lambda>(reason, src).
     Ok (ConnectionCloseV2 error_code reason, src)))))"

definition decode_transport_parameters :: "bytes \<Rightarrow> (frame \<times> bytes) outcome" where
  "decode_transport_parameters src =
     guard (length src < 36) (InvalidPacket ''TransportParameters frame too short'') (
     obind (get_u64 src) (\<lambda>(max_streams, src).
     obind (get_u64 src) (\<lambda>(stream_window, src).
     obind (get_u64 src) (\<lambda>(max_data, src).
     obind (get_u32 src) (\<lambda>(datagram_size, src).
     obind (get_u64 src) (\<lambda>(idle_ms, src).
     Ok (TransportParameters
           \<lparr>tp_max_streams = max_streams, tp_initial_stream_window = stream_window,
            tp_initial_max_data = max_data, tp_max_datagram_size = datagram_size,
            tp_idle_timeout_ms = idle_ms\<rparr>, src)))))))"

text \<open>The decimal text of a byte, as \<^verbatim>\<open>format!\<close> prints it.\<close>

definition show_u8 :: "u8 \<Rightarrow> string" where
  "show_u8 b =
     (let n = unat b; digit = (\<lambda>d. char_of (48 + d :: nat)) in
      (if 100 \<le> n then [digit (n div 100)] else []) @
      (if 10 \<le> n then [digit (n div 10 mod 10)] else []) @
      [digit (n mod 10)])"

definition decode_body :: "u8 \<Rightarrow> bytes \<Rightarrow> (frame \<times> bytes) outcome" where
  "decode_body frame_type src =
     (if frame_type = 0x00 then decode_padding src
      else if frame_type = 0x01 then decode_stream src
      else if frame_type = 0x02 then decode_ack src
      else if frame_type = 0x03 then Ok (ConnectionClose, src)
      else if frame_type = 0x04 then decode_handshake src
      else if frame_type = 0x05 then decode_cookie src
      else if frame_type = 0x06 then decode_stream_close src
      else if frame_type = 0x07 then decode_max_stream_data src
      else if frame_type = 0x08 then decode_u64_frame ''MaxData frame too short'' MaxData src
      else if frame_type = 0x09 then decode_datagram src
      else if frame_type = 0x0A then
        decode_token_frame ''PathChallenge frame too short'' PathChallenge src
      else if frame_type = 0x0B then
        decode_token_frame ''PathResponse frame too short'' PathResponse src
      else if frame_type = 0x0C then decode_crypto src
      else if frame_type = 0x12 then decode_u64_frame ''MaxStreams frame too short'' MaxStreams src
      else if frame_type = 0x13 then
        decode_u64_frame ''StreamsBlocked frame too short'' StreamsBlocked src
      else if frame_type = 0x0D then Ok (Ping, src)
      else if frame_type = 0x0E then decode_reset_stream src
      else if frame_type = 0x0F then decode_stop_sending src
      else if frame_type = 0x10 then decode_data_blocked src
      else if frame_type = 0x11 then decode_stream_data_blocked src
      else if frame_type = 0x14 then decode_connection_close_v2 src
      else if frame_type = 0x15 then decode_transport_parameters src
      else Err (InvalidPacket (''Unknown frame type: '' @ show_u8 frame_type)))"

definition decode :: "bytes \<Rightarrow> (frame \<times> bytes) outcome" where
  "decode src =
     guard (length src < 1) (InvalidPacket ''Empty frame'') (
     obind (get_u8 src) (\<lambda>(frame_type, src). decode_body frame_type src))"

lemmas decode_defs = decode_padding_def decode_stream_def decode_ack_def decode_handshake_def
  decode_cookie_def decode_stream_close_def decode_max_stream_data_def decode_u64_frame_def
  decode_token_frame_def decode_datagram_def decode_crypto_def decode_reset_stream_def
  decode_stop_sending_def decode_data_blocked_def decode_stream_data_blocked_def
  decode_connection_close_v2_def decode_transport_parameters_def

section \<open>Well-formed frames and payloads\<close>

fun wf_frame :: "frame \<Rightarrow> bool" where
  "wf_frame (Padding len) \<longleftrightarrow> 1 \<le> len"
| "wf_frame (StreamFrame _ _ _ data) \<longleftrightarrow> length data < 2 ^ 62"
| "wf_frame (Ack _ _ ack_delay ack_ranges) \<longleftrightarrow>
     ack_delay < 2 ^ 62 \<and> length ack_ranges \<le> 128 \<and> list_all (\<lambda>(start, end). start \<le> end) ack_ranges"
| "wf_frame (Handshake public_key ed_public_key transcript_hash signature alpn) \<longleftrightarrow>
     length public_key = 32 \<and> length ed_public_key = 32 \<and> length transcript_hash < 65536
   \<and> length signature = 64 \<and> length alpn < 256"
| "wf_frame (Cookie cookie) \<longleftrightarrow> length cookie < 65536"
| "wf_frame (Datagram data) \<longleftrightarrow> length data < 2 ^ 62"
| "wf_frame (PathChallenge data) \<longleftrightarrow> length data = 8"
| "wf_frame (PathResponse data) \<longleftrightarrow> length data = 8"
| "wf_frame (CryptoFrame _ data) \<longleftrightarrow> length data < 2 ^ 62"
| "wf_frame (ResetStream _ error_code final_size) \<longleftrightarrow> error_code < 2 ^ 62 \<and> final_size < 2 ^ 62"
| "wf_frame (StopSending _ error_code) \<longleftrightarrow> error_code < 2 ^ 62"
| "wf_frame (DataBlocked max_data) \<longleftrightarrow> max_data < 2 ^ 62"
| "wf_frame (StreamDataBlocked _ max_data) \<longleftrightarrow> max_data < 2 ^ 62"
| "wf_frame (ConnectionCloseV2 error_code reason) \<longleftrightarrow> error_code < 2 ^ 62 \<and> length reason < 2 ^ 62"
| "wf_frame _ \<longleftrightarrow> True"

text \<open>A run of padding ends where the next byte is not zero.\<close>

fun delimited :: "frame \<Rightarrow> bytes \<Rightarrow> bool" where
  "delimited (Padding _) (b # rest) \<longleftrightarrow> b \<noteq> 0x00"
| "delimited _ _ \<longleftrightarrow> True"

fun run_handlers :: "(frame \<Rightarrow> 's \<Rightarrow> 's \<times> unit outcome) \<Rightarrow> frame list \<Rightarrow> 's \<Rightarrow> 's \<times> unit outcome" where
  "run_handlers handle_frame [] s = (s, Ok ())"
| "run_handlers handle_frame (f # fs) s =
     (case handle_frame f s of
        (s', Ok _) \<Rightarrow> run_handlers handle_frame fs s'
      | (s', r) \<Rightarrow> (s', r))"

fun is_padding :: "frame \<Rightarrow> bool" where
  "is_padding (Padding _) = True"
| "is_padding _ = False"

text \<open>Payloads a sender may build: well-formed frames, with neighbouring paddings merged.\<close>

fun wf_payload :: "frame list \<Rightarrow> bool" where
  "wf_payload [] = True"
| "wf_payload (f # fs) \<longleftrightarrow>
     wf_frame f \<and> wf_payload fs \<and> (is_padding f \<longrightarrow> (case fs of [] \<Rightarrow> True | g # _ \<Rightarrow> \<not> is_padding g))"

section \<open>Variable-length integers read back\<close>

text \<open>A value below \<open>2 ^ k\<close> with a two-bit tag put above it.\<close>

lemma tagged_word:
  fixes v :: "'a::len word"
  assumes "v < 2 ^ k" and "take_bit k t = 0"
  shows "drop_bit k (v OR t) = drop_bit k t" and "take_bit k (v OR t) = v"
proof -
  have "drop_bit k v = 0" and "take_bit k v = v"
    by (rule bit_word_eqI;
        use word_bound_bit [OF assms(1)] in \<open>auto simp: bit_drop_bit_eq bit_take_bit_iff\<close>)+
  then show "drop_bit k (v OR t) = drop_bit k t" and "take_bit k (v OR t) = v"
    using assms(2) by simp_all
qed

lemma ucast_small:
  assumes "(v :: u64) < 2 ^ k" and "k < LENGTH('a)"
  shows "(ucast v :: 'a::len word) < 2 ^ k" and "ucast (ucast v :: 'a word) = v"
proof -
  show "ucast (ucast v :: 'a word) = v"
    by (rule bit_word_eqI) (use assms in \<open>auto simp: bit_ucast_iff dest: word_bound_bit\<close>)
  have "take_bit k (ucast v :: 'a word) = ucast v"
    by (rule bit_word_eqI) (use assms in \<open>auto simp: bit_take_bit_iff bit_ucast_iff dest: word_bound_bit\<close>)
  then show "(ucast v :: 'a word) < 2 ^ k" using assms(2)
    by (metis and_mask_less_size take_bit_eq_mask word_size)
qed

lemma first_byte_tag:
  "drop_bit 6 (ucast (drop_bit (8 * n) w) :: u8) = ucast (take_bit 2 (drop_bit (8 * n + 6) w))"
  for w :: "'a::len word"
  by (rule bit_word_eqI)
     (auto simp: bit_drop_bit_eq bit_ucast_iff bit_take_bit_iff add.assoc dest: bit_imp_le_length)

lemma varint_head:
  fixes v t :: "'a::len word"
  assumes "v < 2 ^ k" and "take_bit k t = 0" and "0 < n" and "k = 8 * n - 2"
  shows "drop_bit 6 (hd (to_be n (v OR t) @ rest)) = ucast (take_bit 2 (drop_bit k t))"
proof -
  obtain m where n: "n = Suc m" and k: "k = 8 * m + 6"
    using assms(3,4) by (cases n) auto
  show ?thesis
    unfolding n to_be_Suc_hd append_Cons list.sel(1) first_byte_tag
    using tagged_word(1) [OF assms(1,2)] by (simp only: k)
qed

lemma get_varint_1:
  assumes "v < 2 ^ 6"
  shows "get_varint (ucast v # rest) = Ok (v, rest)"
proof -
  have "ucast (ucast v :: u8) = v"
    using ucast_small [OF assms, where ?'a = 8] by simp
  moreover have "drop_bit 6 (ucast v :: u8) = 0"
    by (rule bit_word_eqI) (use word_bound_bit [OF assms] in \<open>auto simp: bit_drop_bit_eq bit_ucast_iff\<close>)
  ultimately show ?thesis
    by (simp add: get_varint_def get_u8_def)
qed

lemma tagged_value:
  "v < 2 ^ k \<Longrightarrow> take_bit k t = 0 \<Longrightarrow> (v OR t) AND mask k = v" for v :: "'a::len word"
  using tagged_word(2) [of v k t] by (simp only: take_bit_eq_mask)

lemma varint_masks:
  "(0x3FFF :: u16) = mask 14" "(0x3FFFFFFF :: u32) = mask 30" "(0x3FFFFFFFFFFFFFFF :: u64) = mask 62"
  by (simp_all add: mask_eq_exp_minus_1)

lemma varint_tags:
  "take_bit 14 (0x4000 :: u16) = 0" "ucast (take_bit 2 (drop_bit 14 (0x4000 :: u16))) = (1 :: u8)"
  "take_bit 30 (0x80000000 :: u32) = 0"
  "ucast (take_bit 2 (drop_bit 30 (0x80000000 :: u32))) = (2 :: u8)"
  "take_bit 62 (0xC000000000000000 :: u64) = 0"
  "ucast (take_bit 2 (drop_bit 62 (0xC000000000000000 :: u64))) = (3 :: u8)"
  by code_simp+

lemma get_varint_2:
  assumes "v < 2 ^ 14"
  shows "get_varint (put_u16 (ucast v OR 0x4000) @ rest) = Ok (v, rest)"
proof -
  have small: "(ucast v :: u16) < 2 ^ 14" "ucast (ucast v :: u16) = v"
    by (rule ucast_small [OF assms]; simp)+
  have tag: "drop_bit 6 (hd (put_u16 (ucast v OR 0x4000) @ rest)) = 1"
    using varint_head [OF small(1) varint_tags(1), of 2 rest] unfolding varint_tags
    by simp
  show ?thesis
    unfolding get_varint_def tag get_be_append varint_masks
    by (simp add: get_be_append tagged_value [OF small(1) varint_tags(1)] small(2))
qed

lemma get_varint_4:
  assumes "v < 2 ^ 30"
  shows "get_varint (put_u32 (ucast v OR 0x80000000) @ rest) = Ok (v, rest)"
proof -
  have small: "(ucast v :: u32) < 2 ^ 30" "ucast (ucast v :: u32) = v"
    by (rule ucast_small [OF assms]; simp)+
  have tag: "drop_bit 6 (hd (put_u32 (ucast v OR 0x80000000) @ rest)) = 2"
    using varint_head [OF small(1) varint_tags(3), of 4 rest] unfolding varint_tags
    by simp
  show ?thesis
    unfolding get_varint_def tag get_be_append varint_masks
    by (simp add: get_be_append tagged_value [OF small(1) varint_tags(3)] small(2))
qed

lemma get_varint_8: "get_varint (put_u64 (v OR 0xC000000000000000) @ rest) = Ok (take_bit 62 v, rest)"
proof -
  let ?t = "0xC000000000000000 :: u64"
  have v: "v OR ?t = take_bit 62 v OR ?t"
  proof (rule bit_word_eqI)
    fix n
    have "?t = NOT (mask 62)" by (simp add: mask_eq_exp_minus_1)
    then show "bit (v OR ?t) n = bit (take_bit 62 v OR ?t) n"
      by (auto simp only: bit_or_iff bit_take_bit_iff bit_not_iff bit_mask_iff dest: impossible_bit)
  qed
  have small: "take_bit 62 v < 2 ^ 62"
    unfolding take_bit_eq_mask by (rule and_mask_less_size) (simp add: word_size)
  have tag: "drop_bit 6 (hd (put_u64 (take_bit 62 v OR ?t) @ rest)) = 3"
    using varint_head [OF small(1) varint_tags(5), of 8 rest] unfolding varint_tags
    by simp
  show ?thesis
    unfolding get_varint_def v tag get_be_append varint_masks
    by (simp add: get_be_append tagged_value [OF small(1) varint_tags(5)])
qed

text \<open>
  What is read back is the low 62 bits: the encoder overwrites the two bits it needs for the tag.
\<close>

lemma get_put_varint [codec_simps]: "get_varint (put_varint v @ rest) = Ok (take_bit 62 v, rest)"
proof -
  have small: "take_bit 62 v = v" if "v < b" and "b \<le> 2 ^ 62" for b
    by (rule take_bit_small) (rule order.strict_trans2 [OF that])
  show ?thesis
    using get_varint_1 [of v rest] get_varint_2 [of v rest] get_varint_4 [of v rest] get_varint_8 [of v rest]
      small [of 64] small [of 16384] small [of 1073741824]
    by (auto simp: put_varint_def)
qed

section \<open>Reading back a frame\<close>

lemma length_put_varint: "1 \<le> length (put_varint v)"
  by (simp add: put_varint_def)

lemma put_varint_nonempty [simp]: "put_varint v \<noteq> []"
  using length_put_varint [of v] by auto

lemma from_wire_to_wire [simp]: "from_wire (to_wire st) = Some st"
  by (cases st) (simp_all add: from_wire_def)

lemma take_bit_62 [simp]: "v < 2 ^ 62 \<Longrightarrow> take_bit 62 v = v" for v :: u64
  by (rule take_bit_small)

lemma varint_len [simp]:
  assumes "n < 2 ^ 62"
  shows "unat (take_bit 62 (of_nat n :: u64)) = n"
proof -
  have "unat (of_nat n :: u64) = n" using assms by (simp add: unat_of_nat)
  then show ?thesis using assms by (simp add: unsigned_take_bit_eq take_bit_nat_eq_self)
qed

lemma skip_zeros_replicate:
  "delimited (Padding len) rest \<Longrightarrow> skip_zeros (replicate n 0 @ rest) k = (k + n, rest)"
proof (induction n arbitrary: k)
  case 0
  then show ?case by (cases rest) auto
qed auto

lemma get_ranges_encode:
  "list_all (\<lambda>(start, end). start \<le> end) rs \<Longrightarrow>
   get_ranges (length rs) (concat (map (\<lambda>(start, end). put_u64 start @ put_u64 end) rs) @ rest) = Ok (rs, rest)"
  by (induction rs) (auto simp: codec_simps guard_def)

lemma length_ranges: "length (concat (map (\<lambda>(start, end). put_u64 start @ put_u64 end) rs)) = length rs * 16"
  by (induction rs) auto

lemma decode_Cons: "decode (b # src) = decode_body b src"
  by (simp add: decode_def get_u8_def)

lemma copy_to_bytes_append': "n = length xs \<Longrightarrow> copy_to_bytes n (xs @ rest) = Ok (xs, rest)"
  by (simp add: copy_to_bytes_append)

lemma decode_ack_encode:
  assumes "ack_delay < 2 ^ 62" and "length rs \<le> 128" and "list_all (\<lambda>(start, end). start \<le> end) rs"
  shows "decode (encode (Ack la ws ack_delay rs) @ rest) = Ok (Ack la ws ack_delay rs, rest)"
proof -
  have n: "unat (of_nat (length rs) :: u8) = length rs" using assms(2) by (simp add: unat_of_nat)
  show ?thesis using assms length_put_varint [of ack_delay]
    by (simp add: decode_Cons decode_body_def decode_ack_def codec_simps n length_ranges get_ranges_encode)
qed

lemma decode_handshake_encode:
  assumes "wf_frame (Handshake pk ed th sig alpn)"
  shows "decode (encode (Handshake pk ed th sig alpn) @ rest) = Ok (Handshake pk ed th sig alpn, rest)"
proof -
  have "unat (of_nat (length th) :: u16) = length th" "unat (of_nat (length alpn) :: u8) = length alpn" 
    using assms by (simp_all add: unat_of_nat)
  then show ?thesis using assms 
    by (simp add: decode_Cons decode_body_def decode_handshake_def codec_simps put_len16_def copy_to_bytes_append')
qed

lemma decode_encode_frame:
  assumes "wf_frame f" and "delimited f rest"
  shows "decode (encode f @ rest) = Ok (f, rest)"
proof (cases f)
  case (Padding len)
  then obtain n where "len = Suc n" using assms(1) by (cases len) auto
  then show ?thesis using Padding assms(2)
    by (simp add: decode_Cons decode_body_def decode_padding_def skip_zeros_replicate)
next
  case (StreamFrame sid st offset data)
  then show ?thesis using assms(1) length_put_varint [of "of_nat (length data)"]
    by (simp add: decode_Cons decode_body_def decode_stream_def codec_simps put_len_varint_def)
next
  case (Ack la ws ad rs)
  then show ?thesis using assms(1) decode_ack_encode by simp
next
  case (Handshake pk ed th sig alpn)
  then show ?thesis using assms(1) decode_handshake_encode by blast
next
  case (Cookie cookie)
  then have "unat (of_nat (length cookie) :: u16) = length cookie"
    using assms by (simp add: unat_of_nat)
  then show ?thesis using Cookie
    by (simp add: decode_Cons decode_body_def decode_cookie_def codec_simps put_len16_def)
next
  case (CryptoFrame offset data)
  then show ?thesis using assms(1) length_put_varint [of "of_nat (length data)"]
    by (simp add: decode_Cons decode_body_def decode_crypto_def codec_simps put_len_varint_def)
qed (use assms(1) in \<open>simp_all add: decode_Cons decode_body_def decode_defs codec_simps copy_to_bytes_append' put_len_varint_def transcript_bytes_def\<close>)
section \<open>Decoding arbitrary bytes\<close>

lemma varint_tag_cases: "drop_bit 6 (b :: u8) \<in> {0, 1, 2, 3}"
proof -
  let ?d = "drop_bit 6 b"
  have "unat ?d = unat b div 64" 
    using unat_u8_less [of b] unfolding unsigned_drop_bit_eq
    by (simp add: drop_bit_eq_div take_bit_nat_eq_self)
  then have "unat ?d < 4" using unat_u8_less [of b] by linarith
  then consider "unat ?d = unat (0 :: u8)" | "unat ?d = unat (1 :: u8)"
    | "unat ?d = unat (2 :: u8)" | "unat ?d = unat (3 :: u8)"
    by fastforce
  then show ?thesis by cases (drule unsigned_word_eqI, simp)+
qed

lemma get_varint_not_Panic [no_panic]: "get_varint src \<noteq> Panic"
  using varint_tag_cases [of "hd src"] unfolding get_varint_def Let_def
  by (intro no_panic) auto

lemma get_ranges_not_Panic [no_panic]: "n * 16 \<le> length src \<Longrightarrow> get_ranges n src \<noteq> Panic"
proof (induction n arbitrary: src)
  case (Suc n)
  show ?case unfolding get_ranges.simps
    by (intro no_panic Suc.IH) (use Suc.prems in \<open>auto dest!: read_lengths\<close>)
qed simp

lemma decode_not_Panic: "decode src \<noteq> Panic"
  unfolding decode_def decode_body_def decode_defs Let_def
  by (intro no_panic) (auto dest!: read_lengths split: prod.splits)

text \<open>Every decoder leaves a suffix of what it was given.\<close>

lemma get_be_suffix: "get_be n src = Ok (w, rest) \<Longrightarrow> suffix rest src"
  by (auto dest: get_be_Ok simp: suffix_drop)

lemma get_u8_suffix: "get_u8 src = Ok (b, rest) \<Longrightarrow> suffix rest src"
  by (simp add: get_u8_Ok suffix_ConsI)

lemma copy_to_bytes_suffix: "copy_to_bytes n src = Ok (xs, rest) \<Longrightarrow> suffix rest src"
  by (auto simp: copy_to_bytes_Ok suffix_def)

lemma get_varint_suffix: "get_varint src = Ok (v, rest) \<Longrightarrow> suffix rest src"
  by (auto simp: get_varint_def outcome_Ok_iffs Let_def split: if_splits
           dest: get_be_suffix get_u8_suffix)

lemma get_ranges_suffix: "get_ranges n src = Ok (rs, rest) \<Longrightarrow> suffix rest src"
proof (induction n arbitrary: src rs)
  case (Suc n)
  then show ?case
    by (auto simp: outcome_Ok_iffs dest!: get_be_suffix Suc.IH intro: suffix_order.trans)
qed simp

lemma skip_zeros_suffix: "skip_zeros src k = (n, rest) \<Longrightarrow> suffix rest src"
  by (induction src k rule: skip_zeros.induct) (auto split: if_splits intro: suffix_ConsI)

lemmas read_suffix = get_be_suffix get_u8_suffix copy_to_bytes_suffix get_varint_suffix
  get_ranges_suffix skip_zeros_suffix

lemma decode_body_suffix: "decode_body b src = Ok (f, rest) \<Longrightarrow> suffix rest src"
  unfolding decode_body_def decode_defs
  by (auto simp: outcome_Ok_iffs Let_def split: if_splits prod.splits dest!: read_suffix
           intro: suffix_order.trans)

lemma decode_strict_suffix: "decode src = Ok (f, rest) \<Longrightarrow> strict_suffix rest src"
  by (auto simp: decode_def outcome_Ok_iffs get_u8_Ok strict_suffix_def suffix_length_le
           dest!: decode_body_suffix intro: suffix_ConsI dest: suffix_length_le)

section \<open>Handling the frames of a payload\<close>

text \<open>
  The receive loop: decode and handle frames until the payload is used up or a frame does not
  decode.  The handler returns the new connection state and its result; an error ends the loop.
\<close>

function handle_payload ::
  "(frame \<Rightarrow> 's \<Rightarrow> 's \<times> unit outcome) \<Rightarrow> bytes \<Rightarrow> 's \<Rightarrow> 's \<times> unit outcome" where
  "handle_payload handle_frame src s =
     (if src = [] then (s, Ok ())
      else case decode src of
        Ok (f, rest) \<Rightarrow>
          (case handle_frame f s of
             (s', Ok _) \<Rightarrow> handle_payload handle_frame rest s'
           | (s', r) \<Rightarrow> (s', r))
      | Err _ \<Rightarrow> (s, Ok ())
      | Panic \<Rightarrow> (s, Panic))"
  by pat_completeness auto
termination
  by (relation "measure (\<lambda>(_, src, _). length src)")
     (auto dest!: decode_strict_suffix suffix_length_less)

declare handle_payload.simps [simp del]

lemma encode_head: "wf_frame f \<Longrightarrow> \<exists>b bs. encode f = b # bs \<and> (b = 0 \<longleftrightarrow> is_padding f)"
  by (cases f) (auto simp: Let_def neq_Nil_conv gr0_conv_Suc Suc_le_eq)

lemma delimited_payload:
  assumes "wf_payload (f # fs)"
  shows "delimited f (concat (map encode fs))"
proof (cases fs)
  case Nil
  then show ?thesis by (cases f) auto
next
  case (Cons g gs)
  then obtain b bs where "encode g = b # bs" "b = 0 \<longleftrightarrow> is_padding g"
    using assms encode_head [of g] by auto
  then show ?thesis using assms Cons by (cases f) auto
qed

lemma handle_payload_frames:
  assumes "wf_payload fs"
  shows "handle_payload h (concat (map encode fs)) s = run_handlers h fs s"
  using assms
proof (induction fs arbitrary: s)
  case Nil
  then show ?case by (simp add: handle_payload.simps)
next
  case (Cons f fs)
  have "decode (encode f @ concat (map encode fs)) = Ok (f, concat (map encode fs))"
    using Cons.prems delimited_payload [OF Cons.prems] by (intro decode_encode_frame) auto
  moreover have "encode f \<noteq> []" using Cons.prems encode_head [of f] by auto
  ultimately show ?case
    using Cons by (subst handle_payload.simps) (auto split: prod.splits outcome.splits)
qed

lemma get_varint_bound:
  assumes "get_varint src = Ok (v, rest)"
  shows "v < 2 ^ 62"
proof -
  have mask: "w AND mask k < 2 ^ k" if "k < 64" for w :: u64 and k
    using that and_mask_less_size [of k w] by (simp add: word_size)
  have le: "(2 :: u64) ^ k \<le> 2 ^ 62" if "k \<in> {14, 30, 62}" for k
    using that by auto
  have small: "unat x < 2 ^ 62 \<Longrightarrow> x < 2 ^ 62" for x :: u64
    by (simp add: word_less_nat_alt)
  have "unat (ucast (b :: u8) :: u64) < 2 ^ 62" for b
    using unat_u8_less [of b] by (simp add: unsigned_ucast_eq take_bit_nat_eq_self)
  moreover have "unat (ucast (x :: u16) :: u64) < 2 ^ 62" for x
    using unat_u16_less [of x] by (simp add: unsigned_ucast_eq take_bit_nat_eq_self)
  moreover have "unat (ucast (x :: u32) :: u64) < 2 ^ 62" for x
    using unat_u32_less [of x] by simp
  ultimately show ?thesis
    using assms mask [of 62] small unfolding get_varint_def varint_masks
    by (auto simp: outcome_Ok_iffs Let_def split: if_splits)
qed

lemma unat_less_62: "v < 4611686018427387904 \<Longrightarrow> unat (v :: u64) < 4611686018427387904"
  by (simp add: word_less_nat_alt)

lemma get_ranges_wf:
  "get_ranges n src = Ok (rs, rest) \<Longrightarrow> length rs = n \<and> list_all (\<lambda>(start, end). start \<le> end) rs"
proof (induction n arbitrary: src rs)
  case (Suc n)
  then show ?case by (auto simp: outcome_Ok_iffs not_less dest!: Suc.IH)
qed simp

lemma skip_zeros_wf: "skip_zeros src k = (n, rest) \<Longrightarrow> k \<le> n \<and> delimited (Padding n) rest"
  by (induction src k rule: skip_zeros.induct) (auto split: if_splits dest: Suc_leD)

lemma decode_wf:
  assumes "decode src = Ok (f, rest)"
  shows "wf_frame f \<and> delimited f rest"
proof -
  obtain b src' where "decode_body b src' = Ok (f, rest)"
    using assms by (auto simp: decode_def outcome_Ok_iffs)
  then show ?thesis
    unfolding decode_body_def decode_defs
    by (auto simp: outcome_Ok_iffs Let_def copy_to_bytes_Ok split: if_splits prod.splits
             dest!: get_varint_bound get_ranges_wf skip_zeros_wf
             intro: unat_u8_less unat_u16_less unat_less_62)
qed

section \<open>Properties\<close>

text \<open>
  C15: the frames a peer packs into one payload are handed to the frame handler in that order,
  each exactly once and unchanged, and the loop stops early only where the handler reports an error.
\<close>

theorem payload_delivers_frames:
  assumes "wf_payload fs"
  shows "handle_payload h (concat (map encode fs)) s = run_handlers h fs s"
  by (rule handle_payload_frames [OF assms])

theorem payload_delivers_frames_witness:
  "handle_payload (\<lambda>f s. (s @ [f], Ok ())) [0x0D, 0x08, 0, 0, 0, 0, 0, 0, 0x10, 0, 0, 0, 0, 0x03] []
   = ([Ping, MaxData 4096, Padding 3, ConnectionClose], Ok ())"
proof -
  let ?fs = "[Ping, MaxData 4096, Padding 3, ConnectionClose]"
  have wf: "wf_payload ?fs" by simp
  have bytes: "concat (map encode ?fs) = [0x0D, 0x08, 0, 0, 0, 0, 0, 0, 0x10, 0, 0, 0, 0, 0x03]"
    by code_simp
  show ?thesis
    using payload_delivers_frames [OF wf, of "\<lambda>f s. (s @ [f], Ok ())" "[]"]
    unfolding bytes by simp
qed

text \<open>
  C28: whatever bytes arrive, a frame that decodes is well formed, has used up at least one byte of
  the cursor, leaves a suffix of it, and encodes to bytes that decode to the same frame.
\<close>

theorem decode_sound:
  assumes "decode src = Ok (f, rest)"
  shows "strict_suffix rest src \<and> wf_frame f \<and> decode (encode f @ rest) = Ok (f, rest)"
  using decode_strict_suffix [OF assms] decode_wf [OF assms] decode_encode_frame by blast

theorem decode_sound_witness:
  "decode [0x10, 0x7F, 0xFE, 0x0D] = Ok (DataBlocked 0x3FFE, [0x0D])
   \<and> decode (encode (DataBlocked 0x3FFE) @ [0x0D]) = Ok (DataBlocked 0x3FFE, [0x0D])"
proof -
  have d: "decode [0x10, 0x7F, 0xFE, 0x0D] = Ok (DataBlocked 0x3FFE, [0x0D])"
    by code_simp
  from decode_sound [OF d] d show ?thesis by blast
qed

text \<open>
  C37: error codes and sizes of a stream reset travel as 62-bit integers; the two high bits of a
  larger value are lost without an error, although the interface takes any 64-bit code.
\<close>

theorem reset_code_truncated:
  "decode (encode (ResetStream sid error_code final_size))
   = Ok (ResetStream sid (take_bit 62 error_code) (take_bit 62 final_size), [])"
  using get_put_varint [of final_size "[]"]
  by (simp add: decode_Cons decode_body_def decode_reset_stream_def codec_simps)

end
