(* ===== verification/Zt_Packet.thy ===== *)
theory Zt_Packet
  imports Zt_Prelude Zt_PacketNumber
begin

text \<open>
  Packet headers (\<^verbatim>\<open>src/src/protocol/packet.rs\<close>) and the connection-id extraction of the
  datagram router (\<^verbatim>\<open>src/src/protocol/routing.rs\<close>).
\<close>

section \<open>Header data\<close>

datatype packet_type = Pt_Initial | Pt_Handshake | Pt_Data | Pt_Close | Pt_MtuProbe | Pt_Retry

fun packet_type_code :: "packet_type \<Rightarrow> u8" where
  "packet_type_code Pt_Initial = 0x00"
| "packet_type_code Pt_Handshake = 0x01"
| "packet_type_code Pt_Data = 0x02"
| "packet_type_code Pt_Close = 0x0A"
| "packet_type_code Pt_MtuProbe = 0x0B"
| "packet_type_code Pt_Retry = 0x0C"

record packet_header =
  ph_type :: packet_type
  ph_is_long :: bool
  ph_version :: u32
  ph_dcid :: bytes
  ph_scid :: bytes
  ph_packet_number :: u64
  ph_key_phase :: bool
  ph_pn_len :: nat

section \<open>Locating the packet number and the connection id\<close>

definition get_pn_offset :: "bytes \<Rightarrow> nat option" where
  "get_pn_offset data =
     (if data = [] then None
      else if (data ! 0) AND 0x80 \<noteq> 0 then
        (if length data < 6 then None
         else
           let offset = 6 + unat (data ! 5) in
           if length data < offset + 1 then None
           else Some (offset + 1 + unat (data ! offset)))
      else
        (if length data < 2 then None
         else Some (2 + unat (data ! 1))))"

definition extract_dcid_fast :: "bytes \<Rightarrow> bytes option" where
  "extract_dcid_fast data =
     (if data = [] then None
      else if (data ! 0) AND 0x80 \<noteq> 0 then
        (if length data < 6 then None
         else
           let dcid_len = unat (data ! 5) in
           if length data < 6 + dcid_len then None
           else Some (take dcid_len (drop 6 data)))
      else
        (if length data < 2 then None
         else
           let dcid_len = unat (data ! 1) in
           if length data < 2 + dcid_len then None
           else Some (take dcid_len (drop 2 data))))"

section \<open>Encoding\<close>

definition clamp_pn_len :: "nat \<Rightarrow> nat" where
  "clamp_pn_len n = max 1 (min 4 n)"

definition pn_mask :: "nat \<Rightarrow> u64" where
  "pn_mask n =
     (if n = 1 then 0xFF else if n = 2 then 0xFFFF else if n = 3 then 0xFFFFFF else 0xFFFFFFFF)"

definition put_pn :: "nat \<Rightarrow> u32 \<Rightarrow> bytes" where
  "put_pn n truncated_pn =
     (if n = 1 then [ucast truncated_pn]
      else if n = 2 then put_u16 (ucast truncated_pn)
      else if n = 3 then drop 1 (put_u32 truncated_pn)
      else put_u32 truncated_pn)"

definition first_byte_long :: "packet_type \<Rightarrow> nat \<Rightarrow> u8" where
  "first_byte_long pt pn_len = 0x80 OR push_bit 2 (packet_type_code pt AND 0x0F) OR of_nat (pn_len - 1)"

definition first_byte_short :: "packet_type \<Rightarrow> bool \<Rightarrow> nat \<Rightarrow> u8" where
  "first_byte_short pt key_phase pn_len =
     (let first_byte = push_bit 2 (packet_type_code pt AND 0x0F) OR of_nat (pn_len - 1) in
      if key_phase then first_byte OR 0x40 else first_byte)"

definition encode_header :: "packet_header \<Rightarrow> bytes" where
  "encode_header h =
     (let pn_len = clamp_pn_len (ph_pn_len h);
          truncated_pn = ucast (ph_packet_number h AND pn_mask pn_len)
      in
      (if ph_is_long h then
         [first_byte_long (ph_type h) pn_len] @ put_u32 (ph_version h) @
         [of_nat (length (ph_dcid h))] @ ph_dcid h @
         [of_nat (length (ph_scid h))] @ ph_scid h
       else
         [first_byte_short (ph_type h) (ph_key_phase h) pn_len] @
         [of_nat (length (ph_dcid h))] @ ph_dcid h) @
      put_pn pn_len truncated_pn)"

section \<open>Decoding\<close>

definition get_pn :: "nat \<Rightarrow> bytes \<Rightarrow> (u64 \<times> bytes) outcome" where
  "get_pn n src =
     (if n = 1 then obind (get_u8 src) (\<lambda>(b, src). Ok (ucast b, src))
      else if n = 2 then obind (get_u16 src) (\<lambda>(w, src). Ok (ucast w, src))
      else if n = 3 then
        obind (copy_to_bytes 3 src) (\<lambda>(bs, src). Ok (ucast (from_be (0 # bs) :: u32), src))
      else if n = 4 then obind (get_u32 src) (\<lambda>(w, src). Ok (ucast w, src))
      else Panic)"

definition long_type :: "u8 \<Rightarrow> packet_type option" where
  "long_type v =
     (if v = 0x00 then Some Pt_Initial else if v = 0x01 then Some Pt_Handshake
      else if v = 0x0C then Some Pt_Retry else None)"

definition short_type :: "u8 \<Rightarrow> packet_type option" where
  "short_type v =
     (if v = 0x02 then Some Pt_Data else if v = 0x0A then Some Pt_Close
      else if v = 0x0B then Some Pt_MtuProbe else None)"

definition decode_long_header :: "packet_type option \<Rightarrow> nat \<Rightarrow> bytes \<Rightarrow> (packet_header \<times> bytes) outcome" where
  "decode_long_header type_opt pn_len src =
     obind (ok_or (InvalidPacket ''Invalid long packet type'') type_opt) (\<lambda>pt.
     guard (length src < 5 + pn_len) (InvalidPacket ''Short'') (
     obind (get_u32 src) (\<lambda>(version, src).
     obind (get_u8 src) (\<lambda>(dcid_len, src).
     guard (length src < unat dcid_len) (InvalidPacket ''Truncated DCID'') (
     obind (copy_to_bytes (unat dcid_len) src) (\<lambda>(dcid, src).
     guard (length src < 1) (InvalidPacket ''Missing SCID len'') (
     obind (get_u8 src) (\<lambda>(scid_len, src).
     guard (length src < unat scid_len + pn_len) (InvalidPacket ''Truncated'') (
     obind (copy_to_bytes (unat scid_len) src) (\<lambda>(scid, src).
     obind (get_pn pn_len src) (\<lambda>(truncated_pn, src).
     Ok (\<lparr>ph_type = pt, ph_is_long = True, ph_version = version, ph_dcid = dcid,
          ph_scid = scid, ph_packet_number = truncated_pn, ph_key_phase = False,
          ph_pn_len = pn_len\<rparr>, src))))))))))))"

definition decode_short_header ::
  "packet_type option \<Rightarrow> bool \<Rightarrow> nat \<Rightarrow> bytes \<Rightarrow> (packet_header \<times> bytes) outcome" where
  "decode_short_header type_opt key_phase pn_len src =
     obind (ok_or (InvalidPacket ''Invalid short packet type'') type_opt) (\<lambda>pt.
     guard (length src < 1 + pn_len) (InvalidPacket ''Short'') (
     obind (get_u8 src) (\<lambda>(dcid_len, src).
     guard (length src < unat dcid_len + pn_len) (InvalidPacket ''Truncated'') (
     obind (copy_to_bytes (unat dcid_len) src) (\<lambda>(dcid, src).
     obind (get_pn pn_len src) (\<lambda>(truncated_pn, src).
     Ok (\<lparr>ph_type = pt, ph_is_long = False, ph_version = 0, ph_dcid = dcid,
          ph_scid = [], ph_packet_number = truncated_pn, ph_key_phase = key_phase,
          ph_pn_len = pn_len\<rparr>, src)))))))"

definition decode_header :: "bytes \<Rightarrow> (packet_header \<times> bytes) outcome" where
  "decode_header src =
     guard (length src < 1) (InvalidPacket ''Empty buffer'') (
     obind (get_u8 src) (\<lambda>(first_byte, src).
     let pn_len = unat (first_byte AND 0x03) + 1;
         p_type_val = drop_bit 2 first_byte AND 0x0F
     in
     if first_byte AND 0x80 \<noteq> 0
     then decode_long_header (long_type p_type_val) pn_len src
     else decode_short_header (short_type p_type_val) (first_byte AND 0x40 \<noteq> 0) pn_len src))"

section \<open>Well-formed headers\<close>

text \<open>The headers the senders build: the type fits the form and the ids fit their length byte.\<close>

definition wf_header :: "packet_header \<Rightarrow> bool" where
  "wf_header h \<longleftrightarrow>
     1 \<le> ph_pn_len h \<and> ph_pn_len h \<le> 4 \<and> length (ph_dcid h) < 256 \<and> length (ph_scid h) < 256 \<and>
     (if ph_is_long h
      then ph_type h \<in> {Pt_Initial, Pt_Handshake, Pt_Retry} \<and> \<not> ph_key_phase h
      else ph_type h \<in> {Pt_Data, Pt_Close, Pt_MtuProbe} \<and> ph_version h = 0 \<and> ph_scid h = [])"

section \<open>Packet numbers on the wire\<close>

lemma pn_mask_eq: "1 \<le> n \<Longrightarrow> n \<le> 4 \<Longrightarrow> pn_mask n = mask (8 * n)"
  by (auto simp: pn_mask_def mask_eq_exp_minus_1 le_Suc_eq numeral_eq_Suc)

lemma from_be_Cons_0 [simp]: "from_be (0 # bs) = from_be bs"
  by (simp add: from_be_def)

lemma pn_len_cases: "1 \<le> n \<Longrightarrow> n \<le> 4 \<Longrightarrow> n = 1 \<or> n = 2 \<or> n = 3 \<or> n = (4 :: nat)"
  by linarith

lemma drop_put_u32: "drop 1 (put_u32 t) = to_be 3 t"
  using to_be_Suc_hd [of 3 t] by simp

lemma get_put_pn:
  assumes "1 \<le> n" and "n \<le> 4"
  shows "get_pn n (put_pn n (ucast (pn AND pn_mask n)) @ rest) = Ok (take_bit (8 * n) pn, rest)"
proof -
  let ?t = "ucast (pn AND mask (8 * n)) :: u32"
  have narrow: "ucast (ucast (pn AND mask k) :: u32) = take_bit k pn" if "k \<le> 32" for k
    by (rule bit_word_eqI) (use that in \<open>auto simp: bit_ucast_iff bit_and_iff bit_mask_iff bit_take_bit_iff\<close>)
  have b: "ucast (ucast (ucast (pn AND mask 8) :: u32) :: u8) = take_bit 8 pn"
    "ucast (ucast (ucast (pn AND mask 16) :: u32) :: u16) = take_bit 16 pn"
    "ucast (take_bit 24 (ucast (pn AND mask 24) :: u32)) = take_bit 24 pn"
    by (rule bit_word_eqI; auto simp: bit_ucast_iff bit_and_iff bit_mask_iff bit_take_bit_iff)+
  have three: "copy_to_bytes 3 (to_be 3 t @ rest) = Ok (to_be 3 t, rest)" for t :: u32
    using copy_to_bytes_append [of "to_be 3 t" rest] by simp
  show ?thesis
    unfolding pn_mask_eq [OF assms]
    using pn_len_cases [OF assms]
    by (elim disjE) (simp_all add: get_pn_def put_pn_def drop_put_u32 [simplified] three codec_simps b from_be_to_be narrow get_u8_def)
qed

lemma get_pn_not_Panic [no_panic]:
  "1 \<le> n \<Longrightarrow> n \<le> 4 \<Longrightarrow> n \<le> length src \<Longrightarrow> get_pn n src \<noteq> Panic"
  using pn_len_cases [of n] unfolding get_pn_def by (intro no_panic) auto

lemma get_pn_Ok: "get_pn n src = Ok (v, rest) \<Longrightarrow> n \<le> length src \<and> rest = drop n src \<and> n \<le> 4"
  by (auto simp: get_pn_def outcome_Ok_iffs get_u8_Ok copy_to_bytes_def get_be_def split: if_splits)

section \<open>First byte\<close>

lemma first_byte_long_fields:
  assumes "1 \<le> n" and "n \<le> 4" and "pt \<in> {Pt_Initial, Pt_Handshake, Pt_Retry}"
  shows "first_byte_long pt n AND 0x80 \<noteq> 0"
    and "unat (first_byte_long pt n AND 0x03) + 1 = n"
    and "long_type (drop_bit 2 (first_byte_long pt n) AND 0x0F) = Some pt"
  using pn_len_cases [OF assms(1,2)] assms(3)
  by (elim disjE insertE emptyE; simp add: first_byte_long_def long_type_def)+

lemma first_byte_short_fields:
  assumes "1 \<le> n" and "n \<le> 4" and "pt \<in> {Pt_Data, Pt_Close, Pt_MtuProbe}"
  shows "first_byte_short pt kp n AND 0x80 = 0"
    and "unat (first_byte_short pt kp n AND 0x03) + 1 = n"
    and "short_type (drop_bit 2 (first_byte_short pt kp n) AND 0x0F) = Some pt"
    and "first_byte_short pt kp n AND 0x40 \<noteq> 0 \<longleftrightarrow> kp"
  using pn_len_cases [OF assms(1,2)] assms(3)
  by (elim disjE insertE emptyE; cases kp; simp add: first_byte_short_def short_type_def)+

lemma clamp_pn_len_id: "1 \<le> n \<Longrightarrow> n \<le> 4 \<Longrightarrow> clamp_pn_len n = n"
  by (simp add: clamp_pn_len_def)
section \<open>Header round trip\<close>

lemma decode_encode_header:
  assumes "wf_header h"
  shows "decode_header (encode_header h @ rest)
    = Ok (h\<lparr>ph_packet_number := take_bit (8 * ph_pn_len h) (ph_packet_number h)\<rparr>, rest)"
proof -
  let ?n = "ph_pn_len h"
  have n: "1 \<le> ?n" "?n \<le> 4" and len: "unat (of_nat (length (ph_dcid h)) :: u8) = length (ph_dcid h)"
    "unat (of_nat (length (ph_scid h)) :: u8) = length (ph_scid h)"
    using assms by (simp_all add: wf_header_def unat_of_nat)
  have pn: "length (put_pn ?n t) = ?n" for t
    using pn_len_cases [OF n] by (auto simp: put_pn_def)
  show ?thesis
  proof (cases "ph_is_long h")
    case True
    then have t: "ph_type h \<in> {Pt_Initial, Pt_Handshake, Pt_Retry}" "\<not> ph_key_phase h"
      using assms by (auto simp: wf_header_def)
    note fb = first_byte_long_fields [OF n t(1)]
    show ?thesis
      using True t(2) n
      by (simp add: encode_header_def decode_header_def clamp_pn_len_id fb fb(2)[simplified] Let_def get_u8_Cons decode_long_header_def
          codec_simps len pn get_put_pn)
  next
    case False
    then have t: "ph_type h \<in> {Pt_Data, Pt_Close, Pt_MtuProbe}" "ph_version h = 0" "ph_scid h = []"
      using assms by (auto simp: wf_header_def)
    note fb = first_byte_short_fields [OF n t(1)]
    show ?thesis
      using False t(2,3) n
      by (simp add: encode_header_def decode_header_def clamp_pn_len_id fb fb(2)[simplified]  Let_def get_u8_Cons decode_short_header_def
          codec_simps len pn get_put_pn)
  qed
qed

lemma pn_len_bound: "unat (b AND 0x03 :: u8) < 4"
proof -
  have "b AND 0x03 = take_bit 2 b" by (simp add: take_bit_eq_mask mask_eq_exp_minus_1)
  show ?thesis
    unfolding \<open>b AND 0x03 = take_bit 2 b\<close> unsigned_take_bit_eq by (simp add: take_bit_nat_def)
qed

lemma decode_header_not_Panic: "decode_header src \<noteq> Panic"
  unfolding decode_header_def decode_long_header_def decode_short_header_def Let_def
  by (intro no_panic) (use pn_len_bound in \<open>auto dest!: read_lengths simp: Suc_le_eq\<close>)

lemma get_u32_split: "get_u32 src = Ok (w, rest) \<Longrightarrow> \<exists>a b c d. src = a # b # c # d # rest"
proof -
  assume "get_u32 src = Ok (w, rest)"
  then have "4 \<le> length src" and rest: "rest = drop 4 src" by (auto dest: get_be_Ok)
  then obtain a b c d r where "src = a # b # c # d # r"
    by (auto simp: numeral_eq_Suc Suc_le_length_iff)
  then show ?thesis using rest by simp
qed

lemma decode_long_layout:
  assumes "decode_long_header to n src = Ok (h, rest)" and "b AND 0x80 \<noteq> 0"
  shows "extract_dcid_fast (b # src) = Some (ph_dcid h)
    \<and> (\<exists>offset. get_pn_offset (b # src) = Some offset
         \<and> offset + n \<le> length (b # src) \<and> rest = drop (offset + n) (b # src))
    \<and> ph_pn_len h = n \<and> ph_is_long h \<and> \<not> ph_key_phase h \<and> to = Some (ph_type h)
    \<and> length (ph_dcid h) < 256 \<and> length (ph_scid h) < 256"
proof -
  obtain v s1 dl s2 dcid sl s4 scid s5 pn where
    r: "get_u32 src = Ok (v, s1)" "s1 = dl # dcid @ sl # scid @ s5"
      "length dcid = unat dl" "length scid = unat sl" "get_pn n s5 = Ok (pn, rest)"
    and h: "ph_dcid h = dcid" "ph_scid h = scid" "ph_pn_len h = n" "ph_is_long h" "\<not> ph_key_phase h"
      "to = Some (ph_type h)"
    using assms(1) by (auto simp: decode_long_header_def outcome_Ok_iffs get_u8_Ok copy_to_bytes_Ok)
  obtain a1 a2 a3 a4 where src: "src = a1 # a2 # a3 # a4 # s1" using get_u32_split [OF r(1)] by blast
  have s5: "n \<le> length s5" "rest = drop n s5" using get_pn_Ok [OF r(5)] by auto
  have off: "get_pn_offset (b # src) = Some (7 + unat dl + unat sl)"
    using r(2-4) src assms(2) by (simp add: get_pn_offset_def nth_append)
  have "extract_dcid_fast (b # src) = Some dcid"
    using r(2-4) src assms(2) by (simp add: extract_dcid_fast_def)
  moreover define pre where "pre = (b # a1 # a2 # a3 # a4 # dl # dcid) @ sl # scid"
  have pre: "b # src = pre @ s5" "length pre = 7 + unat dl + unat sl"
    using r src by (simp_all add: pre_def)
  ultimately show ?thesis using off h r(3,4) unat_u8_less s5 by (auto simp: pre)
qed

lemma decode_short_layout:
  assumes "decode_short_header to kp n src = Ok (h, rest)" and "b AND 0x80 = 0"
  shows "extract_dcid_fast (b # src) = Some (ph_dcid h)
    \<and> (\<exists>offset. get_pn_offset (b # src) = Some offset
         \<and> offset + n \<le> length (b # src) \<and> rest = drop (offset + n) (b # src))
    \<and> ph_pn_len h = n \<and> \<not> ph_is_long h \<and> ph_version h = 0 \<and> ph_scid h = [] \<and> to = Some (ph_type h)
    \<and> length (ph_dcid h) < 256"
proof -
  obtain dl dcid s5 pn where
    r: "src = dl # dcid @ s5" "length dcid = unat dl" "get_pn n s5 = Ok (pn, rest)"
    and h: "ph_dcid h = dcid" "ph_scid h = []" "ph_pn_len h = n" "\<not> ph_is_long h" "ph_version h = 0"
      "to = Some (ph_type h)"
    using assms(1) by (auto simp: decode_short_header_def outcome_Ok_iffs get_u8_Ok copy_to_bytes_Ok)
  have s5: "n \<le> length s5" "rest = drop n s5" using get_pn_Ok [OF r(3)] by auto
  have off: "get_pn_offset (b # src) = Some (2 + unat dl)"
    using r assms(2) by (simp add: get_pn_offset_def)
  have "extract_dcid_fast (b # src) = Some dcid"
    using r assms(2) by (simp add: extract_dcid_fast_def)
  moreover define pre where "pre = b # dl # dcid"
  have pre: "b # src = pre @ s5" "length pre = 2 + unat dl"
    using r by (simp_all add: pre_def)
  ultimately show ?thesis using off h r(2) unat_u8_less s5 by (auto simp: pre)
qed

lemma type_options:
  "long_type v = Some pt \<Longrightarrow> pt \<in> {Pt_Initial, Pt_Handshake, Pt_Retry}"
  "short_type v = Some pt \<Longrightarrow> pt \<in> {Pt_Data, Pt_Close, Pt_MtuProbe}"
  by (auto simp: long_type_def short_type_def split: if_splits)

lemma decode_header_layout:
  assumes "decode_header data = Ok (h, rest)"
  shows "extract_dcid_fast data = Some (ph_dcid h)
    \<and> (\<exists>offset. get_pn_offset data = Some offset
         \<and> offset + ph_pn_len h \<le> length data \<and> rest = drop (offset + ph_pn_len h) data)
    \<and> wf_header h"
proof -
  obtain b src where data: "data = b # src"
    using assms by (auto simp: decode_header_def outcome_Ok_iffs get_u8_Ok)
  let ?n = "unat (b AND 0x03) + 1" and ?v = "drop_bit 2 b AND 0x0F"
  show ?thesis
  proof (cases "b AND 0x80 = 0")
    case False
    then have "decode_long_header (long_type ?v) ?n src = Ok (h, rest)"
      using assms data by (simp add: decode_header_def get_u8_def)
    from decode_long_layout [OF this False] show ?thesis
      using pn_len_bound [of b] type_options by (auto simp: data wf_header_def)
  next
    case True
    then have "decode_short_header (short_type ?v) (b AND 0x40 \<noteq> 0) ?n src = Ok (h, rest)"
      using assms data by (simp add: decode_header_def get_u8_def)
    from decode_short_layout [OF this True] show ?thesis
      using pn_len_bound [of b] type_options by (auto simp: data wf_header_def)
  qed
qed

section \<open>Properties\<close>

text \<open>
  C22: a receiver gets back the sender's header exactly.  The header carries the packet number in
  the length chosen by truncation against \<open>la\<close>; decoding the packet and expanding the number
  against the receiver's highest processed number \<open>L\<close> restores every field, and the payload
  starts where the header ends.
\<close>

theorem header_restored:
  assumes "wf_header h"
    and "truncate_pn (ph_packet_number h) la = Ok (t, ph_pn_len h)"
    and "unat (ph_packet_number h) - unat la < 2 ^ 31"
    and "la \<le> L" and "unat L < unat (ph_packet_number h) + 127"
  shows "\<exists>h'. decode_header (encode_header h @ payload) = Ok (h', payload)
    \<and> h'\<lparr>ph_packet_number := expand_pn (ph_packet_number h') (ph_pn_len h') L\<rparr> = h"
proof -
  let ?pn = "take_bit (8 * ph_pn_len h) (ph_packet_number h)"
  have "expand_pn ?pn (ph_pn_len h) L = ph_packet_number h"
    by (rule expand_truncated [OF assms(2-5)]) (simp only: unsigned_take_bit_eq take_bit_nat_def)
  then show ?thesis using decode_encode_header [OF assms(1), of payload] by simp
qed

theorem header_restored_witness:
  "\<exists>h'. decode_header ([0x48, 2, 0xAA, 0xBB, 0xE8] @ [1, 2, 3]) = Ok (h', [1, 2, 3])
     \<and> expand_pn (ph_packet_number h') (ph_pn_len h') 950 = 1000"
proof -
  let ?h = "\<lparr>ph_type = Pt_Data, ph_is_long = False, ph_version = 0, ph_dcid = [0xAA, 0xBB],
    ph_scid = [], ph_packet_number = 1000, ph_key_phase = True, ph_pn_len = 1\<rparr>"
  have bytes: "encode_header ?h = [0x48, 2, 0xAA, 0xBB, 0xE8]"
    by code_simp
  have tr: "truncate_pn (ph_packet_number ?h) 900 = Ok (0xE8, ph_pn_len ?h)"
    by (simp add: truncate_pn_def saturating_sub_def leading_zeros_def bit_len.simps)
  obtain h' where d: "decode_header (encode_header ?h @ [1, 2, 3]) = Ok (h', [1, 2, 3])"
    and h': "h'\<lparr>ph_packet_number := expand_pn (ph_packet_number h') (ph_pn_len h') 950\<rparr> = ?h"
    using header_restored [OF _ tr, of 950 "[1, 2, 3]"] by (auto simp: wf_header_def)
  have "expand_pn (ph_packet_number h') (ph_pn_len h') 950 = 1000"
    using arg_cong [OF h', of ph_packet_number] by simp
  with d show ?thesis unfolding bytes by blast
qed

text \<open>
  C32: the router, the header-protection code and the header decoder read a datagram alike.
  Wherever decoding succeeds, the fast path extracts the same destination connection id, the
  packet-number offset is the one the decoder used, the decoder stops right behind the packet
  number, and the header is one a sender can build.
\<close>

theorem header_layout_agrees:
  assumes "decode_header data = Ok (h, rest)"
  shows "extract_dcid_fast data = Some (ph_dcid h)
    \<and> (\<exists>offset. get_pn_offset data = Some offset
         \<and> offset + ph_pn_len h \<le> length data \<and> rest = drop (offset + ph_pn_len h) data)
    \<and> wf_header h"
  by (rule decode_header_layout [OF assms])

theorem header_layout_agrees_witness:
  "\<exists>h. decode_header [0x48, 2, 0xAA, 0xBB, 0xE8, 1] = Ok (h, [1]) \<and> wf_header h
     \<and> extract_dcid_fast [0x48, 2, 0xAA, 0xBB, 0xE8, 1] = Some (ph_dcid h)"
proof -
  have "is_ok (decode_header [0x48, 2, 0xAA, 0xBB, 0xE8, 1])" by code_simp
  then obtain h rest where d: "decode_header [0x48, 2, 0xAA, 0xBB, 0xE8, 1] = Ok (h, rest)"
    by (auto simp: is_ok_iff)
  moreover have "map_outcome snd (decode_header [0x48, 2, 0xAA, 0xBB, 0xE8, 1]) = Ok [1]" by code_simp
  ultimately show ?thesis using header_layout_agrees [OF d] by auto
qed

text \<open>No datagram makes the header decoder read past its end.\<close>

theorem decode_header_total: "decode_header src \<noteq> Panic"
  by (rule decode_header_not_Panic)

end
