(* ===== verification/Zt_Window.thy ===== *)
theory Zt_Window
  imports Zt_Prelude
begin

text \<open>
  The two sliding bit windows over packet numbers: replay protection
  (\<^verbatim>\<open>src/src/transport/state/replay_window.rs\<close>) and the record of received packets from which
  acknowledgement ranges are generated (\<^verbatim>\<open>src/src/transport/state/ack_tracker.rs\<close>).  Bit \<open>d\<close> of the
  2048-bit mask, word \<open>d div 64\<close>, position \<open>d mod 64\<close>, stands for packet \<open>highest - d\<close>.

  The locale \<open>pn_window\<close> is what the rest of the stack relies on, a set of packet numbers seen through a
  window of 2048 below the highest; both implementations are shown to provide it.
\<close>

section \<open>Replay window\<close>

record replay_window =
  rw_highest :: "nat option"
  rw_bitmask :: "u64 list"

definition replay_new :: replay_window where
  "replay_new = \<lparr>rw_highest = None, rw_bitmask = replicate 32 0\<rparr>"

definition is_replay :: "replay_window \<Rightarrow> nat \<Rightarrow> bool" where
  "is_replay w pn =
     (case rw_highest w of
        None \<Rightarrow> False
      | Some highest \<Rightarrow>
          if pn \<le> highest then
            let diff = highest - pn in
            if diff \<ge> 2048 then True
            else (rw_bitmask w ! (diff div 64)) AND push_bit (diff mod 64) 1 \<noteq> 0
          else False)"

definition shift_left :: "nat \<Rightarrow> u64 list \<Rightarrow> u64 list" where
  "shift_left shift bitmask =
     (if shift = 0 then bitmask
      else if shift \<ge> 2048 then replicate 32 0
      else
        let word_shift = shift div 64;
            bit_shift = shift mod 64;
            bitmask =
              (if word_shift > 0 then
                 update_cells (\<lambda>i b. 0) [0..<word_shift]
                   (update_cells (\<lambda>i b. b ! (i - word_shift)) (rev [word_shift..<32]) bitmask)
               else bitmask)
        in if bit_shift > 0 then
             let inv_shift = 64 - bit_shift;
                 bitmask =
                   update_cells (\<lambda>i b. push_bit bit_shift (b ! i) OR drop_bit inv_shift (b ! (i - 1)))
                     (rev [1..<32]) bitmask
             in bitmask[0 := push_bit bit_shift (bitmask ! 0)]
           else bitmask)"

definition replay_mark_processed :: "nat \<Rightarrow> replay_window \<Rightarrow> replay_window" where
  "replay_mark_processed pn w =
     (case rw_highest w of
        None \<Rightarrow> w\<lparr>rw_highest := Some pn, rw_bitmask := (rw_bitmask w)[0 := 1]\<rparr>
      | Some highest \<Rightarrow>
          if pn > highest then
            let diff = pn - highest;
                bitmask =
                  (if diff \<ge> 2048 then (replicate 32 0)[0 := 1]
                   else let b = shift_left diff (rw_bitmask w) in b[0 := b ! 0 OR 1])
            in w\<lparr>rw_highest := Some pn, rw_bitmask := bitmask\<rparr>
          else
            let diff = highest - pn in
            if diff < 2048 then
              let word_idx = diff div 64; bit_idx = diff mod 64 in
              w\<lparr>rw_bitmask := (rw_bitmask w)[word_idx := rw_bitmask w ! word_idx OR push_bit bit_idx 1]\<rparr>
            else w)"

section \<open>Acknowledgement tracker\<close>

record ack_tracker =
  at_highest :: "nat option"
  at_bitmask :: "u64 list"

definition ack_new :: ack_tracker where
  "ack_new = \<lparr>at_highest = None, at_bitmask = replicate 32 0\<rparr>"

definition ack_shift_left :: "nat \<Rightarrow> u64 list \<Rightarrow> u64 list" where
  "ack_shift_left shift bitmask =
     (if shift = 0 then bitmask
      else if shift \<ge> 2048 then replicate 32 0
      else
        let word_shift = shift div 64;
            bit_shift = shift mod 64;
            bitmask =
              (if word_shift > 0 then
                 update_cells (\<lambda>i b. 0) [0..<word_shift]
                   (update_cells (\<lambda>i b. b ! (i - word_shift)) (rev [word_shift..<32]) bitmask)
               else bitmask)
        in if bit_shift > 0 then
             let inv_shift = 64 - bit_shift;
                 bitmask =
                   update_cells (\<lambda>i b. push_bit bit_shift (b ! i) OR drop_bit inv_shift (b ! (i - 1)))
                     (rev [1..<32]) bitmask
             in bitmask[0 := push_bit bit_shift (bitmask ! 0)]
           else bitmask)"

definition ack_mark_processed :: "nat \<Rightarrow> ack_tracker \<Rightarrow> ack_tracker" where
  "ack_mark_processed pn t =
     (case at_highest t of
        None \<Rightarrow> t\<lparr>at_highest := Some pn, at_bitmask := (at_bitmask t)[0 := 1]\<rparr>
      | Some highest \<Rightarrow>
          if pn > highest then
            let diff = pn - highest;
                bitmask =
                  (if diff \<ge> 2048 then (replicate 32 0)[0 := 1]
                   else let b = ack_shift_left diff (at_bitmask t) in b[0 := b ! 0 OR 1])
            in t\<lparr>at_highest := Some pn, at_bitmask := bitmask\<rparr>
          else
            let diff = highest - pn in
            if diff < 2048 then
              let word_idx = diff div 64; bit_idx = diff mod 64 in
              t\<lparr>at_bitmask := (at_bitmask t)[word_idx := at_bitmask t ! word_idx OR push_bit bit_idx 1]\<rparr>
            else t)"

text \<open>
  The scan that produces the ranges.  Its local variables are a record; \<open>sc_returned\<close> is set where
  the source returns from inside the loops.
\<close>

record ack_scan =
  sc_ranges :: "(nat \<times> nat) list"
  sc_in_range :: bool
  sc_current_end :: nat
  sc_diff :: nat
  sc_returned :: bool

abbreviation max_ack_ranges :: nat where
  "max_ack_ranges \<equiv> 128"

definition scan_bit :: "nat \<Rightarrow> bool \<Rightarrow> ack_scan \<Rightarrow> ack_scan" where
  "scan_bit highest received s =
     (let pn = highest - sc_diff s in
      if received then
        if \<not> sc_in_range s
        then s\<lparr>sc_in_range := True, sc_current_end := pn, sc_diff := sc_diff s + 1\<rparr>
        else s\<lparr>sc_diff := sc_diff s + 1\<rparr>
      else if sc_in_range s then
        let ranges = sc_ranges s @ [(pn + 1, sc_current_end s)] in
        if length ranges \<ge> max_ack_ranges
        then s\<lparr>sc_ranges := ranges, sc_returned := True\<rparr>
        else s\<lparr>sc_ranges := ranges, sc_in_range := False, sc_diff := sc_diff s + 1\<rparr>
      else s\<lparr>sc_diff := sc_diff s + 1\<rparr>)"

fun scan_word :: "nat \<Rightarrow> nat \<Rightarrow> u64 \<Rightarrow> ack_scan \<Rightarrow> ack_scan" where
  "scan_word highest 0 w s = s"
| "scan_word highest (Suc n) w s =
     (if sc_diff s > highest \<or> sc_returned s then s
      else scan_word highest n (drop_bit 1 w) (scan_bit highest (w AND 1 \<noteq> 0) s))"

fun scan_words :: "nat \<Rightarrow> u64 list \<Rightarrow> ack_scan \<Rightarrow> ack_scan" where
  "scan_words highest [] s = s"
| "scan_words highest (word # ws) s =
     (if sc_diff s > highest \<or> sc_returned s then s
      else if \<not> sc_in_range s \<and> word = 0 then
        scan_words highest ws (s\<lparr>sc_diff := sc_diff s + 64\<rparr>)
      else if sc_in_range s \<and> word = - 1 then
        scan_words highest ws (s\<lparr>sc_diff := sc_diff s + 64\<rparr>)
      else scan_words highest ws (scan_word highest 64 word s))"

definition get_ack_ranges :: "ack_tracker \<Rightarrow> (nat \<times> nat) list" where
  "get_ack_ranges t =
     (case at_highest t of
        None \<Rightarrow> []
      | Some highest \<Rightarrow>
          let s = scan_words highest (at_bitmask t)
                    \<lparr>sc_ranges = [], sc_in_range = False, sc_current_end = 0, sc_diff = 0,
                     sc_returned = False\<rparr>
          in if sc_returned s then sc_ranges s
             else if sc_in_range s \<and> length (sc_ranges s) < max_ack_ranges then
               sc_ranges s @ [(highest - (sc_diff s - 1), sc_current_end s)]
             else sc_ranges s)"

section \<open>Runs of the receive path\<close>

text \<open>
  The receive path asks \<open>is_replay\<close> and marks the packet once it has authenticated.  \<open>replay_run\<close>
  lists the packet numbers it lets through; \<open>replay_spec\<close> is the same on a plain set.
\<close>

fun replay_run :: "nat list \<Rightarrow> replay_window \<Rightarrow> nat list" where
  "replay_run [] w = []"
| "replay_run (pn # pns) w =
     (if is_replay w pn then replay_run pns w else pn # replay_run pns (replay_mark_processed pn w))"

fun replay_spec :: "nat list \<Rightarrow> nat set \<Rightarrow> nat list" where
  "replay_spec [] S = []"
| "replay_spec (pn # pns) S =
     (if pn \<in> S \<or> (S \<noteq> {} \<and> pn + 2048 \<le> Max S) then replay_spec pns S
      else pn # replay_spec pns (insert pn S))"

section \<open>Bits of a window\<close>

definition win_bit :: "u64 list \<Rightarrow> nat \<Rightarrow> bool" where
  "win_bit b d \<longleftrightarrow> bit (b ! (d div 64)) (d mod 64)"

lemma test_bit_mask: "w AND push_bit n 1 \<noteq> 0 \<longleftrightarrow> bit w n" for w :: "'a::len word"
  by (simp add: bit_iff_and_push_bit_not_eq_0)

lemma shift_words:
  assumes "length b = 32" and "ws \<le> 32" and "i < 32"
  shows "update_cells (\<lambda>i b. 0) [0..<ws] (update_cells (\<lambda>i b. b ! (i - ws)) (rev [ws..<32]) b) ! i
    = (if i < ws then 0 else b ! (i - ws))"
proof -
  let ?b = "update_cells (\<lambda>i b. b ! (i - ws)) (rev [ws..<32]) b"
  have "?b ! i = (if ws \<le> i \<and> i < 32 then b ! (i - ws) else b ! i)"
    by (rule nth_update_cells_down) (use assms in auto)
  moreover have "update_cells (\<lambda>i b. 0) [0..<ws] ?b ! i = (if i \<in> set [0..<ws] then 0 else ?b ! i)"
    by (rule nth_update_cells_const) (use assms in auto)
  ultimately show ?thesis using assms by simp
qed

lemma shift_bits:
  fixes k m :: nat
  assumes "length b = 32" and "i < 32"
  defines "c \<equiv> update_cells (\<lambda>i b. push_bit k (b ! i) OR drop_bit m (b ! (i - 1))) (rev [1..<32]) b"
  shows "c[0 := push_bit k (c ! 0)] ! i
    = (if i = 0 then push_bit k (b ! 0) else push_bit k (b ! i) OR drop_bit m (b ! (i - 1)))"
proof -
  have "c ! j = (if 1 \<le> j \<and> j < 32 then push_bit k (b ! j) OR drop_bit m (b ! (j - 1)) else b ! j)"
    if "j < 32" for j
    unfolding c_def by (rule nth_update_cells_down) (use assms that in auto)
  moreover have "length c = 32" using assms by (simp add: c_def)
  ultimately show ?thesis using assms(2) by (auto simp: nth_list_update)
qed

lemma length_shift_left [simp]: "length b = 32 \<Longrightarrow> length (shift_left s b) = 32"
  by (simp add: shift_left_def Let_def)

lemma nth_shift_left:
  assumes len: "length b = 32" and s: "0 < s" "s < 2048" and i: "i < 32"
  defines "cell \<equiv> \<lambda>i. if i < s div 64 then 0 else b ! (i - s div 64)"
  shows "shift_left s b ! i =
    (if s mod 64 = 0 then cell i
     else push_bit (s mod 64) (cell i) OR (if i = 0 then 0 else drop_bit (64 - s mod 64) (cell (i - 1))))"
proof -
  define b1 where "b1 = (if 0 < s div 64 then update_cells (\<lambda>i b. 0) [0..<s div 64]
     (update_cells (\<lambda>i b. b ! (i - s div 64)) (rev [s div 64..<32]) b) else b)"
  have b1: "b1 ! j = cell j" "length b1 = 32" if "j < 32" for j
    using shift_words [OF len, of "s div 64" j] that s len by (auto simp: b1_def cell_def)
  show ?thesis
    using shift_bits [OF b1(2) i, of 0 "s mod 64" "64 - s mod 64"] b1 s i
    by (auto simp: shift_left_def Let_def b1_def [symmetric])
qed

lemma split64:
  obtains i j :: nat where "d = 64 * i + j" and "j < 64"
  by (rule that [of "d div 64" "d mod 64"]) simp_all

lemma win_bit_split: "j < 64 \<Longrightarrow> win_bit b (64 * i + j) \<longleftrightarrow> bit (b ! i) j"
  by (simp add: win_bit_def)

lemma win_bit_shift_left:
  assumes len: "length b = 32" and d: "d < 2048"
  shows "win_bit (shift_left s b) d \<longleftrightarrow> s \<le> d \<and> win_bit b (d - s)"
proof -
  obtain i j where dd: "d = 64 * i + j" "j < 64" by (rule split64)
  obtain ws bs where ss: "s = 64 * ws + bs" "bs < 64" by (rule split64)
  have i: "i < 32" using d dd by simp
  consider "s = 0" | "2048 \<le> s" | "0 < s" "s < 2048" by linarith
  then show ?thesis
  proof cases
    case 3
    note cell = nth_shift_left [OF len 3 i]
    have ws: "s div 64 = ws" "s mod 64 = bs" using ss by simp_all
    have lhs: "win_bit (shift_left s b) d \<longleftrightarrow> bit (shift_left s b ! i) j"
      unfolding dd(1) by (rule win_bit_split) fact
    show ?thesis
    proof (cases "bs \<le> j")
      case True
      have le: "s \<le> d \<longleftrightarrow> ws \<le> i" using dd ss True by auto
      have rhs: "win_bit b (d - s) \<longleftrightarrow> bit (b ! (i - ws)) (j - bs)" if "ws \<le> i"
      proof -
        have "d - s = 64 * (i - ws) + (j - bs)" using dd ss True that by (simp add: diff_mult_distrib2)
        then show ?thesis using dd(2) by (simp add: win_bit_split)
      qed
      have high: "\<not> bit w (64 + j - bs)" for w :: u64
        using True by (auto dest: bit_imp_le_length)
      show ?thesis using True rhs dd(2) unfolding lhs le cell ws
        by (auto simp: bit_or_iff bit_push_bit_iff bit_drop_bit_eq high)
    next
      case False
      have le: "s \<le> d \<longleftrightarrow> ws < i" using dd ss False by auto
      have rhs: "win_bit b (d - s) \<longleftrightarrow> bit (b ! (i - 1 - ws)) (64 - bs + j)" if "ws < i"
      proof -
        have "i = ws + 1 + (i - 1 - ws)" using that by simp
        then obtain e where "i = ws + 1 + e" by blast
        then have sub: "d - s = 64 * (i - 1 - ws) + (64 - bs + j)" using False dd ss by simp
        show ?thesis unfolding sub by (rule win_bit_split) (use False ss(2) in simp)
      qed
      show ?thesis using False rhs unfolding lhs le cell ws
        by (auto simp: bit_or_iff bit_push_bit_iff bit_drop_bit_eq)
    qed
  qed (use d in \<open>simp_all add: shift_left_def win_bit_def\<close>)
qed

section \<open>The interface: a set of packet numbers seen through a window\<close>

locale pn_window =
  fixes empty :: 'w
    and mark :: "nat \<Rightarrow> 'w \<Rightarrow> 'w"
    and highest :: "'w \<Rightarrow> nat option"
    and seen :: "'w \<Rightarrow> nat \<Rightarrow> bool"
    and invar :: "'w \<Rightarrow> bool"
  assumes highest_empty: "highest empty = None"
    and invar_empty: "invar empty"
    and invar_mark: "invar w \<Longrightarrow> invar (mark pn w)"
    and highest_mark: "invar w \<Longrightarrow>
      highest (mark pn w) = Some (case highest w of None \<Rightarrow> pn | Some h \<Rightarrow> max h pn)"
    and seen_in_window: "invar w \<Longrightarrow> seen w x \<Longrightarrow> \<exists>h. highest w = Some h \<and> x \<le> h \<and> h < x + 2048"
    and seen_mark: "invar w \<Longrightarrow> highest (mark pn w) = Some h' \<Longrightarrow>
      seen (mark pn w) x \<longleftrightarrow> h' < x + 2048 \<and> (x = pn \<or> seen w x)"
begin

text \<open>The window holds the set \<open>S\<close> of marked numbers, forgotten 2048 below its maximum.\<close>

definition represents :: "'w \<Rightarrow> nat set \<Rightarrow> bool" where
  "represents w S \<longleftrightarrow> invar w \<and> finite S
   \<and> highest w = (if S = {} then None else Some (Max S))
   \<and> (\<forall>x. seen w x \<longleftrightarrow> x \<in> S \<and> Max S < x + 2048)"

lemma represents_empty: "represents empty {}"
  using seen_in_window [OF invar_empty] by (auto simp: represents_def invar_empty highest_empty)

lemma represents_mark:
  assumes "represents w S"
  shows "represents (mark pn w) (insert pn S)"
proof -
  have w: "invar w" "finite S" "highest w = (if S = {} then None else Some (Max S))"
    "\<And>x. seen w x \<longleftrightarrow> x \<in> S \<and> Max S < x + 2048"
    using assms by (auto simp: represents_def)
  have "highest (mark pn w) = Some (Max (insert pn S))"
    using w by (simp add: highest_mark max.commute)
  with seen_mark [OF w(1) this] w show ?thesis
    by (cases "S = {}") (auto simp: represents_def invar_mark)
qed

lemma represents_fold: "represents w S \<Longrightarrow> represents (fold mark pns w) (S \<union> set pns)"
proof (induction pns arbitrary: w S)
  case (Cons pn pns)
  then show ?case using Cons.IH [OF represents_mark [OF Cons.prems]] by simp
qed simp

end

section \<open>What marking does to the mask\<close>

definition win_invar :: "nat option \<Rightarrow> u64 list \<Rightarrow> bool" where
  "win_invar ho b \<longleftrightarrow> length b = 32 \<and>
     (case ho of None \<Rightarrow> b = replicate 32 0 | Some h \<Rightarrow> \<forall>d < 2048. win_bit b d \<longrightarrow> d \<le> h)"

definition win_seen :: "nat option \<Rightarrow> u64 list \<Rightarrow> nat \<Rightarrow> bool" where
  "win_seen ho b x \<longleftrightarrow>
     (case ho of None \<Rightarrow> False | Some h \<Rightarrow> x \<le> h \<and> h < x + 2048 \<and> win_bit b (h - x))"

text \<open>The mask after marking \<open>pn\<close>, common to both implementations.\<close>

definition win_mark :: "nat \<Rightarrow> nat option \<Rightarrow> u64 list \<Rightarrow> u64 list" where
  "win_mark pn ho b =
     (case ho of
        None \<Rightarrow> b[0 := 1]
      | Some h \<Rightarrow>
          if h < pn then
            (if 2048 \<le> pn - h then (replicate 32 0)[0 := 1]
             else (shift_left (pn - h) b)[0 := shift_left (pn - h) b ! 0 OR 1])
          else if h - pn < 2048 then
            b[(h - pn) div 64 := b ! ((h - pn) div 64) OR push_bit ((h - pn) mod 64) 1]
          else b)"

abbreviation max_highest :: "nat \<Rightarrow> nat option \<Rightarrow> nat" where
  "max_highest pn ho \<equiv> (case ho of None \<Rightarrow> pn | Some h \<Rightarrow> max h pn)"

lemma bit_or_exp: "bit (w OR 2 ^ n) m \<longleftrightarrow> bit w m \<or> (m = n \<and> n < LENGTH('a))"
  for w :: "'a::len word"
  by (auto simp: bit_or_iff bit_exp_iff)

lemma win_bit_zero [simp]: "d < 2048 \<Longrightarrow> \<not> win_bit (replicate 32 0) d"
  by (simp add: win_bit_def)

lemma win_bit_set:
  assumes "length b = 32" and "d < 2048" and "k < 2048"
  shows "win_bit (b[k div 64 := b ! (k div 64) OR 2 ^ (k mod 64)]) d \<longleftrightarrow> win_bit b d \<or> d = k"
proof -
  have "d = k \<longleftrightarrow> d div 64 = k div 64 \<and> d mod 64 = k mod 64"
    by (metis div_mult_mod_eq)
  then show ?thesis
    using assms by (auto simp: win_bit_def nth_list_update bit_or_exp)
qed

lemma win_bit_set_0:
  assumes "length b = 32" and "d < 2048"
  shows "win_bit (b[0 := b ! 0 OR 1]) d \<longleftrightarrow> win_bit b d \<or> d = 0"
  using win_bit_set [OF assms, of 0] by simp

lemma length_win_mark [simp]: "length b = 32 \<Longrightarrow> length (win_mark pn ho b) = 32"
  by (simp add: win_mark_def split: option.split)

lemma win_bit_win_mark:
  assumes "win_invar ho b" and "d < 2048"
  shows "win_bit (win_mark pn ho b) d \<longleftrightarrow>
    d \<le> max_highest pn ho \<and> (max_highest pn ho - d = pn \<or> win_seen ho b (max_highest pn ho - d))"
proof (cases ho)
  case None
  then have "win_mark pn ho b = (replicate 32 0)[0 := (replicate 32 0) ! 0 OR 1]"
    using assms(1) by (simp add: win_invar_def win_mark_def)
  then have "win_bit (win_mark pn ho b) d \<longleftrightarrow> d = 0"
    using win_bit_set_0 [of "replicate 32 0" d] assms(2) by simp
  then show ?thesis using None by (auto simp: win_seen_def)
next
  case (Some h)
  then have len: "length b = 32" and inv: "\<And>d. d < 2048 \<Longrightarrow> win_bit b d \<Longrightarrow> d \<le> h"
    using assms(1) by (simp_all add: win_invar_def)
  consider "h < pn" "2048 \<le> pn - h" | "h < pn" "pn - h < 2048" | "pn \<le> h" "h - pn < 2048" | "pn \<le> h" "2048 \<le> h - pn"
    by linarith
  then show ?thesis
  proof cases
    case 1
    then have "win_mark pn ho b = (replicate 32 0)[0 := (replicate 32 0) ! 0 OR 1]"
      using Some by (simp add: win_mark_def)
    then have "win_bit (win_mark pn ho b) d \<longleftrightarrow> d = 0"
      using win_bit_set_0 [of "replicate 32 0" d] assms(2) by simp
    then show ?thesis using Some 1 assms(2) by (auto simp: win_seen_def)
  next
    case 2
    then obtain k where k: "pn = h + k" "0 < k" "k < 2048" by (metis less_imp_add_positive add_diff_cancel_left')
    have mark: "win_bit (win_mark pn ho b) d \<longleftrightarrow> d = 0 \<or> (k \<le> d \<and> win_bit b (d - k))"
      using Some len assms(2) k by (simp add: win_mark_def win_bit_set_0 win_bit_shift_left disj_commute)
    have "h - (h + k - d) = d - k" if "k \<le> d" "d \<le> h + k" using that by linarith
    moreover have "d \<le> h + k" if "k \<le> d" "win_bit b (d - k)"
      using inv [of "d - k"] that assms(2) by linarith
    ultimately show ?thesis unfolding mark using Some k assms(2) by (auto simp: win_seen_def)
  next
    case 3
    then have "win_bit (win_mark pn ho b) d \<longleftrightarrow> win_bit b d \<or> d = h - pn"
      using Some len assms(2) by (simp add: win_mark_def win_bit_set)
    then show ?thesis using Some 3 assms(2) inv [of d] by (auto simp: win_seen_def)
  next
    case 4
    then show ?thesis using Some assms(2) inv [of d] by (auto simp: win_mark_def win_seen_def)
  qed
qed

lemma win_invar_mark: "win_invar ho b \<Longrightarrow> win_invar (Some (max_highest pn ho)) (win_mark pn ho b)"
  using win_bit_win_mark by (simp add: win_invar_def [of "Some _"]) (simp add: win_invar_def)

lemma win_seen_mark:
  assumes "win_invar ho b"
  shows "win_seen (Some (max_highest pn ho)) (win_mark pn ho b) x \<longleftrightarrow>
    max_highest pn ho < x + 2048 \<and> (x = pn \<or> win_seen ho b x)"
proof -
  let ?m = "max_highest pn ho"
  have "x \<le> ?m" if "x = pn \<or> win_seen ho b x"
    using that by (cases ho) (auto simp: win_seen_def)
  then show ?thesis
    using win_bit_win_mark [OF assms, of "?m - x" pn] by (auto simp: win_seen_def [of "Some ?m"])
qed

section \<open>Both windows provide the interface\<close>

lemma ack_shift_left_eq: "ack_shift_left = shift_left"
  by (intro ext) (simp add: ack_shift_left_def shift_left_def)

lemma replay_mark_win:
  "replay_mark_processed pn w =
   w\<lparr>rw_highest := Some (max_highest pn (rw_highest w)), rw_bitmask := win_mark pn (rw_highest w) (rw_bitmask w)\<rparr>"
  by (auto simp: replay_mark_processed_def win_mark_def Let_def max_def split: option.split)

lemma ack_mark_win:
  "ack_mark_processed pn t =
   t\<lparr>at_highest := Some (max_highest pn (at_highest t)), at_bitmask := win_mark pn (at_highest t) (at_bitmask t)\<rparr>"
  by (auto simp: ack_mark_processed_def ack_shift_left_eq win_mark_def Let_def max_def split: option.split)

lemma win_invar_new: "win_invar None (replicate 32 0)"
  by (simp add: win_invar_def)

lemma win_seen_in_window: "win_seen ho b x \<Longrightarrow> \<exists>h. ho = Some h \<and> x \<le> h \<and> h < x + 2048"
  by (cases ho) (auto simp: win_seen_def)

lemmas win_facts = win_invar_new win_invar_mark win_seen_in_window win_seen_mark

interpretation rw: pn_window replay_new replay_mark_processed rw_highest
  "\<lambda>w. win_seen (rw_highest w) (rw_bitmask w)" "\<lambda>w. win_invar (rw_highest w) (rw_bitmask w)"
  by unfold_locales (use win_facts in \<open>auto simp: replay_new_def replay_mark_win\<close>)

interpretation akt: pn_window ack_new ack_mark_processed at_highest
  "\<lambda>t. win_seen (at_highest t) (at_bitmask t)" "\<lambda>t. win_invar (at_highest t) (at_bitmask t)"
  by unfold_locales (use win_facts in \<open>auto simp: ack_new_def ack_mark_win\<close>)

lemma is_replay_iff:
  assumes "rw.represents w S"
  shows "is_replay w pn \<longleftrightarrow> pn \<in> S \<or> (S \<noteq> {} \<and> pn + 2048 \<le> Max S)"
proof (cases "S = {}")
  case True
  then show ?thesis using assms by (simp add: rw.represents_def is_replay_def)
next
  case False
  define M where "M = Max S"
  have w: "finite S \<and> rw_highest w = Some M
    \<and> (\<forall>x. win_seen (rw_highest w) (rw_bitmask w) x \<longleftrightarrow> x \<in> S \<and> M < x + 2048)"
    using assms False unfolding rw.represents_def M_def by metis
  then have h: "rw_highest w = Some M" by blast
  with w have seen: "win_seen (Some M) (rw_bitmask w) pn \<longleftrightarrow> pn \<in> S \<and> M < pn + 2048" by simp
  have "pn \<le> M" if "pn \<in> S" using w that unfolding M_def by (intro Max_ge) auto
  with seen show ?thesis
    using False unfolding is_replay_def Let_def test_bit_mask M_def [symmetric] h
    by (auto simp: win_seen_def win_bit_def)
qed

section \<open>Acknowledgement ranges\<close>

definition covered :: "(nat \<times> nat) list \<Rightarrow> nat set" where
  "covered rs = (\<Union>(a, b)\<in>set rs. {a..b})"

text \<open>Descending, non-empty and separated by at least one missing number.\<close>

definition descending :: "(nat \<times> nat) list \<Rightarrow> bool" where
  "descending rs \<longleftrightarrow>
     sorted_wrt (\<lambda>(a, b) (c, d). d + 1 < a) rs \<and> (\<forall>(a, b)\<in>set rs. a \<le> b)"

lemma covered_snoc [simp]: "covered (rs @ [(a, b)]) = covered rs \<union> {a..b}"
  by (auto simp: covered_def)

lemma covered_Nil [simp]: "covered [] = {}"
  by (simp add: covered_def)

lemma descending_snoc:
  "descending (rs @ [(a, b)]) \<longleftrightarrow> descending rs \<and> a \<le> b \<and> (\<forall>(c, d)\<in>set rs. b + 1 < c)"
  by (auto simp: descending_def sorted_wrt_append)

text \<open>All numbers from \<open>h\<close> down to \<open>p\<close> have been looked at.\<close>

definition scan_inv :: "nat \<Rightarrow> nat set \<Rightarrow> ack_scan \<Rightarrow> bool" where
  "scan_inv h S s \<longleftrightarrow> (let p = h + 1 - sc_diff s; rs = sc_ranges s; e = sc_current_end s in
     \<not> sc_returned s \<and> descending rs \<and> length rs < max_ack_ranges \<and>
     (if sc_in_range s
      then p \<le> e \<and> (\<forall>(a, b)\<in>set rs. e + 1 < a) \<and> covered rs \<union> {p..e} = {x \<in> S. p \<le> x}
      else (\<forall>(a, b)\<in>set rs. p < a) \<and> covered rs = {x \<in> S. p \<le> x}))"

definition scan_done :: "nat set \<Rightarrow> ack_scan \<Rightarrow> bool" where
  "scan_done S s \<longleftrightarrow> sc_returned s \<and> descending (sc_ranges s) \<and> length (sc_ranges s) = max_ack_ranges
     \<and> (\<exists>p. covered (sc_ranges s) = {x \<in> S. p \<le> x})"

lemma atLeast_split: "{x \<in> S. p \<le> x} = {x \<in> S. Suc p \<le> x} \<union> (if p \<in> S then {p} else {})"
  by (auto simp: Suc_le_eq le_less)

lemma scan_bit_inv:
  assumes inv: "scan_inv h S s" and d: "sc_diff s \<le> h" and r: "received \<longleftrightarrow> h - sc_diff s \<in> S"
  shows "(scan_inv h S (scan_bit h received s) \<and> sc_diff (scan_bit h received s) = sc_diff s + 1)
    \<or> scan_done S (scan_bit h received s)"
proof -
  define q where "q = h - sc_diff s"
  have p: "h + 1 - sc_diff s = Suc q" "h + 1 - (sc_diff s + 1) = q" "h - sc_diff s = q"
    using d by (simp_all add: q_def)
  note inv' = inv [unfolded scan_inv_def Let_def p]
  show ?thesis
  proof (cases "sc_in_range s")
    case True
    then have e: "Suc q \<le> sc_current_end s" "\<forall>(a, b)\<in>set (sc_ranges s). sc_current_end s + 1 < a"
      "covered (sc_ranges s) \<union> {Suc q..sc_current_end s} = {x \<in> S. Suc q \<le> x}"
      using inv' by auto
    have grow: "{q..sc_current_end s} = insert q {Suc q..sc_current_end s}"
      using e(1) by auto
    show ?thesis
      using True inv' e r unfolding scan_bit_def Let_def p
      by (auto simp: scan_inv_def scan_done_def Let_def p descending_snoc grow atLeast_split [of S q])
  next
    case False
    then show ?thesis
      using inv' r unfolding scan_bit_def Let_def p
      by (auto simp: scan_inv_def Let_def p atLeast_split [of S q])
  qed
qed
lemma scan_stop: "h < sc_diff s \<or> sc_returned s \<Longrightarrow> scan_words h ws s = s"
  by (cases ws) simp_all

lemma scan_word_inv:
  assumes "scan_inv h S s"
    and "\<And>k. k < n \<Longrightarrow> sc_diff s + k \<le> h \<Longrightarrow> bit w k \<longleftrightarrow> h - (sc_diff s + k) \<in> S"
  shows "(scan_inv h S (scan_word h n w s)
      \<and> (sc_diff (scan_word h n w s) = sc_diff s + n \<or> h < sc_diff (scan_word h n w s)))
    \<or> scan_done S (scan_word h n w s)"
  using assms
proof (induction n arbitrary: w s)
  case 0
  then show ?case by simp
next
  case (Suc n)
  show ?case
  proof (cases "h < sc_diff s")
    case True
    then show ?thesis using Suc.prems(1) by simp
  next
    case False
    let ?r = "w AND 1 \<noteq> 0"
    let ?s = "scan_bit h ?r s"
    have live: "\<not> sc_returned s" using Suc.prems(1) by (simp add: scan_inv_def Let_def)
    have r: "?r \<longleftrightarrow> h - sc_diff s \<in> S"
      using Suc.prems(2) [of 0] False by (simp add: and_one_eq bit_0 odd_iff_mod_2_eq_one)
    from scan_bit_inv [OF Suc.prems(1) _ r] False
    consider "scan_inv h S ?s" "sc_diff ?s = sc_diff s + 1" | "scan_done S ?s"
      by auto
    then show ?thesis
    proof cases
      case 1
      have "bit (drop_bit 1 w) k \<longleftrightarrow> h - (sc_diff ?s + k) \<in> S" if "k < n" "sc_diff ?s + k \<le> h" for k
        using Suc.prems(2) [of "Suc k"] that 1(2) by (simp add: bit_drop_bit_eq)
      from Suc.IH [OF 1(1) this] show ?thesis using False live 1(2) by simp
    next
      case 2
      then have "sc_returned ?s" by (simp add: scan_done_def)
      then have "scan_word h n (drop_bit 1 w) ?s = ?s" by (cases n) simp_all
      then show ?thesis using 2 False live by simp
    qed
  qed
qed

lemma atLeast_skip:
  assumes "p' \<le> p" and "\<And>x. p' \<le> x \<Longrightarrow> x < p \<Longrightarrow> x \<notin> S"
  shows "{x \<in> S. p' \<le> x} = {x \<in> S. p \<le> (x :: nat)}"
  using assms by (auto, meson not_le)

lemma scan_skip_zero:
  assumes inv: "scan_inv h S s" and "\<not> sc_in_range s"
    and none: "\<And>k. k < 64 \<Longrightarrow> sc_diff s + k \<le> h \<Longrightarrow> h - (sc_diff s + k) \<notin> S" and d: "sc_diff s \<le> h"
  shows "scan_inv h S (s\<lparr>sc_diff := sc_diff s + 64\<rparr>)"
proof -
  let ?p = "h + 1 - sc_diff s" and ?q = "h + 1 - (sc_diff s + 64)"
  have gap: "x \<notin> S" if "?q \<le> x" "x < ?p" for x
  proof -
    have "h - (sc_diff s + (h - x - sc_diff s)) = x" using that d by linarith
    moreover have "h - x - sc_diff s < 64" using that by linarith
    ultimately show ?thesis using none [of "h - x - sc_diff s"] that by simp
  qed
  have "{x \<in> S. ?q \<le> x} = {x \<in> S. ?p \<le> x}"
    by (rule atLeast_skip) (use gap in auto)
  then show ?thesis using inv assms(2) by (fastforce simp: scan_inv_def Let_def)
qed

lemma scan_skip_full:
  assumes inv: "scan_inv h S s" and "sc_in_range s" and d: "sc_diff s + 63 \<le> h"
    and all: "\<And>k. k < 64 \<Longrightarrow> h - (sc_diff s + k) \<in> S"
  shows "scan_inv h S (s\<lparr>sc_diff := sc_diff s + 64\<rparr>)"
proof -
  let ?p = "h + 1 - sc_diff s" and ?q = "h + 1 - (sc_diff s + 64)" and ?e = "sc_current_end s"
  have full: "x \<in> S" if "?q \<le> x" "x < ?p" for x
    using all [of "h - x - sc_diff s"] that d by simp
  have c: "covered (sc_ranges s) \<union> {?p..?e} = {x \<in> S. ?p \<le> x}" "?p \<le> ?e"
    using inv assms(2) by (auto simp: scan_inv_def Let_def)
  have "{?q..?e} = {?q..<?p} \<union> {?p..?e}" using c(2) by auto
  moreover have "{x \<in> S. ?q \<le> x} = {?q..<?p} \<union> {x \<in> S. ?p \<le> x}" using full by auto
  ultimately have "covered (sc_ranges s) \<union> {?q..?e} = {x \<in> S. ?q \<le> x}" using c(1) by blast
  moreover have "?q \<le> ?e" using c(2) by linarith
  ultimately show ?thesis using inv assms(2) by (simp add: scan_inv_def Let_def)
qed
text \<open>The words still to be scanned agree with \<open>S\<close>, and hold no bit below packet zero.\<close>

definition words_match :: "nat \<Rightarrow> nat set \<Rightarrow> nat \<Rightarrow> u64 list \<Rightarrow> bool" where
  "words_match h S d ws \<longleftrightarrow> (\<forall>i < length ws. \<forall>k < 64.
     (bit (ws ! i) k \<longrightarrow> d + 64 * i + k \<le> h) \<and>
     (d + 64 * i + k \<le> h \<longrightarrow> (bit (ws ! i) k \<longleftrightarrow> h - (d + 64 * i + k) \<in> S)))"

lemma words_match_Cons:
  assumes "words_match h S d (w # ws)"
  shows "words_match h S (d + 64) ws"
    and "k < 64 \<Longrightarrow> bit w k \<Longrightarrow> d + k \<le> h"
    and "k < 64 \<Longrightarrow> d + k \<le> h \<Longrightarrow> bit w k \<longleftrightarrow> h - (d + k) \<in> S"
proof -
  have step: "(bit ((w # ws) ! i) k \<longrightarrow> d + 64 * i + k \<le> h) \<and>
     (d + 64 * i + k \<le> h \<longrightarrow> (bit ((w # ws) ! i) k \<longleftrightarrow> h - (d + 64 * i + k) \<in> S))"
    if "i < Suc (length ws)" "k < 64" for i k
    using assms that by (simp add: words_match_def)
  show "words_match h S (d + 64) ws"
    unfolding words_match_def using step [of "Suc _"] by (simp add: algebra_simps)
  show "k < 64 \<Longrightarrow> bit w k \<Longrightarrow> d + k \<le> h"
    and "k < 64 \<Longrightarrow> d + k \<le> h \<Longrightarrow> bit w k \<longleftrightarrow> h - (d + k) \<in> S"
    using step [of 0 k] by auto
qed

lemma scan_words_inv:
  assumes "scan_inv h S s" and "words_match h S (sc_diff s) ws"
  shows "(scan_inv h S (scan_words h ws s)
      \<and> (sc_diff (scan_words h ws s) = sc_diff s + 64 * length ws \<or> h < sc_diff (scan_words h ws s)))
    \<or> scan_done S (scan_words h ws s)"
  using assms
proof (induction ws arbitrary: s)
  case Nil
  then show ?case by simp
next
  case (Cons w ws)
  note m = words_match_Cons [OF Cons.prems(2)]
  have live: "\<not> sc_returned s" using Cons.prems(1) by (simp add: scan_inv_def Let_def)
  let ?skip = "s\<lparr>sc_diff := sc_diff s + 64\<rparr>" and ?s = "scan_word h 64 w s"
  have IH_skip: ?case if "scan_inv h S ?skip" "scan_words h (w # ws) s = scan_words h ws ?skip"
    unfolding that(2) using Cons.IH [OF that(1)] m(1) by (simp add: add.assoc)
  consider "h < sc_diff s" | "sc_diff s \<le> h" "\<not> sc_in_range s" "w = 0"
    | "sc_diff s \<le> h" "sc_in_range s" "w = - 1"
    | "sc_diff s \<le> h" "\<not> (\<not> sc_in_range s \<and> w = 0)" "\<not> (sc_in_range s \<and> w = - 1)"
    by linarith
  then show ?case
  proof cases
    case 1
    then show ?thesis using Cons.prems(1) by simp
  next
    case 2
    have "scan_inv h S ?skip"
      by (rule scan_skip_zero) (use Cons.prems(1) 2 m(3) in auto)
    then show ?thesis by (rule IH_skip) (use 2 live in simp)
  next
    case 3
    have bits: "bit w k" if "k < 64" for k using 3(3) that by simp
    have "sc_diff s + 63 \<le> h" using m(2) [of 63] bits by simp
    then have "scan_inv h S ?skip"
      by (intro scan_skip_full) (use Cons.prems(1) 3 m(3) bits in auto)
    then show ?thesis by (rule IH_skip) (use 3 live in simp)
  next
    case 4
    then have eq: "scan_words h (w # ws) s = scan_words h ws ?s" using live by auto
    from scan_word_inv [OF Cons.prems(1) m(3)]
    consider "scan_inv h S ?s" "sc_diff ?s = sc_diff s + 64" | "scan_inv h S ?s" "h < sc_diff ?s" | "scan_done S ?s"
      by blast
    then show ?thesis
    proof cases
      case 1
      then show ?thesis unfolding eq using Cons.IH [OF 1(1)] m(1) by (simp add: add.assoc)
    next
      case 2
      then show ?thesis unfolding eq using scan_stop [of h ?s ws] by simp
    next
      case 3
      then have "sc_returned ?s" by (simp add: scan_done_def)
      then show ?thesis unfolding eq using scan_stop [of h ?s ws] 3 by simp
    qed
  qed
qed

lemma window_words_match:
  assumes "win_invar (Some h) b"
  shows "words_match h {x. win_seen (Some h) b x} 0 b"
proof -
  have len: "length b = 32" and inv: "\<And>d. d < 2048 \<Longrightarrow> win_bit b d \<Longrightarrow> d \<le> h"
    using assms by (simp_all add: win_invar_def)
  have "(bit (b ! i) k \<longrightarrow> 64 * i + k \<le> h) \<and>
     (64 * i + k \<le> h \<longrightarrow> (bit (b ! i) k \<longleftrightarrow> win_seen (Some h) b (h - (64 * i + k))))"
    if "i < 32" "k < 64" for i k
    using inv [of "64 * i + k"] that by (auto simp: win_bit_split win_seen_def)
  then show ?thesis using len by (simp add: words_match_def)
qed

lemma get_ack_ranges_spec:
  assumes "win_invar (at_highest t) (at_bitmask t)"
  defines "S \<equiv> {x. win_seen (at_highest t) (at_bitmask t) x}"
  shows "descending (get_ack_ranges t) \<and> length (get_ack_ranges t) \<le> max_ack_ranges
    \<and> (\<exists>p. covered (get_ack_ranges t) = {x \<in> S. p \<le> x}
         \<and> (length (get_ack_ranges t) < max_ack_ranges \<longrightarrow> {x \<in> S. p \<le> x} = S))"
proof (cases "at_highest t")
  case None
  then show ?thesis by (auto simp: get_ack_ranges_def descending_def S_def win_seen_def)
next
  case (Some h)
  let ?init = "\<lparr>sc_ranges = [], sc_in_range = False, sc_current_end = 0, sc_diff = 0, sc_returned = False\<rparr>"
  define s where "s = scan_words h (at_bitmask t) ?init"
  have ranges: "get_ack_ranges t = (if sc_returned s then sc_ranges s
     else if sc_in_range s \<and> length (sc_ranges s) < max_ack_ranges then
       sc_ranges s @ [(h - (sc_diff s - 1), sc_current_end s)]
     else sc_ranges s)"
    using Some by (simp add: get_ack_ranges_def Let_def s_def)
  have S: "S = {x. win_seen (Some h) (at_bitmask t) x}" using Some by (simp add: S_def)
  have h: "x \<le> h \<and> h < x + 2048" if "x \<in> S" for x using that by (simp add: S win_seen_def)
  have "scan_inv h S ?init" using h by (fastforce simp: scan_inv_def Let_def descending_def)
  moreover have "words_match h S (sc_diff ?init) (at_bitmask t)"
    using window_words_match [of h "at_bitmask t"] assms(1) Some by (simp add: S)
  moreover have "length (at_bitmask t) = 32" using assms(1) by (simp add: win_invar_def)
  ultimately consider "scan_inv h S s" "2048 \<le> sc_diff s \<or> h < sc_diff s" | "scan_done S s"
    unfolding s_def using scan_words_inv [of h S ?init "at_bitmask t"] by auto
  then show ?thesis
  proof cases
    case 1
    let ?p = "h + 1 - sc_diff s" and ?e = "sc_current_end s"
    have "?p \<le> x" if "x \<in> S" for x using h [OF that] 1(2) by linarith
    then have all: "{x \<in> S. ?p \<le> x} = S" by auto
    have last: "h - (sc_diff s - 1) = ?p" using 1(2) by linarith
    show ?thesis
      using 1(1) all unfolding ranges last
      by (cases "sc_in_range s") (auto simp: scan_inv_def Let_def descending_snoc intro: exI [of _ ?p])
  next
    case 2
    then show ?thesis by (auto simp: ranges scan_done_def)
  qed
qed

section \<open>Replay decisions over a whole run\<close>

lemma replay_run_refines: "rw.represents w S \<Longrightarrow> replay_run pns w = replay_spec pns S"
  by (induction pns arbitrary: w S) (simp_all add: is_replay_iff rw.represents_mark)

lemma replay_spec_fresh: "distinct (replay_spec pns S) \<and> set (replay_spec pns S) \<inter> S = {}"
proof (induction pns arbitrary: S)
  case (Cons pn pns)
  then show ?case using Cons.IH [of S] Cons.IH [of "insert pn S"] by auto
qed simp

section \<open>Properties\<close>

text \<open>
  C14: over any sequence of arriving packet numbers the bitmask window lets through exactly those the
  set-based specification lets through: numbers not seen before that lie less than 2048 below the
  highest number seen.  No packet number is let through twice.
\<close>

theorem replay_window_refines_set:
  "replay_run pns replay_new = replay_spec pns {} \<and> distinct (replay_run pns replay_new)"
  using replay_run_refines [OF rw.represents_empty, of pns] replay_spec_fresh [of pns "{}"] by simp

text \<open>
  C24: the acknowledgement ranges built from any history of received packets are in descending order,
  disjoint and not adjacent, at most 128, and cover exactly the received numbers inside the
  2048-packet window; when the cap of 128 is reached they cover exactly the received numbers from
  some point upwards.  In particular no packet is acknowledged that was not received.
\<close>

theorem ack_ranges_cover_received:
  fixes pns :: "nat list"
  defines "ranges \<equiv> get_ack_ranges (fold ack_mark_processed pns ack_new)"
    and "received \<equiv> {x \<in> set pns. Max (set pns) < x + 2048}"
  shows "descending ranges \<and> length ranges \<le> 128
    \<and> (covered ranges = received
       \<or> length ranges = 128 \<and> (\<exists>p. covered ranges = {x \<in> received. p \<le> x}))"
proof -
  let ?t = "fold ack_mark_processed pns ack_new"
  have "akt.represents ?t (set pns)"
    using akt.represents_fold [OF akt.represents_empty, of pns] by simp
  then have inv: "win_invar (at_highest ?t) (at_bitmask ?t)"
    and seen: "{x. win_seen (at_highest ?t) (at_bitmask ?t) x} = received"
    unfolding akt.represents_def received_def by blast+
  show ?thesis
    using get_ack_ranges_spec [OF inv, unfolded seen] unfolding ranges_def by force
qed

end
