(* ===== verification/Zt_StreamBuffer.thy ===== *)
theory Zt_StreamBuffer
  imports Zt_Prelude
begin

text \<open>
  The circular receive buffer of a stream (\<^verbatim>\<open>src/src/transport/state/stream_buffer.rs\<close>) and the
  trimming its only writer performs (\<^verbatim>\<open>src/src/transport/actor/incoming_handler.rs\<close>).

  The \<^verbatim>\<open>BTreeMap\<close> of received ranges is the list of its entries in key order.  The abstract view of a
  buffer is the partial map \<open>content\<close> from stream offsets to bytes; the lemmas show that
  every operation acts on that map as its documentation says, without a panic.
\<close>

section \<open>Ordered maps\<close>

definition btree_remove :: "nat \<Rightarrow> (nat \<times> nat) list \<Rightarrow> (nat \<times> nat) list" where
  "btree_remove k m = filter (\<lambda>(k', _). k' \<noteq> k) m"

fun btree_insert :: "nat \<Rightarrow> nat \<Rightarrow> (nat \<times> nat) list \<Rightarrow> (nat \<times> nat) list" where
  "btree_insert k v [] = [(k, v)]"
| "btree_insert k v ((k', v') # m) =
     (if k < k' then (k, v) # (k', v') # m
      else if k = k' then (k, v) # m
      else (k', v') # btree_insert k v m)"

section \<open>The buffer\<close>

record stream_receive_buffer =
  sb_buffer :: bytes
  sb_capacity :: nat
  sb_read_head :: nat
  sb_write_head :: nat
  sb_received_ranges :: "(nat \<times> nat) list"

definition buffer_new :: "nat \<Rightarrow> stream_receive_buffer" where
  "buffer_new capacity =
     \<lparr>sb_buffer = [], sb_capacity = capacity, sb_read_head = 0, sb_write_head = 0,
      sb_received_ranges = []\<rparr>"

definition allocated_size :: "stream_receive_buffer \<Rightarrow> nat" where
  "allocated_size b = length (sb_buffer b)"

text \<open>
  The copy loop.  A step that would copy nothing would repeat forever; it is a panic here, so that
  the absence of panics includes termination of the loop.
\<close>

function copy_ring :: "nat \<Rightarrow> bytes \<Rightarrow> nat \<Rightarrow> bytes \<Rightarrow> bytes outcome" where
  "copy_ring capacity buffer write_idx data =
     (if data = [] then Ok buffer
      else
        let chunk_len = min (length data) (capacity - write_idx) in
        if chunk_len = 0 then Panic
        else
          (case copy_into buffer write_idx (take chunk_len data) of
             Ok buffer \<Rightarrow> copy_ring capacity buffer 0 (drop chunk_len data)
           | r \<Rightarrow> r))"
  by pat_completeness auto
termination
  by (relation "measure (\<lambda>(_, _, _, data). length data)") (auto simp: Let_def)

declare copy_ring.simps [simp del]

definition merge_step ::
  "nat \<Rightarrow> nat \<Rightarrow> nat \<times> nat \<Rightarrow> nat \<times> nat \<times> nat \<times> nat list \<Rightarrow> nat \<times> nat \<times> nat \<times> nat list" where
  "merge_step start end = (\<lambda>(rs, re) (overlap, merged_start, merged_end, to_remove).
     if re \<ge> start then
       let overlap_start = max start rs;
           overlap_end = min end re
       in (if overlap_end > overlap_start then overlap + (overlap_end - overlap_start) else overlap,
           min merged_start rs, max merged_end re, to_remove @ [rs])
     else (overlap, merged_start, merged_end, to_remove))"

definition add_range ::
  "nat \<Rightarrow> nat \<Rightarrow> (nat \<times> nat) list \<Rightarrow> (nat \<times> nat) list \<times> nat" where
  "add_range start end ranges =
     (let original_len = end - start;
          (overlap, merged_start, merged_end, to_remove) =
            fold (merge_step start end) (filter (\<lambda>(rs, _). rs \<le> end) ranges) (0, start, end, []);
          (merged_end, to_remove) =
            (case find (\<lambda>(rs, _). rs \<ge> end) ranges of
               Some (rs, re) \<Rightarrow>
                 if rs \<le> merged_end then (max merged_end re, to_remove @ [rs])
                 else (merged_end, to_remove)
             | None \<Rightarrow> (merged_end, to_remove))
      in (btree_insert merged_start merged_end (fold btree_remove to_remove ranges),
          original_len - overlap))"

definition buffer_write ::
  "nat \<Rightarrow> bytes \<Rightarrow> stream_receive_buffer \<Rightarrow> (stream_receive_buffer \<times> nat option) outcome" where
  "buffer_write offset data b =
     (if data = [] then Ok (b, Some 0)
      else case checked_add64 offset (length data) of
        None \<Rightarrow> Ok (b, None)
      | Some end_offset \<Rightarrow>
          obind (add64 (sb_read_head b) (sb_capacity b)) (\<lambda>limit.
          if end_offset > limit then Ok (b, None)
          else
            let b = (if sb_buffer b = [] then b\<lparr>sb_buffer := replicate (sb_capacity b) 0\<rparr> else b);
                b = (if end_offset > sb_write_head b then b\<lparr>sb_write_head := end_offset\<rparr> else b);
                cap = sb_capacity b
            in if cap = 0 then Panic
               else
                 obind (copy_ring cap (sb_buffer b) (offset mod cap) data) (\<lambda>buffer.
                 let (ranges, added) = add_range offset end_offset (sb_received_ranges b)
                 in Ok (b\<lparr>sb_buffer := buffer, sb_received_ranges := ranges\<rparr>, Some added))))"

text \<open>The first remaining range, cut at the read head if it starts before it.\<close>

definition trim_first :: "nat \<Rightarrow> (nat \<times> nat) list \<Rightarrow> (nat \<times> nat) list" where
  "trim_first read_head ranges =
     (case ranges of
        (rs, re) # _ \<Rightarrow>
          if rs < read_head \<and> re > read_head
          then btree_insert read_head re (btree_remove rs ranges) else ranges
      | [] \<Rightarrow> ranges)"

definition read_contiguous ::
  "stream_receive_buffer \<Rightarrow> (stream_receive_buffer \<times> bytes option) outcome" where
  "read_contiguous b =
     (if sb_buffer b = [] then Ok (b, None)
      else case sb_received_ranges b of
        [] \<Rightarrow> Ok (b, None)
      | (first_start, first_end) # _ \<Rightarrow>
          if first_start \<le> sb_read_head b \<and> first_end > sb_read_head b then
            let len = first_end - sb_read_head b;
                cap = sb_capacity b
            in if cap = 0 then Panic
               else
                 let start_idx = sb_read_head b mod cap;
                     end_idx = (sb_read_head b + len) mod cap
                 in
                 obind
                   (if start_idx < end_idx then slice (sb_buffer b) start_idx end_idx
                    else
                      obind (slice (sb_buffer b) start_idx (length (sb_buffer b))) (\<lambda>xs.
                      obind (slice (sb_buffer b) 0 end_idx) (\<lambda>ys. Ok (xs @ ys)))) (\<lambda>out.
                 let read_head = first_end;
                     stale_keys =
                       map fst (filter (\<lambda>(rs, re). rs \<le> read_head \<and> re \<le> read_head)
                         (sb_received_ranges b));
                     ranges = trim_first read_head (fold btree_remove stale_keys (sb_received_ranges b))
                 in Ok (b\<lparr>sb_read_head := read_head, sb_received_ranges := ranges\<rparr>, Some out))
          else Ok (b, None))"

definition resize :: "nat \<Rightarrow> stream_receive_buffer \<Rightarrow> stream_receive_buffer outcome" where
  "resize new_capacity b =
     (if new_capacity = sb_capacity b then Ok b
      else if sb_buffer b = [] then Ok (b\<lparr>sb_capacity := new_capacity\<rparr>)
      else
        let new_buf = replicate new_capacity 0;
            old_cap = sb_capacity b
        in if sb_write_head b < sb_read_head b \<or> old_cap = 0 then Panic
           else
             let data_len = sb_write_head b - sb_read_head b;
                 old_start = sb_read_head b mod old_cap
             in
             obind
               (if data_len > 0 then
                  if new_capacity = 0 then Panic
                  else
                    let first_chunk_len = min data_len (old_cap - old_start);
                        new_start = sb_read_head b mod new_capacity;
                        new_first_chunk_len = min data_len (new_capacity - new_start)
                    in
                    obind (slice (sb_buffer b) old_start (old_start + first_chunk_len)) (\<lambda>linear.
                    obind
                      (if first_chunk_len < data_len then
                         obind (slice (sb_buffer b) 0 (data_len - first_chunk_len)) (\<lambda>more.
                         Ok (linear @ more))
                       else Ok linear) (\<lambda>linear.
                    obind (slice linear 0 new_first_chunk_len) (\<lambda>first.
                    obind (copy_into new_buf new_start first) (\<lambda>new_buf.
                    if new_first_chunk_len < data_len then
                      obind (slice linear new_first_chunk_len (length linear)) (\<lambda>second.
                      if length second \<noteq> data_len - new_first_chunk_len then Panic
                      else copy_into new_buf 0 second)
                    else Ok new_buf))))
                else Ok new_buf) (\<lambda>new_buf.
             Ok (b\<lparr>sb_buffer := new_buf, sb_capacity := new_capacity\<rparr>)))"

text \<open>
  How the stream frame handler stores a segment that lies within the flow-control limit: an overlapping
  prefix is cut off, the rest is written.  The handler has by then refused offsets that overflow and passed
  over segments that end before the read head, and made its other checks; the first two are repeated here,
  so that the step can be taken on its own.
\<close>

definition store_segment ::
  "nat \<Rightarrow> bytes \<Rightarrow> stream_receive_buffer \<Rightarrow> (stream_receive_buffer \<times> nat option) outcome" where
  "store_segment offset data b =
     (case checked_add64 offset (length data) of
        None \<Rightarrow> Err (InvalidPacket ''Stream offset overflow'')
      | Some end_offset \<Rightarrow>
          if end_offset \<le> sb_read_head b then Ok (b, Some 0)
          else
            let (write_offset, write_data) =
                  (if offset < sb_read_head b
                   then (sb_read_head b, drop (sb_read_head b - offset) data)
                   else (offset, data))
            in if write_data = [] then Ok (b, Some 0)
               else buffer_write write_offset write_data b)"

text \<open>
  Growth of the buffer as a step of its own.  Auto-tuning only ever enlarges the buffer; that it also keeps
  to the limit of the connection is part of the handler.
\<close>

definition scale_window :: "nat \<Rightarrow> stream_receive_buffer \<Rightarrow> stream_receive_buffer outcome" where
  "scale_window new_window b =
     (if new_window > sb_capacity b then resize new_window b else Ok b)"

text \<open>
  A run of the receiving side of one stream: segments arriving in any order, reads towards the
  application, and window growth.  The result is the final buffer and everything delivered.
\<close>

datatype buffer_op = Store nat bytes | Read | Grow nat

fun run_ops :: "buffer_op list \<Rightarrow> stream_receive_buffer \<Rightarrow> (stream_receive_buffer \<times> bytes) outcome" where
  "run_ops [] b = Ok (b, [])"
| "run_ops (Store offset data # ops) b =
     obind (store_segment offset data b) (\<lambda>(b, _). run_ops ops b)"
| "run_ops (Read # ops) b =
     obind (read_contiguous b) (\<lambda>(b, chunk).
     obind (run_ops ops b) (\<lambda>(b, out).
     Ok (b, (case chunk of None \<Rightarrow> [] | Some xs \<Rightarrow> xs) @ out)))"
| "run_ops (Grow c # ops) b = obind (scale_window c b) (run_ops ops)"

lemmas buffer_op_defs = store_segment_def buffer_write_def buffer_new_def checked_add64_def add64_def
  add_range_def merge_step_def read_contiguous_def trim_first_def btree_remove_def slice_def
  scale_window_def resize_def copy_into_def Let_def

section \<open>Sets of ranges\<close>

definition rangeset :: "(nat \<times> nat) list \<Rightarrow> nat set" where
  "rangeset rs = (\<Union>(a, b)\<in>set rs. {a..<b})"

text \<open>Non-empty ranges in increasing order with a gap between neighbours.\<close>

definition separated :: "(nat \<times> nat) list \<Rightarrow> bool" where
  "separated rs \<longleftrightarrow> sorted_wrt (\<lambda>(a, b) (c, d). b < c) rs \<and> (\<forall>(a, b)\<in>set rs. a < b)"

lemma rangeset_simps [simp]:
  "rangeset [] = {}" "rangeset ((a, b) # rs) = {a..<b} \<union> rangeset rs"
  "rangeset (xs @ ys) = rangeset xs \<union> rangeset ys"
  by (auto simp: rangeset_def)

lemma rangesetI: "(a, b) \<in> set rs \<Longrightarrow> a \<le> x \<Longrightarrow> x < b \<Longrightarrow> x \<in> rangeset rs"
  by (force simp: rangeset_def)

lemma separated_Nil [simp]: "separated []"
  by (simp add: separated_def)

lemma separated_Cons:
  "separated ((a, b) # rs) \<longleftrightarrow> a < b \<and> (\<forall>(c, d)\<in>set rs. b < c) \<and> separated rs"
  by (auto simp: separated_def)

lemma separated_append:
  "separated (xs @ ys) \<longleftrightarrow> separated xs \<and> separated ys \<and> (\<forall>(a, b)\<in>set xs. \<forall>(c, d)\<in>set ys. b < c)"
  by (auto simp: separated_def sorted_wrt_append)

lemma rangeset_above: "\<forall>(c, d)\<in>set rs. b < c \<Longrightarrow> x \<in> rangeset rs \<Longrightarrow> b < x"
  by (auto simp: rangeset_def)

lemma finite_rangeset [simp]: "finite (rangeset rs)"
  by (auto simp: rangeset_def)

lemma separated_split:
  assumes "separated rs" and "s \<le> e"
  shows "rs = filter (\<lambda>(a, b). b < s) rs @ filter (\<lambda>(a, b). a \<le> e \<and> s \<le> b) rs @ filter (\<lambda>(a, b). e < a) rs"
  using assms(1)
proof (induction rs)
  case (Cons r rs)
  obtain a b where r: "r = (a, b)" by force
  have rs: "separated rs" "a < b" "\<And>c d. (c, d) \<in> set rs \<Longrightarrow> b < c \<and> c < d"
    using Cons.prems by (auto simp: r separated_Cons) (auto simp: separated_def)
  have above: "filter (\<lambda>(c, d). d < s) rs = []" if "s \<le> b"
    using rs that by (fastforce simp: filter_empty_conv)
  have below: "filter (\<lambda>(c, d). c \<le> e \<and> s \<le> d) rs = []" if "e < a"
    using rs that by (fastforce simp: filter_empty_conv)
  show ?case using Cons.IH [OF rs(1)] above below assms(2) rs(2) by (auto simp: r)
qed simp

lemma overlap_card:
  "separated rs \<Longrightarrow> (\<Sum>(a, b)\<leftarrow>rs. min e b - max s a) = card ({s..<e} \<inter> rangeset rs)"
proof (induction rs)
  case (Cons r rs)
  obtain a b where r: "r = (a, b)" by force
  have rs: "separated rs" "\<forall>(c, d)\<in>set rs. b < c" using Cons.prems by (auto simp: r separated_Cons)
  have "{s..<e} \<inter> {a..<b} = {max s a..<min e b}" by auto
  moreover have "({s..<e} \<inter> {a..<b}) \<inter> ({s..<e} \<inter> rangeset rs) = {}"
    using rangeset_above [OF rs(2)] by fastforce
  ultimately have "card ({s..<e} \<inter> rangeset (r # rs)) = (min e b - max s a) + card ({s..<e} \<inter> rangeset rs)"
    by (simp add: r Int_Un_distrib card_Un_disjoint)
  then show ?case using Cons.IH [OF rs(1)] by (simp add: r)
qed simp

lemma fold_merge_step:
  "fold (merge_step s e) xs (ov, ms, me, rm) =
   (let X = filter (\<lambda>(a, b). s \<le> b) xs in
    (ov + (\<Sum>(a, b)\<leftarrow>X. min e b - max s a), fold min (map fst X) ms, fold max (map snd X) me, rm @ map fst X))"
proof (induction xs arbitrary: ov ms me rm)
  case (Cons x xs)
  then show ?case
    by (cases x) (auto simp: merge_step_def Let_def min.commute max.commute)
qed simp

lemma fold_min_spec: "fold min xs (m :: nat) \<le> m \<and> (\<forall>x\<in>set xs. fold min xs m \<le> x) \<and> fold min xs m \<in> insert m (set xs)"
proof (induction xs arbitrary: m)
  case (Cons x xs)
  from Cons.IH [of "min x m"] show ?case by (auto simp: min_def split: if_splits)
qed simp

lemma fold_max_spec: "m \<le> fold max xs (m :: nat) \<and> (\<forall>x\<in>set xs. x \<le> fold max xs m) \<and> fold max xs m \<in> insert m (set xs)"
proof (induction xs arbitrary: m)
  case (Cons x xs)
  from Cons.IH [of "max x m"] show ?case by (auto simp: max_def split: if_splits)
qed simp

lemma fold_btree_remove: "fold btree_remove ks m = filter (\<lambda>(k, _). k \<notin> set ks) m"
proof (induction ks arbitrary: m)
  case (Cons k ks)
  then show ?case by (auto simp: btree_remove_def intro!: filter_cong)
qed simp

lemma btree_insert_between:
  "(\<forall>(a, b)\<in>set A. a < k) \<Longrightarrow> (\<forall>(a, b)\<in>set B. k < a) \<Longrightarrow> btree_insert k v (A @ B) = A @ (k, v) # B"
proof (induction A)
  case Nil
  then show ?case by (cases B) auto
qed auto
lemma separated_keys: "separated rs \<Longrightarrow> distinct (map fst rs)"
proof (induction rs)
  case (Cons r rs)
  obtain a b where r: "r = (a, b)" by force
  have "a < c" if "(c, d) \<in> set rs" for c d
    using Cons.prems that by (fastforce simp: r separated_Cons)
  then show ?case using Cons by (fastforce simp: r separated_Cons)
qed simp

lemma remove_middle:
  assumes "distinct (map fst (A @ L @ B))" and "set (map fst L) \<subseteq> set ks" and "set ks \<subseteq> set (map fst L)"
  shows "fold btree_remove ks (A @ L @ B) = A @ B"
proof -
  have "filter (\<lambda>(k, _). k \<notin> set ks) A = A" "filter (\<lambda>(k, _). k \<notin> set ks) B = B"
    using assms by (auto simp: filter_id_conv) (force)+
  moreover have "filter (\<lambda>(k, _). k \<notin> set ks) L = []"
    using assms(2) by (force simp: filter_empty_conv)
  ultimately show ?thesis by (simp add: fold_btree_remove)
qed

lemma add_range_parts:
  assumes sep: "separated rs" and se: "s < e"
  defines "A \<equiv> filter (\<lambda>(a, b). b < s) rs" and "L \<equiv> filter (\<lambda>(a, b). a \<le> e \<and> s \<le> b) rs"
    and "B \<equiv> filter (\<lambda>(a, b). e < a) rs"
  defines "ms \<equiv> fold min (map fst L) s" and "me \<equiv> fold max (map snd L) e"
  shows "rs = A @ L @ B"
    and "\<And>a b. (a, b) \<in> set A \<Longrightarrow> b < ms" and "\<And>a b. (a, b) \<in> set B \<Longrightarrow> me < a"
    and "{ms..<me} = {s..<e} \<union> rangeset L" and "ms < me"
proof -
  show split: "rs = A @ L @ B"
    unfolding A_def L_def B_def by (rule separated_split [OF sep]) (use se in simp)
  have order: "(\<forall>(a, b)\<in>set A. \<forall>(c, d)\<in>set L. b < c) \<and> (\<forall>(a, b)\<in>set L. \<forall>(c, d)\<in>set B. b < c)"
    using sep unfolding split separated_append by fastforce
  note mn = fold_min_spec [of "map fst L" s, folded ms_def] and mx = fold_max_spec [of e "map snd L", folded me_def]
  show "b < ms" if "(a, b) \<in> set A" for a b
  proof -
    have "b < s" using that by (auto simp: A_def)
    then show ?thesis using mn order that by fastforce
  qed
  show "me < a" if "(a, b) \<in> set B" for a b
  proof -
    have "e < a" using that by (auto simp: B_def)
    then show ?thesis using mx order that by fastforce
  qed
  have L: "a \<le> e \<and> s \<le> b" if "(a, b) \<in> set L" for a b using that by (auto simp: L_def)
  show "ms < me" using mn mx se by linarith
  show "{ms..<me} = {s..<e} \<union> rangeset L"
  proof (intro equalityI subsetI)
    fix x assume x: "x \<in> {ms..<me}"
    consider "x < s" | "s \<le> x" "x < e" | "e \<le> x" by linarith
    then show "x \<in> {s..<e} \<union> rangeset L"
    proof cases
      case 1
      then obtain a b where "(a, b) \<in> set L" "a = ms" using mn x by auto
      then show ?thesis using L [of a b] x 1 rangesetI [of a b L x] by auto
    next
      case 3
      then obtain a b where "(a, b) \<in> set L" "b = me" using mx x by auto
      then show ?thesis using L [of a b] x 3 rangesetI [of a b L x] by auto
    qed simp
  next
    fix x assume "x \<in> {s..<e} \<union> rangeset L"
    then show "x \<in> {ms..<me}" using mn mx by (fastforce simp: rangeset_def)
  qed
qed

lemma add_range_spec:
  assumes sep: "separated rs" and se: "s < e" and ar: "add_range s e rs = (rs', added)"
  shows "separated rs' \<and> rangeset rs' = rangeset rs \<union> {s..<e} \<and> added = card ({s..<e} - rangeset rs)
    \<and> (\<forall>(a, b)\<in>set rs'. (a, b) \<in> set rs \<or> a \<in> insert s (fst ` set rs) \<and> b \<in> insert e (snd ` set rs))"
proof -
  define A L B where "A = filter (\<lambda>(a, b). b < s) rs" and "L = filter (\<lambda>(a, b). a \<le> e \<and> s \<le> b) rs"
    and "B = filter (\<lambda>(a, b). e < a) rs"
  define ms me where "ms = fold min (map fst L) s" and "me = fold max (map snd L) e"
  note parts = add_range_parts [OF sep se, folded A_def L_def B_def, folded ms_def me_def]
  have sepP: "separated A" "separated L" "separated B" using sep unfolding parts(1) separated_append by auto
  have keys: "distinct (map fst (A @ L @ B))" using separated_keys [OF sep] parts(1) by simp
  have L': "filter (\<lambda>(a, b). s \<le> b) (filter (\<lambda>(rs, _). rs \<le> e) rs) = L"
    by (auto simp: L_def intro: filter_cong)
  have core: "fold (merge_step s e) (filter (\<lambda>(rs, _). rs \<le> e) rs) (0, s, e, []) =
      (card ({s..<e} \<inter> rangeset L), ms, me, map fst L)"
    unfolding fold_merge_step L' Let_def by (simp add: overlap_card [OF sepP(2)] ms_def me_def)
  have mx: "\<forall>(a, b)\<in>set L. b \<le> me" using fold_max_spec [of e "map snd L"] by (auto simp: me_def)
  have next_start: "rs1 = e \<and> re1 \<le> me \<and> rs1 \<in> set (map fst L)"
    if "find (\<lambda>(rs, _). e \<le> rs) rs = Some (rs1, re1)" "rs1 \<le> me" for rs1 re1
  proof -
    have mem: "(rs1, re1) \<in> set rs" "e \<le> rs1" using that(1) by (auto simp: find_Some_iff in_set_conv_nth)
    then have "(rs1, re1) \<notin> set B" using parts(3) that(2) by force
    then have "rs1 \<le> e" using mem by (auto simp: B_def)
    moreover have "rs1 < re1" using sep mem(1) by (auto simp: separated_def)
    ultimately have "(rs1, re1) \<in> set L" using mem se by (auto simp: L_def)
    then show ?thesis using mx \<open>rs1 \<le> e\<close> mem(2) by force
  qed
  have "add_range s e rs = (btree_insert ms me (A @ B), (e - s) - card ({s..<e} \<inter> rangeset L))"
  proof -
    have rm: "fold btree_remove ks rs = A @ B" if "set ks = set (map fst L)" for ks
      unfolding parts(1) by (rule remove_middle [OF keys]) (use that in auto)
    have maxre: "max me re1 = me" if "re1 \<le> me" for re1 using that by simp
    show ?thesis
    proof (cases "find (\<lambda>(rs, _). e \<le> rs) rs")
      case None
      then show ?thesis
        by (simp add: add_range_def core rm)
    next
      case (Some r)
      then obtain rs1 re1 where r: "find (\<lambda>(rs, _). e \<le> rs) rs = Some (rs1, re1)" by (cases r) auto
      show ?thesis
      proof (cases "rs1 \<le> me")
        case True
        have "set (map fst L @ [rs1]) = set (map fst L)" using next_start [OF r True] by auto
        note rm1 = rm [OF this]
        show ?thesis using next_start [OF r True] True rm1
          by (simp add: add_range_def core r)
      next
        case False
        then show ?thesis
          by (simp add: add_range_def core r rm)
      qed
    qed
  qed
  moreover have ins: "btree_insert ms me (A @ B) = A @ (ms, me) # B"
    by (rule btree_insert_between) (use parts(2,3,5) sepP in \<open>fastforce simp: separated_def\<close>)+
  ultimately have rs': "rs' = A @ (ms, me) # B" and added: "added = (e - s) - card ({s..<e} \<inter> rangeset L)"
    using ar by auto
  have "separated rs'"
    using sepP parts(2,3,5) sep unfolding rs' separated_append separated_Cons by fastforce
  moreover have cov: "rangeset rs' = rangeset rs \<union> {s..<e}"
    using parts(4) arg_cong [OF parts(1), of rangeset] unfolding rs' by auto
  moreover have "added = card ({s..<e} - rangeset rs)"
  proof -
    have "{s..<e} \<inter> rangeset rs = {s..<e} \<inter> rangeset L"
      by (subst parts(1)) (auto simp: A_def B_def rangeset_def)
    moreover have "card ({s..<e} - rangeset rs) = card {s..<e} - card ({s..<e} \<inter> rangeset rs)"
      by (simp add: card_Diff_subset_Int)
    ultimately show ?thesis by (simp add: added)
  qed
  moreover have "ms \<in> insert s (fst ` set rs)" "me \<in> insert e (snd ` set rs)"
    using fold_min_spec [of "map fst L" s] fold_max_spec [of e "map snd L"] 
    by (auto simp: ms_def me_def L_def)
  ultimately show ?thesis using rs' by (auto simp: A_def B_def)
qed
section \<open>The ring\<close>

lemma mod_eq_window: "x mod c = y mod c \<Longrightarrow> x \<le> y \<Longrightarrow> y < x + c \<Longrightarrow> x = (y :: nat)"
proof -
  assume eq: "x mod c = y mod c" and "x \<le> y" and "y < x + c"
  then have "c dvd y - x" by (metis mod_eq_dvd_iff_nat)
  moreover have "y - x < c" using \<open>x \<le> y\<close> \<open>y < x + c\<close> by linarith
  ultimately have "y - x = 0" using nat_dvd_not_less by blast
  then show "x = y" using \<open>x \<le> y\<close> by simp
qed

lemma mod_neq_window:
  "x \<noteq> y \<Longrightarrow> l \<le> x \<Longrightarrow> x < l + c \<Longrightarrow> l \<le> y \<Longrightarrow> y < l + c \<Longrightarrow> x mod c \<noteq> y mod (c :: nat)"
  using mod_eq_window [of x c y] mod_eq_window [of y c x] by (cases "x \<le> y") auto

lemma ring_index: "w < cap \<Longrightarrow> k \<le> cap \<Longrightarrow> (w + k) mod cap = (if w + k < cap then w + k else w + k - cap)"
  for w k cap :: nat
  by (auto simp: mod_if)

lemma copy_ring_spec:
  assumes len: "length buf = cap" and w: "w < cap" and data: "length data \<le> cap"
  shows "\<exists>buf'. copy_ring cap buf w data = Ok buf' \<and> length buf' = cap
    \<and> (\<forall>k < length data. buf' ! ((w + k) mod cap) = data ! k)
    \<and> (\<forall>j < cap. (\<forall>k < length data. (w + k) mod cap \<noteq> j) \<longrightarrow> buf' ! j = buf ! j)"
proof (cases "length data \<le> cap - w")
  case True
  have "w + length data \<le> length buf" using True w len by simp
  then obtain b1 where b1: "copy_into buf w data = Ok b1" by (simp add: copy_into_def)
  have n1: "length b1 = cap" "\<And>j. j < cap \<Longrightarrow> b1 ! j = (if w \<le> j \<and> j < w + length data then data ! (j - w) else buf ! j)"
    using length_copy_into [OF b1] nth_copy_into [OF b1] len by auto
  have "copy_ring cap buf w data = Ok b1"
    using True b1 w len by (cases "data = []") (auto simp: copy_ring.simps copy_into_def)
  moreover have "b1 ! ((w + k) mod cap) = data ! k" if "k < length data" for k
    using that True n1(2) [of "w + k"] by simp
  moreover have "b1 ! j = buf ! j" if "j < cap" "\<forall>k < length data. (w + k) mod cap \<noteq> j" for j
  proof -
    have "\<not> (w \<le> j \<and> j - w < length data)" using that(2) [rule_format, of "j - w"] that(1) by auto
    then show ?thesis using n1(2) that(1) by auto
  qed
  ultimately show ?thesis using n1(1) by blast
next
  case False
  let ?c = "cap - w" and ?rest = "drop (cap - w) data"
  obtain b1 where b1: "copy_into buf w (take ?c data) = Ok b1" using False w len by (simp add: copy_into_def)
  have n1: "length b1 = cap" "\<And>j. j < cap \<Longrightarrow> b1 ! j = (if w \<le> j then data ! (j - w) else buf ! j)"
    using length_copy_into [OF b1] nth_copy_into [OF b1] len False by auto
  have "length ?rest \<le> length b1" using data n1(1) by simp
  then obtain b2 where b2: "copy_into b1 0 ?rest = Ok b2" by (simp add: copy_into_def)
  have n2: "length b2 = cap" "\<And>j. j < cap \<Longrightarrow> b2 ! j = (if j < length ?rest then ?rest ! j else b1 ! j)"
    using length_copy_into [OF b2] nth_copy_into [OF b2] n1 by auto
  have "copy_ring cap buf w data = copy_ring cap b1 0 ?rest"
    using False b1 w by (subst copy_ring.simps) (auto simp: Let_def)
  also have "\<dots> = Ok b2"
    using False b2 data by (simp add: copy_ring.simps)
  finally have "copy_ring cap buf w data = Ok b2" .
  moreover have "b2 ! ((w + k) mod cap) = data ! k" if "k < length data" for k
  proof (cases "w + k < cap")
    case True
    then show ?thesis using n2(2) [of "w + k"] n1(2) [of "w + k"] data by auto
  next
    case nowrap: False
    then have "(w + k) mod cap = w + k - cap" using that data w ring_index [of w cap k] by simp
    then show ?thesis using nowrap that w n2(2) [of "w + k - cap"] data by auto
  qed
  moreover have "b2 ! j = buf ! j" if "j < cap" "\<forall>k < length data. (w + k) mod cap \<noteq> j" for j
  proof -
    have "\<not> w \<le> j"
    proof
      assume "w \<le> j"
      then have "j - w < length data" "(w + (j - w)) mod cap = j" using that(1) False by (linarith, simp)
      then show False using that(2) by blast
    qed
    moreover have "\<not> j < length ?rest"
    proof
      assume "j < length ?rest"
      then have "j + cap - w < length data" "(w + (j + cap - w)) mod cap = j" using that(1) w by auto
      then show False using that(2) by blast
    qed
    ultimately show ?thesis using n2(2) n1(2) that(1) by simp
  qed
  ultimately show ?thesis using n2(1) by blast
qed

lemma copy_ring_twice:
  assumes "length buf = c" and "w < c" and "data \<noteq> []" and "length data \<le> c"
  defines "m \<equiv> min (length data) (c - w)"
  shows "copy_ring c buf w data =
    obind (copy_into buf w (take m data)) (\<lambda>b1.
      if m < length data then copy_into b1 0 (drop m data) else Ok b1)"
proof -
  have m: "0 < m" "m \<le> length data" using assms by (auto simp: m_def)
  have "copy_ring c b1 0 (drop m data) = (if m < length data then copy_into b1 0 (drop m data) else Ok b1)" for b1
  proof (cases "m < length data")
    case True
    then have "min (length data - m) c = length data - m" using assms(4) by simp
    then show ?thesis using True m
      by (cases "copy_into b1 0 (drop m data)") (simp_all add: copy_ring.simps)
  qed (simp add: copy_ring.simps)
  then show ?thesis using assms(3) m(1) by (subst copy_ring.simps) (simp add: m_def [symmetric] Let_def obind_def split: outcome.split)
qed

lemma ring_linear:
  assumes "length buf = cap" and "w < cap" and "len \<le> cap"
  shows "take (min len (cap - w)) (drop w buf) @ take (len - min len (cap - w)) buf
    = map (\<lambda>k. buf ! ((w + k) mod cap)) [0..<len]"
proof (cases "len \<le> cap - w")
  case True
  then show ?thesis using assms by (intro nth_equalityI) (auto simp: min_absorb1)
next
  case False
  then have "min len (cap - w) = cap - w" "take (cap - w) (drop w buf) = drop w buf" using assms(1) by auto
  moreover have "drop w buf @ take (len - (cap - w)) buf = map (\<lambda>k. buf ! ((w + k) mod cap)) [0..<len]"
  proof (rule nth_equalityI)
    fix i assume "i < length (drop w buf @ take (len - (cap - w)) buf)"
    then have "i < len" using assms False by auto
    then show "(drop w buf @ take (len - (cap - w)) buf) ! i = map (\<lambda>k. buf ! ((w + k) mod cap)) [0..<len] ! i"
      using assms ring_index [of w cap i] by (auto simp: nth_append add.commute)
  qed (use assms False in auto)
  ultimately show ?thesis by simp
qed

section \<open>Abstract view and invariant\<close>

definition content :: "stream_receive_buffer \<Rightarrow> nat \<Rightarrow> u8 option" where
  "content b pos =
     (if pos \<in> rangeset (sb_received_ranges b) then Some (sb_buffer b ! (pos mod sb_capacity b)) else None)"

definition buffer_inv :: "stream_receive_buffer \<Rightarrow> bool" where
  "buffer_inv b \<longleftrightarrow>
     (sb_buffer b = [] \<or> length (sb_buffer b) = sb_capacity b)
   \<and> (sb_buffer b = [] \<longrightarrow> sb_received_ranges b = [] \<and> sb_write_head b = sb_read_head b)
   \<and> sb_read_head b \<le> sb_write_head b \<and> sb_write_head b \<le> sb_read_head b + sb_capacity b
   \<and> separated (sb_received_ranges b)
   \<and> (\<forall>(a, e)\<in>set (sb_received_ranges b). sb_read_head b \<le> a \<and> e \<le> sb_write_head b)"

lemma dom_content: "dom (content b) = rangeset (sb_received_ranges b)"
  by (auto simp: content_def split: if_splits)

lemma content_window:
  "buffer_inv b \<Longrightarrow> pos \<in> rangeset (sb_received_ranges b) \<Longrightarrow>
   sb_read_head b \<le> pos \<and> pos < sb_write_head b"
  by (fastforce simp: buffer_inv_def rangeset_def)

lemma buffer_write_fits:
  assumes inv: "buffer_inv b" and off: "sb_read_head b \<le> offset" and data: "data \<noteq> []"
    and fits: "offset + length data \<le> sb_read_head b + sb_capacity b"
    and range: "sb_read_head b + sb_capacity b < two64"
  defines "e \<equiv> offset + length data"
  shows "\<exists>b'. buffer_write offset data b = Ok (b', Some (card ({offset..<e} - dom (content b))))
    \<and> buffer_inv b' \<and> sb_read_head b' = sb_read_head b \<and> sb_capacity b' = sb_capacity b
    \<and> sb_write_head b' = max (sb_write_head b) e
    \<and> content b' = (\<lambda>pos. if pos \<in> {offset..<e} then Some (data ! (pos - offset)) else content b pos)"
proof -
  let ?cap = "sb_capacity b"
  define buf where "buf = (if sb_buffer b = [] then replicate ?cap 0 else sb_buffer b)"
  have cap: "0 < ?cap" "length data \<le> ?cap" using fits off data by (cases data; simp)+
  have len: "length buf = ?cap" using inv by (auto simp: buf_def buffer_inv_def)
  obtain buf' where copy: "copy_ring ?cap buf (offset mod ?cap) data = Ok buf'" "length buf' = ?cap"
    and new: "\<And>k. k < length data \<Longrightarrow> buf' ! ((offset + k) mod ?cap) = data ! k"
    and old: "\<And>j. j < ?cap \<Longrightarrow> (\<forall>k < length data. (offset + k) mod ?cap \<noteq> j) \<Longrightarrow> buf' ! j = buf ! j"
    using copy_ring_spec [OF len mod_less_divisor [OF cap(1)] cap(2), of offset] by (auto simp: mod_add_left_eq)
  obtain rs' added where ar: "add_range offset e (sb_received_ranges b) = (rs', added)" by force
  have sep: "separated (sb_received_ranges b)" and oe: "offset < e"
    using inv data by (auto simp: buffer_inv_def e_def)
  note spec = add_range_spec [OF sep oe ar]
  let ?b' = "b\<lparr>sb_buffer := buf', sb_write_head := max (sb_write_head b) e, sb_received_ranges := rs'\<rparr>"
  have "buffer_write offset data b = Ok (?b', Some added)"
    using data fits range cap copy ar
    by (auto simp: buffer_write_def checked_add64_def add64_def buf_def e_def max_def)
  moreover have "buffer_inv ?b'"
  proof -
    have "sb_read_head b \<le> a \<and> c \<le> max (sb_write_head b) e" if "(a, c) \<in> set rs'" for a c
      using spec that inv off unfolding buffer_inv_def by fastforce
    then show ?thesis using inv spec copy(2) cap fits off unfolding buffer_inv_def e_def by auto
  qed
  moreover have "content ?b' pos = (if pos \<in> {offset..<e} then Some (data ! (pos - offset)) else content b pos)" for pos
  proof (cases "pos \<in> {offset..<e}")
    case True
    then show ?thesis using spec new [of "pos - offset"] by (auto simp: content_def e_def)
  next
    case False
    have "buf' ! (pos mod ?cap) = sb_buffer b ! (pos mod ?cap)" if "pos \<in> rangeset (sb_received_ranges b)"
    proof -
      have win: "sb_read_head b \<le> pos" "pos < sb_read_head b + ?cap" "sb_buffer b \<noteq> []"
        using content_window [OF inv that] inv that by (auto simp: buffer_inv_def)
      have "(offset + k) mod ?cap \<noteq> pos mod ?cap" if "k < length data" for k
        by (rule mod_neq_window [of _ _ "sb_read_head b"]) (use that False win off fits e_def in auto)
      then show ?thesis using old cap(1) win(3) by (simp add: buf_def)
    qed
    then show ?thesis using False spec by (auto simp: content_def)
  qed
  ultimately show ?thesis using spec by (auto simp: dom_content fun_eq_iff)
qed
lemma head_range:
  assumes inv: "buffer_inv b"
  shows "content b (sb_read_head b) = None \<longleftrightarrow>
    (case sb_received_ranges b of [] \<Rightarrow> True | (a, e) # _ \<Rightarrow> sb_read_head b < a)"
proof (cases "sb_received_ranges b")
  case (Cons r rs)
  obtain a e where r: "r = (a, e)" by force
  have "a < e" "sb_read_head b \<le> a" "\<forall>(c, d)\<in>set rs. e < c"
    using inv by (auto simp: buffer_inv_def Cons r separated_Cons)
  then show ?thesis using rangeset_above [of rs e "sb_read_head b"] by (auto simp: content_def Cons r)
qed (simp add: content_def)

lemma read_contiguous_none:
  assumes "buffer_inv b" and "content b (sb_read_head b) = None"
  shows "read_contiguous b = Ok (b, None)"
  using head_range [OF assms(1)] assms(2)
  by (auto simp: read_contiguous_def split: list.splits)

lemma read_slices:
  assumes len: "length buf = cap" and n: "0 < n" "n \<le> cap"
  shows "(if h mod cap < (h + n) mod cap then slice buf (h mod cap) ((h + n) mod cap)
      else obind (slice buf (h mod cap) (length buf)) (\<lambda>xs.
           obind (slice buf 0 ((h + n) mod cap)) (\<lambda>ys. Ok (xs @ ys))))
    = Ok (map (\<lambda>k. buf ! ((h + k) mod cap)) [0..<n])"
proof -
  let ?w = "h mod cap"
  have w: "?w < cap" using n by simp
  have e: "(h + n) mod cap = (if ?w + n < cap then ?w + n else ?w + n - cap)"
    using ring_index [OF w n(2)] by (simp add: mod_add_left_eq)
  have lin: "take (min n (cap - ?w)) (drop ?w buf) @ take (n - min n (cap - ?w)) buf
    = map (\<lambda>k. buf ! ((h + k) mod cap)) [0..<n]"
    using ring_linear [OF len w n(2)] by (simp add: mod_add_left_eq)
  show ?thesis
  proof (cases "?w + n < cap")
    case True
    then show ?thesis using e lin n len by (simp add: slice_def min_absorb1)
  next
    case False
    then have "min n (cap - ?w) = cap - ?w" "take (cap - ?w) (drop ?w buf) = drop ?w buf" using len by auto
    then show ?thesis using False e lin n len w by (simp add: slice_def add.commute)
  qed
qed

lemma read_contiguous_some:
  assumes inv: "buffer_inv b" and here: "content b (sb_read_head b) \<noteq> None"
  shows "\<exists>b' out. read_contiguous b = Ok (b', Some out) \<and> buffer_inv b' \<and> out \<noteq> []
    \<and> sb_read_head b' = sb_read_head b + length out \<and> sb_capacity b' = sb_capacity b
    \<and> sb_write_head b' = sb_write_head b
    \<and> (\<forall>k < length out. content b (sb_read_head b + k) = Some (out ! k))
    \<and> content b (sb_read_head b + length out) = None
    \<and> content b' = (\<lambda>pos. if pos < sb_read_head b' then None else content b pos)"
proof -
  let ?h = "sb_read_head b" and ?cap = "sb_capacity b" and ?buf = "sb_buffer b"
  obtain e rs where rs: "sb_received_ranges b = (?h, e) # rs"
    using head_range [OF inv] here inv by (auto simp: buffer_inv_def split: list.splits)
  have i: "?h < e" "e \<le> sb_write_head b" "separated rs" "\<forall>(c, d)\<in>set rs. e < c \<and> c < d \<and> d \<le> sb_write_head b"
    "?buf \<noteq> []" "length ?buf = ?cap" "sb_write_head b \<le> ?h + ?cap"
    using inv by (auto simp: buffer_inv_def rs separated_Cons) (auto simp: separated_def)
  define n where "n = e - ?h"
  define out where "out = map (\<lambda>k. ?buf ! ((?h + k) mod ?cap)) [0..<n]"
  have n: "0 < n" "n \<le> ?cap" "?h + n = e" using i by (auto simp: n_def)
  have stale: "filter (\<lambda>(a, d). a \<le> e \<and> d \<le> e) rs = []"
    using i by (auto simp: filter_empty_conv)
  have keep: "btree_remove ?h ((?h, e) # rs) = rs"
    using i by (auto simp: btree_remove_def filter_id_conv)
  have trim: "trim_first e rs = rs"
    using i by (auto simp: trim_first_def split: list.split)
  let ?b' = "b\<lparr>sb_read_head := e, sb_received_ranges := rs\<rparr>"
  have "read_contiguous b = Ok (?b', Some out)"
    using i n read_slices [OF i(6) n(1,2), of ?h]
    by (simp add: read_contiguous_def rs stale keep trim Let_def n_def [symmetric] out_def)
  moreover have "buffer_inv ?b'"
    using inv i by (auto simp: buffer_inv_def rs)
  moreover have "content b (?h + k) = Some (out ! k)" if "k < n" for k
    using that n by (simp add: content_def rs out_def)
  moreover have above: "e < x" if "x \<in> rangeset rs" for x using rangeset_above [of rs e x] i that by auto
  moreover have "content b e = None" using above by (auto simp: content_def rs)
  moreover have "content ?b' = (\<lambda>pos. if pos < e then None else content b pos)"
    using above by (fastforce simp: content_def rs fun_eq_iff)
  ultimately show ?thesis using n by (auto simp: out_def)
qed
lemma resize_preserves_content:
  assumes inv: "buffer_inv b" and room: "sb_write_head b \<le> sb_read_head b + c"
  shows "\<exists>b'. resize c b = Ok b' \<and> buffer_inv b' \<and> content b' = content b \<and> sb_capacity b' = c
    \<and> sb_read_head b' = sb_read_head b \<and> sb_write_head b' = sb_write_head b"
proof -
  let ?h = "sb_read_head b" and ?cap = "sb_capacity b" and ?buf = "sb_buffer b"
  let ?n = "sb_write_head b - ?h"
  consider "c = ?cap" | "c \<noteq> ?cap" "?buf = []" | "c \<noteq> ?cap" "?buf \<noteq> []" "?n = 0" | "c \<noteq> ?cap" "?buf \<noteq> []" "0 < ?n"
    by blast
  then show ?thesis
  proof cases
    case 1
    then show ?thesis using inv by (simp add: resize_def)
  next
    case 2
    then show ?thesis using inv by (auto simp: resize_def buffer_inv_def content_def fun_eq_iff)
  next
    case 3
    have "length ?buf = ?cap" "sb_write_head b = ?h" using inv 3 by (auto simp: buffer_inv_def)
    moreover have "?cap \<noteq> 0" using 3(2) calculation(1) by (metis length_0_conv)
    moreover have "sb_received_ranges b = []"
      using inv 3 calculation(2) by (cases "sb_received_ranges b") (auto simp: buffer_inv_def separated_Cons)
    ultimately show ?thesis using inv 3 by (auto simp: resize_def buffer_inv_def content_def fun_eq_iff)
  next
    case 4
    have i: "0 < ?cap" "?h \<le> sb_write_head b" "length ?buf = ?cap" "?n \<le> ?cap" "0 < c" "?n \<le> c"
      using inv 4 room by (auto simp: buffer_inv_def)
    define linear where "linear = map (\<lambda>k. ?buf ! ((?h + k) mod ?cap)) [0..<?n]"
    have lin: "take (min ?n (?cap - ?h mod ?cap)) (drop (?h mod ?cap) ?buf) @ take (?n - min ?n (?cap - ?h mod ?cap)) ?buf = linear"
      using ring_linear [OF i(3) _ i(4), of "?h mod ?cap"] i(1) by (simp add: linear_def mod_add_left_eq)
    obtain buf' where copy: "copy_ring c (replicate c 0) (?h mod c) linear = Ok buf'" "length buf' = c"
      and new: "\<And>k. k < ?n \<Longrightarrow> buf' ! ((?h + k) mod c) = linear ! k"
      using copy_ring_spec [of "replicate c 0" c "?h mod c" linear] i by (auto simp: mod_add_left_eq linear_def)
    let ?b' = "b\<lparr>sb_buffer := buf', sb_capacity := c\<rparr>"
    let ?m = "min ?n (c - ?h mod c)" and ?f = "min ?n (?cap - ?h mod ?cap)"
    have len: "length linear = ?n" "linear \<noteq> []" using 4 by (auto simp: linear_def)
    have copy2: "obind (copy_into (replicate c 0) (?h mod c) (take ?m linear)) (\<lambda>b1.
        if ?m < ?n then copy_into b1 0 (drop ?m linear) else Ok b1) = Ok buf'"
      using copy_ring_twice [of "replicate c 0" c "?h mod c" linear, unfolded len(1)] copy(1) i len(2)
      by simp
    have old: "obind (slice ?buf (?h mod ?cap) (?h mod ?cap + ?f)) (\<lambda>xs.
        if ?f < ?n then obind (slice ?buf 0 (?n - ?f)) (\<lambda>ys. Ok (xs @ ys)) else Ok xs) = Ok linear"
    proof -
      have "?h mod ?cap < ?cap" using i(1) by simp
      then have "?h mod ?cap + ?f \<le> ?cap" "?n - ?f \<le> ?cap" using i(4) by auto
      then show ?thesis using lin i(3) by (auto simp: slice_def)
    qed
    have "resize c b = Ok ?b'"
    proof -
      obtain xs where xs: "slice ?buf (?h mod ?cap) (?h mod ?cap + ?f) = Ok xs"
        "(if ?f < ?n then obind (slice ?buf 0 (?n - ?f)) (\<lambda>ys. Ok (xs @ ys)) else Ok xs) = Ok linear"
        using old by (auto simp: obind_eq_Ok)
      obtain b1 where b1: "copy_into (replicate c 0) (?h mod c) (take ?m linear) = Ok b1"
        "(if ?m < ?n then copy_into b1 0 (drop ?m linear) else Ok b1) = Ok buf'"
        using copy2 by (auto simp: obind_eq_Ok)
      define n m f where "n = ?n" and "m = ?m" and "f = ?f"
      have sl: "slice linear 0 ?m = Ok (take ?m linear)" "slice linear ?m (length linear) = Ok (drop ?m linear)"
        using len by (simp_all add: slice_def)
      show ?thesis
        using 4(1,2) i(1,2,5) 4(3) xs b1 sl len(1)
        unfolding resize_def Let_def m_def [symmetric] f_def [symmetric] unfolding n_def [symmetric]
        by (auto split: if_splits)
    qed
    moreover have "buffer_inv ?b'" using inv room copy(2) i(5) by (auto simp: buffer_inv_def)
    moreover have "content ?b' pos = content b pos" for pos
    proof (cases "pos \<in> rangeset (sb_received_ranges b)")
      case True
      then have "pos - ?h < ?n" "?h \<le> pos" using content_window [OF inv True] by auto
      then show ?thesis using True new [of "pos - ?h"] by (simp add: content_def linear_def)
    qed (simp add: content_def)
    ultimately show ?thesis by auto
  qed
qed
lemma buffer_write_rejects:
  assumes "data \<noteq> []" and "sb_read_head b + sb_capacity b < offset + length data"
    and "sb_read_head b + sb_capacity b < two64"
  shows "buffer_write offset data b = Ok (b, None)"
  using assms by (simp add: buffer_write_def checked_add64_def add64_def)

text \<open>The part of a segment at or above the read head.\<close>

definition stored :: "nat \<Rightarrow> bytes \<Rightarrow> stream_receive_buffer \<Rightarrow> nat set" where
  "stored offset data b = {max offset (sb_read_head b)..<offset + length data}"

lemma store_segment_fits:
  assumes inv: "buffer_inv b" and range: "sb_read_head b + sb_capacity b < two64"
    and fits: "offset + length data \<le> sb_read_head b + sb_capacity b"
  shows "\<exists>b'. store_segment offset data b = Ok (b', Some (card (stored offset data b - dom (content b))))
    \<and> buffer_inv b' \<and> sb_read_head b' = sb_read_head b \<and> sb_capacity b' = sb_capacity b
    \<and> content b' = (\<lambda>pos. if pos \<in> stored offset data b then Some (data ! (pos - offset)) else content b pos)"
proof -
  let ?h = "sb_read_head b" and ?e = "offset + length data"
  have ok: "checked_add64 offset (length data) = Some ?e" using fits range by (simp add: checked_add64_def)
  consider "?e \<le> ?h" | "?h < ?e" "offset < ?h" | "?h < ?e" "?h \<le> offset" "data \<noteq> []" | "?h < ?e" "data = []" by (cases data) linarith+
  then show ?thesis
  proof cases
    case 1
    then have "stored offset data b = {}" by (auto simp: stored_def)
    then show ?thesis using 1 ok inv by (simp add: store_segment_def)
  next
    case 2
    let ?data = "drop (?h - offset) data"
    have d: "?data \<noteq> []" "?h + length ?data = ?e" using 2 by auto
    have st: "stored offset data b = {?h..<?h + length ?data}" unfolding d(2) using 2 by (simp add: stored_def max_absorb2)
    have "store_segment offset data b = buffer_write ?h ?data b"
      using 2 ok d(1) by (simp add: store_segment_def)
    then show ?thesis
      using buffer_write_fits [OF inv _ d(1), of ?h] d(2) fits range 2 unfolding st by (auto simp: fun_eq_iff)
  next
    case 3
    have st: "stored offset data b = {offset..<?e}" using 3 by (simp add: stored_def max_absorb1)
    have "store_segment offset data b = buffer_write offset data b"
      using 3 ok by (simp add: store_segment_def)
    then show ?thesis
      using buffer_write_fits [OF inv 3(2,3) fits range] unfolding st by auto
  next
    case 4
    then show ?thesis using ok inv by (simp add: store_segment_def stored_def)
  qed
qed

lemma store_segment_rejects:
  assumes "buffer_inv b" and "sb_read_head b + sb_capacity b < two64"
    and over: "sb_read_head b + sb_capacity b < offset + length data"
  shows "store_segment offset data b \<in>
    {Err (InvalidPacket ''Stream offset overflow''), Ok (b, None), Ok (b, Some 0)}"
proof (cases "checked_add64 offset (length data)")
  case None
  then show ?thesis by (simp add: store_segment_def)
next
  case (Some e)
  then have e: "e = offset + length data" by (simp add: checked_add64_def split: if_splits)
  let ?h = "sb_read_head b"
  have "buffer_write ?h (drop (?h - offset) data) b = Ok (b, None)" if "offset < ?h"
    by (rule buffer_write_rejects) (use that over assms in auto)
  moreover have "buffer_write offset data b = Ok (b, None)" if "data \<noteq> []"
    by (rule buffer_write_rejects [OF that over assms(2)])
  ultimately show ?thesis using Some e over by (auto simp: store_segment_def)
qed

section \<open>Reassembly: the interface the stream layer relies on\<close>

locale reassembly =
  fixes store :: "nat \<Rightarrow> bytes \<Rightarrow> 'b \<Rightarrow> ('b \<times> nat option) outcome"
    and read :: "'b \<Rightarrow> ('b \<times> bytes option) outcome"
    and grow :: "nat \<Rightarrow> 'b \<Rightarrow> 'b outcome"
    and head :: "'b \<Rightarrow> nat"
    and view :: "'b \<Rightarrow> nat \<Rightarrow> u8 option"
    and invar :: "'b \<Rightarrow> bool"
  assumes store_law: "invar b \<Longrightarrow> store offset data b = Ok (b', r) \<Longrightarrow>
      invar b' \<and> head b' = head b \<and>
      (\<forall>pos. view b' pos = view b pos \<or>
         offset \<le> pos \<and> pos < offset + length data \<and> view b' pos = Some (data ! (pos - offset)))"
    and read_law: "invar b \<Longrightarrow> read b = Ok (b', Some out) \<Longrightarrow>
      invar b' \<and> head b' = head b + length out
      \<and> (\<forall>k < length out. view b (head b + k) = Some (out ! k))
      \<and> (\<forall>pos. view b' pos = None \<or> view b' pos = view b pos)"
    and read_none_law: "invar b \<Longrightarrow> read b = Ok (b', None) \<Longrightarrow> b' = b"
    and grow_law: "invar b \<Longrightarrow> grow c b = Ok b' \<Longrightarrow> invar b' \<and> head b' = head b \<and> view b' = view b"
begin

text \<open>Everything held is a byte of the stream \<open>S\<close>, at its offset.\<close>

definition holds :: "(nat \<Rightarrow> u8) \<Rightarrow> 'b \<Rightarrow> bool" where
  "holds S b \<longleftrightarrow> invar b \<and> (\<forall>pos v. view b pos = Some v \<longrightarrow> v = S pos)"

lemma holds_store:
  assumes "holds S b" and "store offset data b = Ok (b', r)"
    and "\<And>k. k < length data \<Longrightarrow> data ! k = S (offset + k)"
  shows "holds S b' \<and> head b' = head b"
proof -
  have law: "invar b' \<and> head b' = head b \<and> (\<forall>pos. view b' pos = view b pos \<or>
      offset \<le> pos \<and> pos < offset + length data \<and> view b' pos = Some (data ! (pos - offset)))"
    using store_law [OF _ assms(2)] assms(1) by (simp add: holds_def)
  have "v = S pos" if "view b' pos = Some v" for pos v
    using law that assms(1) assms(3) [of "pos - offset"] by (auto simp: holds_def dest!: spec [of _ pos])
  then show ?thesis using law by (simp add: holds_def)
qed

lemma holds_read:
  assumes "holds S b" and "read b = Ok (b', Some out)"
  shows "holds S b' \<and> out = map S [head b..<head b']"
proof -
  have law: "invar b' \<and> head b' = head b + length out
      \<and> (\<forall>k < length out. view b (head b + k) = Some (out ! k))
      \<and> (\<forall>pos. view b' pos = None \<or> view b' pos = view b pos)"
    using read_law [OF _ assms(2)] assms(1) by (simp add: holds_def)
  have "out ! k = S (head b + k)" if "k < length out" for k
    using law that assms(1) by (simp add: holds_def)
  then have "out = map S [head b..<head b']"
    using law by (intro nth_equalityI) auto
  moreover have "holds S b'"
    using law assms(1) by (auto simp: holds_def) (metis option.distinct(1))
  ultimately show ?thesis by blast
qed

lemma holds_grow: "holds S b \<Longrightarrow> grow c b = Ok b' \<Longrightarrow> holds S b' \<and> head b' = head b"
  using grow_law by (auto simp: holds_def)

end
lemma store_segment_Ok:
  assumes inv: "buffer_inv b" and ok: "store_segment offset data b = Ok (b', r)"
  shows "b' = b \<or> buffer_inv b' \<and> sb_read_head b' = sb_read_head b
    \<and> content b' = (\<lambda>pos. if pos \<in> stored offset data b then Some (data ! (pos - offset)) else content b pos)"
proof (cases "sb_read_head b + sb_capacity b < two64")
  case True
  then show ?thesis
    using store_segment_fits [OF inv True, of offset data] store_segment_rejects [OF inv True, of offset data] ok
    by (cases "offset + length data \<le> sb_read_head b + sb_capacity b") auto
next
  case False
  then show ?thesis
    using ok by (auto simp: store_segment_def buffer_write_def add64_def Let_def split: option.splits if_splits)
qed

lemma buffer_inv_room: "buffer_inv b \<Longrightarrow> sb_capacity b \<le> c \<Longrightarrow> sb_write_head b \<le> sb_read_head b + c"
  by (simp add: buffer_inv_def)

lemma scale_window_Ok:
  assumes "buffer_inv b"
  shows "\<exists>b'. scale_window c b = Ok b' \<and> buffer_inv b' \<and> content b' = content b
    \<and> sb_read_head b' = sb_read_head b \<and> sb_write_head b' = sb_write_head b
    \<and> sb_capacity b' = max c (sb_capacity b)"
  using resize_preserves_content [OF assms buffer_inv_room [OF assms], of c] assms
  by (auto simp: scale_window_def max_def)

interpretation sb: reassembly store_segment read_contiguous scale_window sb_read_head content buffer_inv
proof unfold_locales
  fix b offset data b' r
  assume "buffer_inv b" and "store_segment offset data b = Ok (b', r)"
  from store_segment_Ok [OF this] \<open>buffer_inv b\<close>
  show "buffer_inv b' \<and> sb_read_head b' = sb_read_head b \<and> (\<forall>pos. content b' pos = content b pos \<or>
      offset \<le> pos \<and> pos < offset + length data \<and> content b' pos = Some (data ! (pos - offset)))"
    by (auto simp: stored_def split: if_splits)
next
  fix b b' out
  assume inv: "buffer_inv b" and r: "read_contiguous b = Ok (b', Some out)"
  have "content b (sb_read_head b) \<noteq> None" using read_contiguous_none [OF inv] r by auto
  from read_contiguous_some [OF inv this] r
  show "buffer_inv b' \<and> sb_read_head b' = sb_read_head b + length out
      \<and> (\<forall>k < length out. content b (sb_read_head b + k) = Some (out ! k))
      \<and> (\<forall>pos. content b' pos = None \<or> content b' pos = content b pos)"
    by auto
next
  fix b b'
  assume inv: "buffer_inv b" and r: "read_contiguous b = Ok (b', None)"
  then show "b' = b"
    using read_contiguous_none [OF inv] read_contiguous_some [OF inv] by fastforce
next
  fix b c b'
  assume "buffer_inv b" and "scale_window c b = Ok b'"
  then show "buffer_inv b' \<and> sb_read_head b' = sb_read_head b \<and> content b' = content b"
    using scale_window_Ok [of b c] by auto
qed

lemma run_ops_delivers:
  assumes "sb.holds S b" and "run_ops ops b = Ok (b', out)"
    and "\<And>offset data k. Store offset data \<in> set ops \<Longrightarrow> k < length data \<Longrightarrow> data ! k = S (offset + k)"
  shows "sb_read_head b \<le> sb_read_head b' \<and> out = map S [sb_read_head b..<sb_read_head b']"
  using assms
proof (induction ops b arbitrary: out rule: run_ops.induct)
  case (2 offset data ops b)
  then obtain b1 r where st: "store_segment offset data b = Ok (b1, r)" "run_ops ops b1 = Ok (b', out)"
    by (auto simp: obind_eq_Ok)
  with sb.holds_store [OF 2(2) st(1)] 2(4) have "sb.holds S b1 \<and> sb_read_head b1 = sb_read_head b" by simp
  then show ?case using 2(1) [OF _ st(2)] 2(4) by simp
next
  case (3 ops b)
  then obtain b1 chunk out1 where r: "read_contiguous b = Ok (b1, chunk)" "run_ops ops b1 = Ok (b', out1)"
    and out: "out = (case chunk of None \<Rightarrow> [] | Some xs \<Rightarrow> xs) @ out1"
    by (auto simp: obind_eq_Ok)
  show ?case
  proof (cases chunk)
    case None
    then have "b1 = b" using sb.read_none_law r(1) 3(2) by (simp add: sb.holds_def)
    then show ?thesis using 3(1) [OF _ r(2)] 3(2,4) out None by simp
  next
    case (Some xs)
    note rd = sb.holds_read [OF 3(2) r(1) [unfolded Some]]
    have le: "sb_read_head b \<le> sb_read_head b1"
      using sb.read_law [OF _ r(1) [unfolded Some]] 3(2) by (simp add: sb.holds_def)
    have IH: "sb_read_head b1 \<le> sb_read_head b' \<and> out1 = map S [sb_read_head b1..<sb_read_head b']"
      using 3(1) [OF _ r(2)] rd 3(4) by simp
    then show ?thesis using rd le out Some
        upt_add_eq_append [of "sb_read_head b" "sb_read_head b1" "sb_read_head b' - sb_read_head b1"]
      by simp
  qed
next
  case (4 c ops b)
  then obtain b1 where g: "scale_window c b = Ok b1" "run_ops ops b1 = Ok (b', out)"
    by (auto simp: obind_eq_Ok)
  then show ?case using 4(1) [OF _ g(2)] 4(4) sb.holds_grow [OF 4(2) g(1)] by simp
qed simp

section \<open>Properties\<close>

text \<open>
  C5: in-order delivery.  However the segments of a stream are split, duplicated, overlapped,
  reordered and interleaved with reads and window growth, the bytes handed to the application are
  exactly the first \<open>read_head\<close> bytes of the stream, each once and in order.
\<close>

theorem stream_delivered_in_order:
  assumes "\<And>offset data k. Store offset data \<in> set ops \<Longrightarrow> k < length data \<Longrightarrow> data ! k = S (offset + k)"
    and "run_ops ops (buffer_new capacity) = Ok (b, out)"
  shows "out = map S [0..<sb_read_head b]"
proof -
  have "sb.holds S (buffer_new capacity)"
    by (simp add: sb.holds_def buffer_inv_def content_def buffer_new_def)
  from run_ops_delivers [OF this assms(2,1)] show ?thesis by (simp add: buffer_new_def)
qed

theorem stream_delivered_in_order_witness:
  "\<exists>b. run_ops [Store 3 [4, 5], Store 0 [1, 2, 3, 4], Read] (buffer_new 6) = Ok (b, [1, 2, 3, 4, 5])
     \<and> map (\<lambda>i. of_nat (i + 1)) [0..<sb_read_head b] = [1, 2, 3, 4, 5 :: u8]"
proof -
  let ?ops = "[Store 3 [4, 5], Store 0 [1, 2, 3, 4], Read]"
  let ?S = "\<lambda>i. of_nat (i + 1) :: u8"
  let ?b1 = "\<lparr>sb_buffer = [0, 0, 0, 4, 5, 0], sb_capacity = 6, sb_read_head = 0, sb_write_head = 5,
     sb_received_ranges = [(3, 5)]\<rparr>"
  let ?b2 = "?b1\<lparr>sb_buffer := [1, 2, 3, 4, 5, 0], sb_received_ranges := [(0, 5)]\<rparr>"
  let ?b3 = "?b2\<lparr>sb_read_head := 5, sb_received_ranges := []\<rparr>"
  have "replicate 6 (0 :: u8) = [0, 0, 0, 0, 0, 0]" by (simp add: eval_nat_numeral)
  then have "store_segment 3 [4, 5] (buffer_new 6) = Ok (?b1, Some 2)"
    by (simp add: buffer_op_defs copy_ring.simps)
  moreover have "store_segment 0 [1, 2, 3, 4] ?b1 = Ok (?b2, Some 3)"
    by (simp add: buffer_op_defs copy_ring.simps)
  moreover have "read_contiguous ?b2 = Ok (?b3, Some [1, 2, 3, 4, 5])"
    by (simp add: buffer_op_defs)
  ultimately have b: "run_ops ?ops (buffer_new 6) = Ok (?b3, [1, 2, 3, 4, 5])" by simp
  have seg: "data ! k = ?S (offset + k)" if "Store offset data \<in> set ?ops" "k < length data"
    for offset data k
    using that by (auto simp: less_Suc_eq numeral_eq_Suc)
  have "[1, 2, 3, 4, 5] = map ?S [0..<sb_read_head ?b3]"
    by (rule stream_delivered_in_order [where S = ?S, OF seg b])
  then have "map ?S [0..<sb_read_head ?b3] = [1, 2, 3, 4, 5]" by (rule sym)
  with b show ?thesis by (intro exI [of _ ?b3] conjI)
qed

text \<open>
  Storing a segment.  Whatever offset and length a peer sends, the buffer does not panic.  A
  segment that ends within the window is merged into the received bytes, and the reported number is
  the number of bytes that were not there before; a segment beyond the window leaves the buffer
  unchanged.
\<close>

theorem segment_stored_exactly:
  assumes "buffer_inv b" and "sb_read_head b + sb_capacity b < two64"
  shows "if offset + length data \<le> sb_read_head b + sb_capacity b
    then \<exists>b'. store_segment offset data b = Ok (b', Some (card (stored offset data b - dom (content b))))
      \<and> buffer_inv b' \<and> sb_read_head b' = sb_read_head b \<and> sb_capacity b' = sb_capacity b
      \<and> content b' = (\<lambda>pos. if pos \<in> stored offset data b then Some (data ! (pos - offset)) else content b pos)
    else store_segment offset data b \<in>
      {Err (InvalidPacket ''Stream offset overflow''), Ok (b, None), Ok (b, Some 0)}"
  using store_segment_fits [OF assms, of offset data] store_segment_rejects [OF assms, of offset data] by simp

theorem segment_stored_exactly_witness:
  "\<exists>b'. store_segment 2 [7, 8] (buffer_new 4) = Ok (b', Some 2) \<and> content b' 3 = Some 8"
proof -
  have inv: "buffer_inv (buffer_new 4)" "sb_read_head (buffer_new 4) + sb_capacity (buffer_new 4) < two64"
    by (simp_all add: buffer_inv_def buffer_new_def)
  have "stored 2 [7, 8] (buffer_new 4) - dom (content (buffer_new 4)) = {2..<4}"
    by (simp add: stored_def dom_content buffer_new_def)
  with segment_stored_exactly [OF inv, of 2 "[7, 8]"] obtain b' where
    "store_segment 2 [7, 8] (buffer_new 4) = Ok (b', Some 2)"
    "content b' = (\<lambda>pos. if pos \<in> stored 2 [7, 8] (buffer_new 4) then Some ([7, 8] ! (pos - 2))
       else content (buffer_new 4) pos)"
    by (auto simp: buffer_new_def)
  then show ?thesis by (simp add: stored_def buffer_new_def)
qed

text \<open>
  Reading.  If the next byte of the stream is there, reading returns the longest contiguous run
  of received bytes from the read head on, moves the read head behind it and forgets exactly those
  bytes; otherwise it returns nothing and changes nothing.
\<close>

theorem read_returns_longest_run:
  assumes "buffer_inv b"
  shows "if content b (sb_read_head b) = None then read_contiguous b = Ok (b, None)
    else \<exists>b' out. read_contiguous b = Ok (b', Some out) \<and> buffer_inv b' \<and> out \<noteq> []
      \<and> sb_read_head b' = sb_read_head b + length out
      \<and> (\<forall>k < length out. content b (sb_read_head b + k) = Some (out ! k))
      \<and> content b (sb_read_head b + length out) = None
      \<and> content b' = (\<lambda>pos. if pos < sb_read_head b' then None else content b pos)"
  using read_contiguous_none [OF assms] read_contiguous_some [OF assms] by auto

theorem read_returns_longest_run_witness:
  "\<exists>b b' out. buffer_inv b \<and> content b (sb_read_head b) \<noteq> None
     \<and> read_contiguous b = Ok (b', Some out) \<and> out \<noteq> []"
proof -
  let ?b = "\<lparr>sb_buffer = [5, 6, 0, 0], sb_capacity = 4, sb_read_head = 0, sb_write_head = 2,
     sb_received_ranges = [(0, 2)]\<rparr>"
  have "buffer_inv ?b" "content ?b (sb_read_head ?b) \<noteq> None"
    by (simp_all add: buffer_inv_def separated_def content_def)
  moreover from this read_returns_longest_run [of ?b]
  obtain b' out where "read_contiguous ?b = Ok (b', Some out)" "out \<noteq> []" by auto
  ultimately show ?thesis by blast
qed

text \<open>
  Enlarging the window re-maps the ring without a panic and without losing, moving or inventing
  a byte: the offsets received and the bytes at them stay the same.
\<close>

theorem resize_keeps_content:
  assumes "buffer_inv b" and "sb_write_head b \<le> sb_read_head b + new_capacity"
  shows "\<exists>b'. resize new_capacity b = Ok b' \<and> buffer_inv b' \<and> content b' = content b
    \<and> sb_capacity b' = new_capacity \<and> sb_read_head b' = sb_read_head b"
  using resize_preserves_content [OF assms] by blast

theorem resize_keeps_content_witness:
  "\<exists>b'. resize 7 \<lparr>sb_buffer = [9, 6, 7, 8], sb_capacity = 4, sb_read_head = 5, sb_write_head = 9,
       sb_received_ranges = [(6, 9)]\<rparr> = Ok b' \<and> content b' 8 = Some 9"
proof -
  let ?b = "\<lparr>sb_buffer = [9, 6, 7, 8], sb_capacity = 4, sb_read_head = 5, sb_write_head = 9,
       sb_received_ranges = [(6, 9)]\<rparr>"
  have "buffer_inv ?b" by (simp add: buffer_inv_def separated_def)
  from resize_keeps_content [OF this, of 7] obtain b' where "resize 7 ?b = Ok b'" "content b' = content ?b"
    by auto
  moreover have "content ?b 8 = Some 9" by (simp add: content_def)
  ultimately show ?thesis by auto
qed

end
