(* ===== verification/Zt_Unacked.thy ===== *)
theory Zt_Unacked
  imports Zt_Prelude Zt_Frame
begin

text \<open>
  Packets in flight: their payload descriptions (\<^verbatim>\<open>src/src/transport/state/unacked.rs\<close>) and the
  sliding window that holds them by packet number
  (\<^verbatim>\<open>src/src/transport/state/unacked_window.rs\<close>).  The window is a deque of optional packets whose
  first cell stands for packet \<open>base_pn\<close>; its abstract view is the finite map \<open>unacked_lookup\<close>.
\<close>

section \<open>Payloads and packets\<close>

datatype unacked_payload =
    UpInitial "bytes option"
  | UpStream u32 stream_type nat bytes
  | UpMtuProbe nat
  | UpStreamClose u32 nat
  | UpMaxStreamData u32 nat
  | UpResetStream u32 u64 nat
  | UpClose
  | UpConnectionCloseV2 u64 bytes
  | UpDatagram bytes

fun payload_len :: "unacked_payload \<Rightarrow> nat" where
  "payload_len (UpInitial _) = 0"
| "payload_len (UpStream _ _ _ data) = length data"
| "payload_len (UpDatagram data) = length data"
| "payload_len (UpMtuProbe target) = target"
| "payload_len (UpStreamClose _ _) = 0"
| "payload_len (UpMaxStreamData _ _) = 0"
| "payload_len (UpResetStream _ _ _) = 0"
| "payload_len (UpConnectionCloseV2 _ _) = 0"
| "payload_len UpClose = 0"

record unacked_packet =
  up_payload :: unacked_payload
  up_sent_at :: nat
  up_retries :: nat
  up_is_mtu_probe :: bool
  up_sent_bytes :: nat

section \<open>The window\<close>

record unacked_window =
  uw_base_pn :: nat
  uw_deque :: "unacked_packet option list"
  uw_len :: nat

definition unacked_new :: unacked_window where
  "unacked_new = \<lparr>uw_base_pn = 0, uw_deque = [], uw_len = 0\<rparr>"

definition unacked_insert :: "nat \<Rightarrow> unacked_packet \<Rightarrow> unacked_window \<Rightarrow> unacked_window" where
  "unacked_insert pn packet w =
     (let w = (if uw_len w = 0 \<and> uw_deque w = [] then w\<lparr>uw_base_pn := pn\<rparr> else w) in
      if pn < uw_base_pn w then w
      else
        let idx = pn - uw_base_pn w;
            deque = (if idx \<ge> length (uw_deque w)
                     then uw_deque w @ replicate (idx + 1 - length (uw_deque w)) None
                     else uw_deque w);
            len = (if deque ! idx = None then uw_len w + 1 else uw_len w)
        in w\<lparr>uw_deque := deque[idx := Some packet], uw_len := len\<rparr>)"

fun pop_front_empty :: "nat \<Rightarrow> unacked_packet option list \<Rightarrow> nat \<times> unacked_packet option list" where
  "pop_front_empty base_pn (None # deque) = pop_front_empty (base_pn + 1) deque"
| "pop_front_empty base_pn deque = (base_pn, deque)"

definition unacked_remove :: "nat \<Rightarrow> unacked_window \<Rightarrow> unacked_window \<times> unacked_packet option" where
  "unacked_remove pn w =
     (if pn < uw_base_pn w then (w, None)
      else
        let idx = pn - uw_base_pn w in
        if idx < length (uw_deque w) then
          let val = uw_deque w ! idx;
              len = (if val \<noteq> None then uw_len w - 1 else uw_len w);
              (base_pn, deque) = pop_front_empty (uw_base_pn w) ((uw_deque w)[idx := None])
          in (\<lparr>uw_base_pn = base_pn, uw_deque = deque, uw_len = len\<rparr>, val)
        else (w, None))"

definition unacked_clear :: "unacked_window \<Rightarrow> unacked_window" where
  "unacked_clear w = w\<lparr>uw_deque := [], uw_len := 0, uw_base_pn := 0\<rparr>"

definition unacked_lookup :: "unacked_window \<Rightarrow> nat \<Rightarrow> unacked_packet option" where
  "unacked_lookup w pn =
     (if pn < uw_base_pn w then None
      else
        let idx = pn - uw_base_pn w in
        if idx < length (uw_deque w) then uw_deque w ! idx else None)"

fun iter_slots :: "nat \<Rightarrow> unacked_packet option list \<Rightarrow> (nat \<times> unacked_packet) list" where
  "iter_slots pn [] = []"
| "iter_slots pn (Some p # slots) = (pn, p) # iter_slots (pn + 1) slots"
| "iter_slots pn (None # slots) = iter_slots (pn + 1) slots"

definition unacked_iter :: "unacked_window \<Rightarrow> (nat \<times> unacked_packet) list" where
  "unacked_iter w = iter_slots (uw_base_pn w) (uw_deque w)"

definition unacked_keys :: "unacked_window \<Rightarrow> nat list" where
  "unacked_keys w = map fst (unacked_iter w)"

text \<open>A history of the window: packets sent and packets taken out, acknowledged or lost.\<close>

datatype unacked_op = Sent nat unacked_packet | Settled nat

fun unacked_step :: "unacked_op \<Rightarrow> unacked_window \<Rightarrow> unacked_window" where
  "unacked_step (Sent pn p) w = unacked_insert pn p w"
| "unacked_step (Settled pn) w = fst (unacked_remove pn w)"

fun in_flight_step :: "unacked_op \<Rightarrow> (nat \<rightharpoonup> unacked_packet) \<Rightarrow> (nat \<rightharpoonup> unacked_packet)" where
  "in_flight_step (Sent pn p) m = m(pn \<mapsto> p)"
| "in_flight_step (Settled pn) m = m(pn := None)"

fun sent_pns :: "unacked_op list \<Rightarrow> nat list" where
  "sent_pns [] = []"
| "sent_pns (Sent pn p # ops) = pn # sent_pns ops"
| "sent_pns (Settled pn # ops) = sent_pns ops"

section \<open>A finite map of packets in flight\<close>

locale packet_map =
  fixes empty :: 'w
    and insert :: "nat \<Rightarrow> 'p \<Rightarrow> 'w \<Rightarrow> 'w"
    and remove :: "nat \<Rightarrow> 'w \<Rightarrow> 'w \<times> 'p option"
    and lookup :: "'w \<Rightarrow> nat \<Rightarrow> 'p option"
    and size :: "'w \<Rightarrow> nat"
    and invar :: "'w \<Rightarrow> bool"
  assumes empty_law: "invar empty" "lookup empty = (\<lambda>_. None)" "size empty = 0"
    and insert_invar: "invar w \<Longrightarrow> invar (insert pn p w)"
    and insert_law: "invar w \<Longrightarrow> (\<And>k. lookup w k \<noteq> None \<Longrightarrow> k \<le> pn) \<Longrightarrow>
      lookup (insert pn p w) = (lookup w)(pn := Some p)"
    and remove_law: "invar w \<Longrightarrow> remove pn w = (w', r) \<Longrightarrow>
      invar w' \<and> lookup w' = (lookup w)(pn := None) \<and> r = lookup w pn"
    and size_law: "invar w \<Longrightarrow> finite (dom (lookup w)) \<and> size w = card (dom (lookup w))"
begin

lemma remove_all:
  "invar w \<Longrightarrow> w' = fold (\<lambda>pn w. fst (remove pn w)) pns w \<Longrightarrow>
   invar w' \<and> lookup w' = (\<lambda>k. if k \<in> set pns then None else lookup w k)"
proof (induction pns arbitrary: w)
  case (Cons pn pns)
  obtain w1 r where r: "remove pn w = (w1, r)" by force
  from remove_law [OF Cons.prems(1) r] Cons.IH [of w1] Cons.prems(2) r show ?case
    by (auto simp: fun_eq_iff)
qed simp

lemma size_remove:
  assumes "invar w" and "remove pn w = (w', r)"
  shows "size w' = (if r = None then size w else size w - 1)"
proof -
  note rl = remove_law [OF assms]
  have d: "dom (lookup w') = dom (lookup w) - {pn}" using rl by (auto simp: dom_def)
  have "size w' = card (dom (lookup w) - {pn})" using size_law rl d by metis
  moreover have "pn \<in> dom (lookup w) \<longleftrightarrow> r \<noteq> None" using rl by (auto simp: domIff)
  ultimately show ?thesis using size_law [OF assms(1)] by (simp add: card_Diff_singleton_if)
qed

end

section \<open>The window implements the map\<close>

definition unacked_inv :: "unacked_window \<Rightarrow> bool" where
  "unacked_inv w \<longleftrightarrow> (uw_deque w \<noteq> [] \<longrightarrow> hd (uw_deque w) \<noteq> None)
     \<and> uw_len w = length (filter (\<lambda>slot. slot \<noteq> None) (uw_deque w))"

definition slot_at :: "nat \<Rightarrow> unacked_packet option list \<Rightarrow> nat \<Rightarrow> unacked_packet option" where
  "slot_at base d pn = (if base \<le> pn \<and> pn - base < length d then d ! (pn - base) else None)"

lemma lookup_slot_at: "unacked_lookup w = slot_at (uw_base_pn w) (uw_deque w)"
  by (auto simp: unacked_lookup_def slot_at_def fun_eq_iff Let_def)

lemma pop_front_empty_spec:
  "pop_front_empty base d = (base', d') \<Longrightarrow>
   slot_at base' d' = slot_at base d \<and> (d' \<noteq> [] \<longrightarrow> hd d' \<noteq> None)
   \<and> filter (\<lambda>s. s \<noteq> None) d' = filter (\<lambda>s. s \<noteq> None) d \<and> base \<le> base'"
proof (induction base d rule: pop_front_empty.induct)
  case (1 base d)
  then have IH: "slot_at base' d' = slot_at (base + 1) d \<and> (d' \<noteq> [] \<longrightarrow> hd d' \<noteq> None)
   \<and> filter (\<lambda>s. s \<noteq> None) d' = filter (\<lambda>s. s \<noteq> None) d \<and> base + 1 \<le> base'" by simp
  moreover have "slot_at (base + 1) d = slot_at base (None # d)"
    by (auto simp: slot_at_def fun_eq_iff nth_Cons' )
  ultimately show ?case by auto
qed auto

lemma count_update:
  "i < length d \<Longrightarrow> length (filter P (d[i := x])) + (if P (d ! i) then 1 else 0) = length (filter P d) + (if P x then 1 else 0)"
proof (induction d arbitrary: i)
  case (Cons a d)
  then show ?case by (cases i) auto
qed simp

lemma slot_at_update: "i < length d \<Longrightarrow> slot_at base (d[i := x]) = (slot_at base d)(base + i := x)"
  by (auto simp: slot_at_def fun_eq_iff nth_list_update)

lemma slot_at_extend: "slot_at base (d @ replicate n None) = slot_at base d"
  by (auto simp: slot_at_def fun_eq_iff nth_append)

lemma unacked_empty: "unacked_inv w \<Longrightarrow> uw_deque w = [] \<Longrightarrow> unacked_lookup w = (\<lambda>_. None) \<and> uw_len w = 0"
  by (auto simp: unacked_inv_def unacked_lookup_def fun_eq_iff Let_def)

lemma unacked_base: "unacked_inv w \<Longrightarrow> uw_deque w \<noteq> [] \<Longrightarrow> unacked_lookup w (uw_base_pn w) \<noteq> None"
  by (simp add: unacked_inv_def unacked_lookup_def hd_conv_nth)

lemma unacked_insert_spec:
  assumes "unacked_inv w"
  shows "unacked_inv (unacked_insert pn p w)
    \<and> unacked_lookup (unacked_insert pn p w) =
       (if uw_deque w \<noteq> [] \<and> pn < uw_base_pn w then unacked_lookup w else (unacked_lookup w)(pn := Some p))"
proof (cases "uw_deque w = []")
  case True
  then show ?thesis
    using unacked_empty [OF assms True]
    by (auto simp: unacked_insert_def unacked_inv_def unacked_lookup_def fun_eq_iff Let_def)
next
  case False
  show ?thesis
  proof (cases "pn < uw_base_pn w")
    case True
    then show ?thesis using assms False by (simp add: unacked_insert_def)
  next
    case ge: False
    define idx where "idx = pn - uw_base_pn w"
    define d where "d = (if idx \<ge> length (uw_deque w) then uw_deque w @ replicate (idx + 1 - length (uw_deque w)) None else uw_deque w)"
    have idx: "idx < length d" "uw_base_pn w + idx = pn" using ge by (auto simp: d_def idx_def)
    have d: "slot_at (uw_base_pn w) d = unacked_lookup w" "hd d = hd (uw_deque w)" "d \<noteq> []"
      "length (filter (\<lambda>s. s \<noteq> None) d) = uw_len w"
      using assms False by (auto simp: d_def slot_at_extend lookup_slot_at unacked_inv_def)
    have ins: "unacked_insert pn p w = w\<lparr>uw_deque := d[idx := Some p], uw_len := (if d ! idx = None then uw_len w + 1 else uw_len w)\<rparr>"
      using False ge by (simp add: unacked_insert_def Let_def idx_def [symmetric] d_def [symmetric])
    have "hd (d[idx := Some p]) \<noteq> None"
      using d assms False by (cases d; cases idx) (auto simp: unacked_inv_def)
    moreover have "length (filter (\<lambda>s. s \<noteq> None) (d[idx := Some p])) = (if d ! idx = None then uw_len w + 1 else uw_len w)"
      using count_update [OF idx(1), of "\<lambda>s. s \<noteq> None" "Some p"] d(4) by auto
    ultimately show ?thesis
      using slot_at_update [OF idx(1), of "uw_base_pn w" "Some p"] ge
      unfolding ins by (simp add: unacked_inv_def lookup_slot_at d(1) [unfolded lookup_slot_at] idx(2))
  qed
qed

lemma unacked_remove_spec:
  assumes inv: "unacked_inv w" and rm: "unacked_remove pn w = (w', r)"
  shows "unacked_inv w' \<and> unacked_lookup w' = (unacked_lookup w)(pn := None) \<and> r = unacked_lookup w pn"
proof (cases "uw_base_pn w \<le> pn \<and> pn - uw_base_pn w < length (uw_deque w)")
  case False
  then have "w' = w" "r = None" "unacked_lookup w pn = None"
    using rm by (auto simp: unacked_remove_def unacked_lookup_def Let_def split: if_splits)
  then show ?thesis using inv by (auto simp: fun_eq_iff)
next
  case True
  define idx where "idx = pn - uw_base_pn w"
  have idx: "idx < length (uw_deque w)" "uw_base_pn w + idx = pn" using True by (auto simp: idx_def)
  obtain base d where pop: "pop_front_empty (uw_base_pn w) ((uw_deque w)[idx := None]) = (base, d)" by force
  have w': "w' = \<lparr>uw_base_pn = base, uw_deque = d, uw_len = (if uw_deque w ! idx \<noteq> None then uw_len w - 1 else uw_len w)\<rparr>"
    and r: "r = uw_deque w ! idx"
    using rm True pop by (auto simp: unacked_remove_def Let_def idx_def)
  note ps = pop_front_empty_spec [OF pop]
  have "length (filter (\<lambda>s. s \<noteq> None) d) = (if uw_deque w ! idx \<noteq> None then uw_len w - 1 else uw_len w)"
    using count_update [OF idx(1), of "\<lambda>s. s \<noteq> None" None] ps inv by (auto simp: unacked_inv_def)
  then show ?thesis
    using ps slot_at_update [OF idx(1), of "uw_base_pn w" None] True idx
    by (auto simp: unacked_inv_def lookup_slot_at w' r slot_at_def)
qed

lemma unacked_card:
  assumes "unacked_inv w"
  shows "finite (dom (unacked_lookup w)) \<and> uw_len w = card (dom (unacked_lookup w))"
proof -
  have dom: "dom (unacked_lookup w) = (\<lambda>i. uw_base_pn w + i) ` {i. i < length (uw_deque w) \<and> uw_deque w ! i \<noteq> None}"
    by (auto simp: lookup_slot_at slot_at_def dom_def image_iff split: if_splits) (metis add_diff_inverse_nat not_le)
  have "card (dom (unacked_lookup w)) = card {i. i < length (uw_deque w) \<and> uw_deque w ! i \<noteq> None}"
    unfolding dom by (rule card_image) simp
  then show ?thesis using assms unfolding unacked_inv_def by (simp add: dom length_filter_conv_card)
qed

interpretation uw: packet_map unacked_new unacked_insert unacked_remove unacked_lookup uw_len unacked_inv
proof unfold_locales
  show "unacked_inv unacked_new" "unacked_lookup unacked_new = (\<lambda>_. None)" "uw_len unacked_new = 0"
    by (auto simp: unacked_inv_def unacked_new_def unacked_lookup_def fun_eq_iff)
  show "unacked_inv (unacked_insert pn p w)" if "unacked_inv w" for w pn p
    using unacked_insert_spec [OF that] by simp
  show "unacked_lookup (unacked_insert pn p w) = (unacked_lookup w)(pn := Some p)"
    if "unacked_inv w" "\<And>k. unacked_lookup w k \<noteq> None \<Longrightarrow> k \<le> pn" for w pn p
    using unacked_insert_spec [OF that(1)] unacked_base [OF that(1)] that(2) by fastforce
qed (use unacked_remove_spec unacked_card in auto)

lemma slot_at_Cons: "slot_at base (x # d) k = (if k = base then x else slot_at (base + 1) d k)"
  by (auto simp: slot_at_def nth_Cons' Suc_le_eq)

lemma iter_slots_set: "(k, p) \<in> set (iter_slots base d) \<longleftrightarrow> slot_at base d k = Some p"
proof (induction base d rule: iter_slots.induct)
  case (2 base q d)
  have "slot_at (base + 1) d base = None" by (simp add: slot_at_def)
  with 2 show ?case by (auto simp: slot_at_Cons)
next
  case (3 base d)
  have "slot_at (base + 1) d base = None" by (simp add: slot_at_def)
  with 3 show ?case by (auto simp: slot_at_Cons)
qed (simp add: slot_at_def)

lemma iter_slots_sorted:
  "sorted_wrt (<) (map fst (iter_slots base d)) \<and> (\<forall>k\<in>set (map fst (iter_slots base d)). base \<le> k)"
  by (induction base d rule: iter_slots.induct) (auto simp: Suc_le_eq intro: less_imp_le)

lemma unacked_iter_set: "set (unacked_iter w) = {(k, p). unacked_lookup w k = Some p}"
  using iter_slots_set by (auto simp: unacked_iter_def lookup_slot_at)

lemma unacked_keys_sorted: "sorted_wrt (<) (unacked_keys w)"
  using iter_slots_sorted by (simp add: unacked_keys_def unacked_iter_def)

lemma sent_pns_append [simp]: "sent_pns (xs @ ys) = sent_pns xs @ sent_pns ys"
  by (induction xs rule: sent_pns.induct) auto

section \<open>Properties\<close>

text \<open>
  C19: as long as packet numbers are used in increasing order, the deque with its moving base holds
  exactly the packets sent and not yet settled, each under its own number, and its counter is
  their number, whatever the order in which they are settled.
\<close>

theorem unacked_window_refines_map:
  assumes "sorted_wrt (<) (sent_pns ops)"
  defines "w \<equiv> fold unacked_step ops unacked_new" and "m \<equiv> fold in_flight_step ops Map.empty"
  shows "unacked_lookup w = m \<and> uw_len w = card (dom m)
    \<and> set (unacked_iter w) = {(pn, p). m pn = Some p} \<and> sorted_wrt (<) (unacked_keys w)"
proof -
  have "unacked_inv (fold unacked_step ops unacked_new)
    \<and> unacked_lookup (fold unacked_step ops unacked_new) = fold in_flight_step ops Map.empty
    \<and> dom (fold in_flight_step ops Map.empty) \<subseteq> set (sent_pns ops)"
    using assms(1)
  proof (induction ops rule: rev_induct)
    case Nil
    then show ?case by (simp add: uw.empty_law)
  next
    case (snoc op ops)
    then have IH: "unacked_inv (fold unacked_step ops unacked_new)"
      "unacked_lookup (fold unacked_step ops unacked_new) = fold in_flight_step ops Map.empty"
      "dom (fold in_flight_step ops Map.empty) \<subseteq> set (sent_pns ops)"
      by (auto simp: sorted_wrt_append)
    show ?case
    proof (cases op)
      case (Sent pn p)
      have "k \<le> pn" if "unacked_lookup (fold unacked_step ops unacked_new) k \<noteq> None" for k
        using that IH(2,3) snoc.prems Sent by (fastforce simp: sorted_wrt_append)
      from uw.insert_law [OF IH(1) this] show ?thesis
        using IH(1,2) subsetD [OF IH(3)] Sent uw.insert_invar [OF IH(1)] by (fastforce split: if_splits)
    next
      case (Settled pn)
      obtain w' r where "unacked_remove pn (fold unacked_step ops unacked_new) = (w', r)" by force
      with uw.remove_law [OF IH(1) this] show ?thesis
        using IH(2) subsetD [OF IH(3)] Settled by (fastforce split: if_splits)
    qed
  qed
  then show ?thesis
    using unacked_card unacked_iter_set unacked_keys_sorted unfolding w_def m_def by metis
qed

theorem unacked_window_refines_map_witness:
  "\<exists>p. uw_len (fold unacked_step [Sent 3 p, Sent 5 p, Sent 6 p, Settled 3] unacked_new) = 2"
proof -
  let ?p = "\<lparr>up_payload = UpClose, up_sent_at = 0, up_retries = 0, up_is_mtu_probe = False, up_sent_bytes = 40\<rparr>"
  let ?ops = "[Sent 3 ?p, Sent 5 ?p, Sent 6 ?p, Settled 3]"
  have "sorted_wrt (<) (sent_pns ?ops)" by simp
  note r = unacked_window_refines_map [OF this]
  have "dom (fold in_flight_step ?ops Map.empty) = {5, 6}" by auto
  then have "card (dom (fold in_flight_step ?ops Map.empty)) = 2" by simp
  with r show ?thesis by metis
qed

end
