(* ===== verification/Zt_F64.thy ===== *)
theory Zt_F64
  imports Complex_Main Zt_Prelude
begin

text \<open>
  The binary64 arithmetic the sources use (\<^verbatim>\<open>f64\<close> in the congestion controller, the loss timer and
  the pacer): values are rationals, infinities or NaN, and every operation rounds its exact result
  to nearest, ties to even, with 53 significant bits, gradual underflow at \<open>2\<^sup>-\<^sup>1\<^sup>0\<^sup>7\<^sup>4\<close> and overflow at
  \<open>2\<^sup>1\<^sup>0\<^sup>2\<^sup>4\<close>.  The sign of a zero is not represented: no code under \<^verbatim>\<open>src/\<close> divides by a zero of
  either sign or reads the sign of one.  \<^verbatim>\<open>powi\<close> and \<^verbatim>\<open>cbrt\<close> have no specified precision in Rust and are
  the fields of a record that every user takes as an argument.  The lemmas bound the rounding
  error and give the exactness of small integers.
\<close>

section \<open>Definitions\<close>

datatype f64 = Finite rat | PosInf | NegInf | NaN

definition round_half_even :: "rat \<Rightarrow> int" where
  "round_half_even x =
     (let f = \<lfloor>x\<rfloor>; d = x - of_int f in
      if d < 1/2 then f else if 1/2 < d then f + 1 else if even f then f else f + 1)"

definition floor_log2 :: "rat \<Rightarrow> int" where
  "floor_log2 x =
     (let (n, d) = quotient_of x;
          e = int (bit_len (nat n)) - int (bit_len (nat d))
      in if 2 powi e \<le> x then e else e - 1)"

definition round_pos :: "rat \<Rightarrow> rat" where
  "round_pos x =
     (let q = max (floor_log2 x - 52) (-1074)
      in of_int (round_half_even (x / 2 powi q)) * 2 powi q)"

definition round_f64 :: "rat \<Rightarrow> f64" where
  "round_f64 x =
     (if x = 0 then Finite 0
      else let r = round_pos \<bar>x\<bar> in
        if 2 ^ 1024 \<le> r then (if 0 < x then PosInf else NegInf)
        else Finite (if 0 < x then r else - r))"

fun signed_inf :: "rat \<Rightarrow> f64" where
  "signed_inf s = (if 0 < s then PosInf else if s < 0 then NegInf else NaN)"

fun f64_sgn :: "f64 \<Rightarrow> rat" where
  "f64_sgn (Finite a) = sgn a"
| "f64_sgn PosInf = 1"
| "f64_sgn NegInf = -1"
| "f64_sgn NaN = 0"

fun f64_add :: "f64 \<Rightarrow> f64 \<Rightarrow> f64" where
  "f64_add (Finite a) (Finite b) = round_f64 (a + b)"
| "f64_add (Finite a) b = b"
| "f64_add a (Finite b) = a"
| "f64_add PosInf PosInf = PosInf"
| "f64_add NegInf NegInf = NegInf"
| "f64_add _ _ = NaN"

fun f64_neg :: "f64 \<Rightarrow> f64" where
  "f64_neg (Finite a) = Finite (- a)"
| "f64_neg PosInf = NegInf"
| "f64_neg NegInf = PosInf"
| "f64_neg NaN = NaN"

definition f64_sub :: "f64 \<Rightarrow> f64 \<Rightarrow> f64" where
  "f64_sub a b = f64_add a (f64_neg b)"

fun f64_mul :: "f64 \<Rightarrow> f64 \<Rightarrow> f64" where
  "f64_mul (Finite a) (Finite b) = round_f64 (a * b)"
| "f64_mul a b = signed_inf (f64_sgn a * f64_sgn b)"

fun f64_div :: "f64 \<Rightarrow> f64 \<Rightarrow> f64" where
  "f64_div (Finite a) (Finite b) = (if b = 0 then signed_inf a else round_f64 (a / b))"
| "f64_div NaN _ = NaN"
| "f64_div _ NaN = NaN"
| "f64_div (Finite a) _ = Finite 0"
| "f64_div a (Finite b) = signed_inf (f64_sgn a * (if b < 0 then -1 else 1))"
| "f64_div _ _ = NaN"

fun f64_less :: "f64 \<Rightarrow> f64 \<Rightarrow> bool" where
  "f64_less (Finite a) (Finite b) = (a < b)"
| "f64_less NaN _ = False"
| "f64_less _ NaN = False"
| "f64_less (Finite a) b = (b = PosInf)"
| "f64_less a (Finite b) = (a = NegInf)"
| "f64_less a b = (a = NegInf \<and> b = PosInf)"

definition f64_max :: "f64 \<Rightarrow> f64 \<Rightarrow> f64" where
  "f64_max a b = (if a = NaN then b else if b = NaN then a else if f64_less a b then b else a)"

definition usize_as_f64 :: "nat \<Rightarrow> f64" where
  "usize_as_f64 n = round_f64 (of_nat n)"

fun f64_as_usize :: "f64 \<Rightarrow> nat" where
  "f64_as_usize (Finite a) = min (nat \<lfloor>a\<rfloor>) u64_max"
| "f64_as_usize PosInf = u64_max"
| "f64_as_usize NegInf = 0"
| "f64_as_usize NaN = 0"

text \<open>Durations are nanoseconds; these are the conversions of \<^verbatim>\<open>std::time::Duration\<close>.\<close>

definition as_secs_f64 :: "nat \<Rightarrow> f64" where
  "as_secs_f64 d =
     f64_add (usize_as_f64 (d div 1000000000))
       (f64_div (usize_as_f64 (d mod 1000000000)) (usize_as_f64 1000000000))"

fun from_secs_f64 :: "f64 \<Rightarrow> nat outcome" where
  "from_secs_f64 (Finite a) =
     (if a < 0 \<or> 2 ^ 64 \<le> a then Panic else Ok (nat (round_half_even (a * 1000000000))))"
| "from_secs_f64 _ = Panic"

definition mul_f64 :: "nat \<Rightarrow> f64 \<Rightarrow> nat outcome" where
  "mul_f64 d rhs = from_secs_f64 (f64_mul rhs (as_secs_f64 d))"

record f64_lib =
  fl_powi :: "f64 \<Rightarrow> nat \<Rightarrow> f64"
  fl_cbrt :: "f64 \<Rightarrow> f64"

section \<open>Rounding to an integer\<close>

lemma round_half_even_error: "\<bar>of_int (round_half_even x) - x\<bar> \<le> 1/2"
proof -
  have "of_int \<lfloor>x\<rfloor> \<le> x" "x < of_int \<lfloor>x\<rfloor> + 1" by linarith+
  then show ?thesis by (auto simp: round_half_even_def Let_def)
qed

lemma round_half_even_int [simp]: "round_half_even (of_int k) = k"
  by (simp add: round_half_even_def)

lemma round_half_even_nonneg: "0 \<le> x \<Longrightarrow> 0 \<le> round_half_even x"
  by (auto simp: round_half_even_def Let_def)

section \<open>The binary exponent\<close>

lemma bit_len_bounds:
  assumes "0 < n"
  shows "2 ^ (bit_len n - 1) \<le> n" and "n < 2 ^ bit_len n" and "0 < bit_len n"
proof -
  show "n < 2 ^ bit_len n" by (rule less_exp_bit_len)
  show p: "0 < bit_len n" using assms bit_len_less_iff [of n 0] by simp
  have "\<not> bit_len n \<le> bit_len n - 1" using p by linarith
  then show "2 ^ (bit_len n - 1) \<le> n" unfolding bit_len_less_iff [symmetric] by simp
qed

lemma powi_bit_len_rat:
  assumes "0 < n"
  shows "2 powi (int (bit_len (nat n)) - 1) \<le> (of_int n :: rat)"
    and "(of_int n :: rat) < 2 powi int (bit_len (nat n))"
proof -
  define m where "m = nat n"
  have m: "0 < m" "of_int n = (of_nat m :: rat)" using assms by (simp_all add: m_def)
  note b = bit_len_bounds [OF m(1)]
  have lo: "of_nat (2 ^ (bit_len m - 1)) \<le> (of_nat m :: rat)" using b(1) by (simp only: of_nat_le_iff)
  have e: "int (bit_len m) - 1 = int (bit_len m - 1)" using b(3) by linarith
  show "2 powi (int (bit_len (nat n)) - 1) \<le> (of_int n :: rat)"
    unfolding m(2) m_def [symmetric] e power_int_of_nat using lo by (simp only: of_nat_power of_nat_numeral)
  have hi: "of_nat m < (of_nat (2 ^ bit_len m) :: rat)" using b(2) by (simp only: of_nat_less_iff)
  show "(of_int n :: rat) < 2 powi int (bit_len (nat n))"
    unfolding m(2) m_def [symmetric] power_int_of_nat using hi by (simp only: of_nat_power of_nat_numeral)
qed

lemma floor_log2_bounds:
  assumes "0 < x"
  shows "2 powi floor_log2 x \<le> x" and "x < 2 powi (floor_log2 x + 1)"
proof -
  obtain n d where nd: "quotient_of x = (n, d)" by force
  have d: "0 < d" and x: "x = of_int n / of_int d"
    using quotient_of_denom_pos [OF nd] quotient_of_div [OF nd] by auto
  then have n: "0 < n" using assms by (simp add: zero_less_divide_iff)
  define a b where "a = int (bit_len (nat n))" and "b = int (bit_len (nat d))"
  note bn = powi_bit_len_rat [OF n, folded a_def] and bd = powi_bit_len_rat [OF d, folded b_def]
  have "x < 2 powi a / 2 powi (b - 1)"
    unfolding x using bn bd d n by (intro frac_less) (auto intro: zero_less_power_int)
  moreover have "2 powi (a - 1) / 2 powi b \<le> x"
    unfolding x using bn bd d n by (intro frac_le) auto
  ultimately have "2 powi (a - b - 1) \<le> x" "x < 2 powi (a - b + 1)"
    by (simp_all add: power_int_diff power_int_add)
  moreover have "floor_log2 x = (if 2 powi (a - b) \<le> x then a - b else a - b - 1)"
    by (simp add: floor_log2_def nd a_def b_def)
  ultimately show "2 powi floor_log2 x \<le> x" "x < 2 powi (floor_log2 x + 1)" by auto
qed

section \<open>Rounding to 53 bits\<close>

lemma round_pos_error:
  assumes "0 < x" and q: "q = max (floor_log2 x - 52) (-1074)"
  shows "\<bar>round_pos x - x\<bar> \<le> 2 powi q / 2" and "0 \<le> round_pos x"
proof -
  define u where "u = (2 powi q :: rat)"
  have u: "0 < u" by (simp add: u_def)
  have r: "round_pos x = of_int (round_half_even (x / u)) * u"
    by (simp add: round_pos_def q u_def Let_def)
  have "round_pos x - x = (of_int (round_half_even (x / u)) - x / u) * u"
    using u by (simp add: r left_diff_distrib)
  then have "\<bar>round_pos x - x\<bar> = \<bar>of_int (round_half_even (x / u)) - x / u\<bar> * u"
    using u by (simp add: abs_mult)
  also have "\<dots> \<le> 1/2 * u" using round_half_even_error u by (intro mult_right_mono) auto
  finally show "\<bar>round_pos x - x\<bar> \<le> 2 powi q / 2" by (simp add: u_def)
  show "0 \<le> round_pos x" using u assms(1) by (simp add: r round_half_even_nonneg)
qed

lemma powi_less_imp_less: "(2::rat) powi a < 2 powi b \<Longrightarrow> a < b"
  using power_int_increasing [of b a "2 :: rat"] by linarith

lemma floor_log2_mono_powi:
  assumes "2 powi k \<le> x"
  shows "k \<le> floor_log2 x"
proof -
  have "(0::rat) < 2 powi k" by simp
  then have "0 < x" using assms by linarith
  then have "(2::rat) powi k < 2 powi (floor_log2 x + 1)"
    using assms floor_log2_bounds(2) by (rule_tac le_less_trans)
  then have "k < floor_log2 x + 1"
    by (rule powi_less_imp_less)
  then show ?thesis by simp
qed

lemma round_pos_relative_error:
  assumes "2 powi (-1022) \<le> x"
  shows "\<bar>round_pos x - x\<bar> \<le> x / 2 ^ 53"
proof -
  have "(0::rat) < 2 powi (-1022)" by simp
  then have x: "0 < x" using assms by linarith
  have "-1022 \<le> floor_log2 x" by (rule floor_log2_mono_powi [OF assms])
  then have "floor_log2 x - 52 = max (floor_log2 x - 52) (-1074)" by simp
  note e = round_pos_error(1) [OF x this]
  also have "2 powi (floor_log2 x - 52) / 2 = (2 powi floor_log2 x / 2 ^ 53 :: rat)"
    by (simp add: power_int_diff)
  also have "\<dots> \<le> x / 2 ^ 53" using floor_log2_bounds(1) [OF x] by (intro divide_right_mono) auto
  finally show ?thesis .
qed

lemma round_f64_normal:
  assumes "2 powi (-1022) \<le> x" and "x \<le> 2 ^ 1000"
  shows "\<exists>r. round_f64 x = Finite r \<and> \<bar>r - x\<bar> \<le> x / 2 ^ 53 \<and> 0 \<le> r"
proof -
  have "(0::rat) < 2 powi (-1022)" by simp
  then have x: "0 < x" using assms by linarith
  note e = round_pos_relative_error [OF assms(1)]
  have "x / 2 ^ 53 \<le> x" using x by (simp add: field_simps)
  then have "round_pos x \<le> 2 * x" using e by linarith
  also have "\<dots> \<le> 2 * 2 ^ 1000" using assms(2) by simp
  also have "\<dots> < 2 ^ 1024" by simp
  finally have "round_f64 x = Finite (round_pos x)" using x by (simp add: round_f64_def Let_def)
  then show ?thesis using e round_pos_error(2) [OF x refl] by blast
qed

text \<open>Integers up to \<open>2\<^sup>5\<^sup>3\<close> are represented exactly.\<close>

lemma usize_as_f64_exact:
  assumes "n < 2 ^ 53"
  shows "usize_as_f64 n = Finite (of_nat n)"
proof (cases "n = 0")
  case True
  then show ?thesis by (simp add: usize_as_f64_def round_f64_def)
next
  case False
  define x where "x = (of_nat n :: rat)"
  have x: "0 < x" "2 powi 0 \<le> x" using False by (simp_all add: x_def)
  have "x < 2 ^ 53" using assms by (simp add: x_def flip: of_nat_less_iff)
  then have "(2::rat) powi floor_log2 x < 2 powi 53"
    using floor_log2_bounds(1) [OF x(1)] by simp
  then have "floor_log2 x < 53" by (rule powi_less_imp_less)
  moreover have "0 \<le> floor_log2 x" by (rule floor_log2_mono_powi [OF x(2)])
  ultimately have "max (floor_log2 x - 52) (-1074) = - int (nat (52 - floor_log2 x))" by simp
  then obtain k where k: "max (floor_log2 x - 52) (-1074) = - int k" by blast
  have "x / 2 powi (- int k) = of_int (int n * 2 ^ k)"
    by (simp add: x_def power_int_minus divide_inverse)
  then have "round_pos x = of_int (int n * 2 ^ k) * 2 powi (- int k)"
    by (simp only: round_pos_def k Let_def round_half_even_int)
  then have "round_pos x = x" by (simp add: power_int_minus x_def)
  moreover have "x < 2 ^ 1024" using \<open>x < 2 ^ 53\<close> by simp
  ultimately show ?thesis using x(1) by (simp add: usize_as_f64_def round_f64_def x_def Let_def)
qed

text \<open>Scaling an integer by a constant of moderate size: two roundings, each of relative size \<open>2\<^sup>-\<^sup>5\<^sup>3\<close>.\<close>

lemma powi_1022_small: "(2::rat) powi (-1022) \<le> 1 / 1024"
proof -
  have "(2::rat) powi (-1022) \<le> 2 powi (-10)" by (rule power_int_increasing) simp_all
  also have "(2::rat) powi (-10) = 1 / 1024" by (simp add: power_int_minus)
  finally show ?thesis .
qed

lemma f64_scale_error:
  assumes n: "n < 2 ^ 53" and k: "1/16 \<le> k" "k \<le> 16"
  obtains r where "f64_mul (usize_as_f64 n) (round_f64 k) = Finite r"
    and "\<bar>r - of_nat n * k\<bar> \<le> of_nat n * k / 2 ^ 51" and "0 \<le> r"
proof -
  obtain b where b: "round_f64 k = Finite b" "\<bar>b - k\<bar> \<le> k / 2 ^ 53" "0 \<le> b"
  proof -
    have "2 powi (-1022) \<le> k" using powi_1022_small k by linarith
    moreover have "k \<le> 2 ^ 1000" using k(2) by (rule order_trans) simp
    ultimately show thesis using round_f64_normal that by blast
  qed
  have mul: "f64_mul (usize_as_f64 n) (round_f64 k) = round_f64 (of_nat n * b)"
    by (simp add: usize_as_f64_exact [OF n] b(1))
  show thesis
  proof (cases "n = 0")
    case True
    then show ?thesis using that [of 0] mul by (simp add: round_f64_def)
  next
    case False
    define x where "x = (of_nat n :: rat)"
    have x: "1 \<le> x" using False by (simp add: x_def)
    have xn: "x < 2 ^ 53" using n by (simp add: x_def flip: of_nat_less_iff)
    have p: "(2::rat) ^ 53 = 9007199254740992" "(2::rat) ^ 51 = 2251799813685248" by simp_all
    have bb1: "1/32 \<le> b" using abs_le_D2 [OF b(2)] k unfolding p by linarith
    have bb2: "b \<le> 32" using abs_le_D1 [OF b(2)] k unfolding p by linarith
    have "1/32 \<le> x * b" using mult_mono [OF x bb1] x by simp
    then have lo: "2 powi (-1022) \<le> x * b" using powi_1022_small by linarith
    have "x * b \<le> 2 ^ 53 * 32" using mult_mono [OF less_imp_le [OF xn] bb2] bb1 by simp
    also have "\<dots> \<le> 2 ^ 1000" by simp
    finally obtain r where r: "round_f64 (x * b) = Finite r" "\<bar>r - x * b\<bar> \<le> x * b / 2 ^ 53" "0 \<le> r"
      using round_f64_normal [OF lo] by blast
    have "\<bar>x * b - x * k\<bar> = x * \<bar>b - k\<bar>" using x by (simp add: abs_mult flip: right_diff_distrib)
    also have "\<dots> \<le> x * (k / 2 ^ 53)" using b(2) x by (intro mult_left_mono) auto
    finally have e: "\<bar>x * b - x * k\<bar> \<le> x * k / 2 ^ 53" by simp
    moreover have "0 \<le> x * k" using x k by simp
    ultimately have "\<bar>r - x * k\<bar> \<le> x * k / 2 ^ 51" using r(2) unfolding p by linarith
    then show ?thesis using that r mul by (simp add: x_def)
  qed
qed

lemma round_f64_bounded:
  assumes "0 \<le> x" and "x \<le> 2 ^ 1000"
  shows "\<exists>r. round_f64 x = Finite r \<and> 0 \<le> r \<and> r \<le> 2 * x + 1"
proof (cases "x = 0 \<or> 2 powi (-1022) \<le> x")
  case True
  then consider "x = 0" | "2 powi (-1022) \<le> x" by blast
  then show ?thesis
  proof cases
    case 2
    then obtain r where r: "round_f64 x = Finite r" "\<bar>r - x\<bar> \<le> x / 2 ^ 53" "0 \<le> r"
      using round_f64_normal assms(2) by blast
    have "x / 2 ^ 53 \<le> x" using assms(1) by (simp add: field_simps)
    then show ?thesis using r abs_le_D1 [OF r(2)] assms(1) by (intro exI [of _ r]) linarith
  qed (simp add: round_f64_def)
next
  case False
  then have x: "0 < x" "x < 2 powi (-1022)" using assms(1) by auto
  have "2 powi floor_log2 x < (2 powi (-1022) :: rat)"
    using floor_log2_bounds(1) [OF x(1)] x(2) by (rule le_less_trans)
  then have "max (floor_log2 x - 52) (-1074) \<le> 0" using powi_less_imp_less [of "floor_log2 x" "-1022"] by simp
  then have "2 powi max (floor_log2 x - 52) (-1074) \<le> (2 powi 0 :: rat)" by (rule power_int_increasing) simp
  then have r: "\<bar>round_pos x - x\<bar> \<le> 1" "0 \<le> round_pos x"
    using round_pos_error [OF x(1) refl] by auto
  have "x < 1" using x(2) powi_1022_small by linarith
  then have "round_pos x \<le> 2" using r(1) by linarith
  also have "(2::rat) < 2 ^ 1024" by simp
  finally have "round_f64 x = Finite (round_pos x)" using x by (simp add: round_f64_def Let_def)
  then show ?thesis using r x(1) by auto
qed

lemma mul_f64_not_Panic:
  assumes d: "d < 2 ^ 52" and k: "0 \<le> k" "k \<le> 16" "round_f64 k = Finite k"
  shows "\<exists>t. mul_f64 d (round_f64 k) = Ok t"
proof -
  have q: "d div 1000000000 < 2 ^ 53" "d mod 1000000000 < (2 ^ 53 :: nat)" using d by simp_all
  have m: "(of_nat (d mod 1000000000) :: rat) / 1000000000 \<le> 1" by simp
  obtain a where a: "round_f64 (of_nat (d mod 1000000000) / 1000000000) = Finite a" "0 \<le> a" "a \<le> 3"
    using round_f64_bounded [of "of_nat (d mod 1000000000) / 1000000000"] m by fastforce
  have b: "(of_nat (d div 1000000000) :: rat) < 2 ^ 52"
    using d by (simp flip: of_nat_less_iff add: le_less_trans [OF div_le_dividend])
  have "as_secs_f64 d = round_f64 (of_nat (d div 1000000000) + a)"
    using usize_as_f64_exact [OF q(1)] usize_as_f64_exact [OF q(2)] usize_as_f64_exact [of 1000000000] a(1)
    by (simp add: as_secs_f64_def)
  moreover have "of_nat (d div 1000000000) + a \<le> 2 ^ 53" using a b by simp
  ultimately obtain s where s: "as_secs_f64 d = Finite s" "0 \<le> s" "s \<le> 2 ^ 55"
    using round_f64_bounded [of "of_nat (d div 1000000000) + a"] a(2) by fastforce
  have "k * s \<le> 16 * 2 ^ 55" using mult_mono [OF k(2) s(3)] s k by simp
  then obtain r where "round_f64 (k * s) = Finite r" "0 \<le> r" "r < 2 ^ 64"
    using round_f64_bounded [of "k * s"] s k by fastforce
  then show ?thesis using s by (auto simp: mul_f64_def k(3))
qed

end
