(* ===== verification/Zt_Congestion.thy ===== *)
theory Zt_Congestion
  imports Zt_F64 Zt_Config
begin

text \<open>
  The two congestion controllers of \<^verbatim>\<open>src/src/transport/congestion.rs\<close> and their common trait.  Byte
  counts are naturals with the overflow checks of the source, times are nanoseconds on one
  monotonic clock (\<^verbatim>\<open>Instant::duration_since\<close> saturates at zero, as subtraction of naturals does),
  and the cubic curve is computed in the binary64 arithmetic of \<open>Zt_F64\<close>.  The boxed trait object is
  the sum type \<open>congestion_controller\<close>; what its users rely on is the locale \<open>congestion_control\<close>,
  interpreted on that sum.
\<close>

section \<open>CUBIC\<close>

record cubic_controller =
  cu_cwnd :: nat
  cu_ssthresh :: nat
  cu_mtu :: nat
  cu_cubic_w_max :: f64
  cu_cubic_k :: f64
  cu_last_congestion_time :: "nat option"
  cu_last_cubic_update :: "nat option"
  cu_cubic_epoch_start :: "nat option"
  cu_target_cwnd :: nat

definition cubic_new :: "nat \<Rightarrow> nat \<Rightarrow> cubic_controller" where
  "cubic_new initial_cwnd mtu =
     \<lparr>cu_cwnd = initial_cwnd, cu_ssthresh = u64_max, cu_mtu = mtu,
      cu_cubic_w_max = Finite 0, cu_cubic_k = Finite 0,
      cu_last_congestion_time = None, cu_last_cubic_update = None, cu_cubic_epoch_start = None,
      cu_target_cwnd = initial_cwnd\<rparr>"

definition cubic_update_target :: "f64_lib \<Rightarrow> nat \<Rightarrow> cubic_controller \<Rightarrow> cubic_controller" where
  "cubic_update_target fl now cc =
     (let c = round_f64 (4/10);
          t = (case cu_cubic_epoch_start cc of None \<Rightarrow> Finite 0 | Some epoch \<Rightarrow> as_secs_f64 (now - epoch));
          w_cubic_pkts = f64_add (f64_mul c (fl_powi fl (f64_sub t (cu_cubic_k cc)) 3)) (cu_cubic_w_max cc)
      in cc\<lparr>cu_last_cubic_update := Some now,
            cu_target_cwnd := f64_as_usize (f64_max (f64_mul w_cubic_pkts (usize_as_f64 (cu_mtu cc))) (Finite 0))\<rparr>)"

definition cubic_on_packet_acked ::
  "f64_lib \<Rightarrow> nat \<Rightarrow> nat \<Rightarrow> nat \<Rightarrow> cubic_controller \<Rightarrow> cubic_controller outcome" where
  "cubic_on_packet_acked fl bytes_acked rtt now cc =
     (if cu_cwnd cc < cu_ssthresh cc
      then obind (add64 (cu_cwnd cc) bytes_acked) (\<lambda>w. Ok (cc\<lparr>cu_cwnd := w\<rparr>))
      else
        let cc = (if cu_cubic_epoch_start cc = None then cc\<lparr>cu_cubic_epoch_start := Some now\<rparr> else cc);
            should_update = (case cu_last_cubic_update cc of Some updated \<Rightarrow> rtt \<le> now - updated | None \<Rightarrow> True);
            cc = (if should_update then cubic_update_target fl now cc else cc);
            target_cwnd = cu_target_cwnd cc
        in obind (mul64 (cu_mtu cc) bytes_acked) (\<lambda>product.
           if max (cu_cwnd cc) (cu_mtu cc) = 0 then Panic
           else
             let reno_inc = product div max (cu_cwnd cc) (cu_mtu cc) in
             obind (add64 (cu_cwnd cc)
                      (if target_cwnd > cu_cwnd cc
                       then min (min (target_cwnd - cu_cwnd cc) bytes_acked) (cu_mtu cc)
                       else reno_inc))
               (\<lambda>w. Ok (cc\<lparr>cu_cwnd := w\<rparr>))))"

definition cubic_on_congestion_event ::
  "f64_lib \<Rightarrow> nat \<Rightarrow> nat \<Rightarrow> cubic_controller \<Rightarrow> cubic_controller outcome" where
  "cubic_on_congestion_event fl rtt now cc =
     (if (case cu_last_congestion_time cc of Some last_loss \<Rightarrow> now - last_loss < rtt | None \<Rightarrow> False)
      then Ok cc
      else
        let cc = cc\<lparr>cu_last_congestion_time := Some now\<rparr>;
            beta = round_f64 (7/10);
            c = round_f64 (4/10);
            current_cwnd_pkts = f64_div (usize_as_f64 (cu_cwnd cc)) (usize_as_f64 (cu_mtu cc));
            w_max = (if f64_less current_cwnd_pkts (cu_cubic_w_max cc)
                     then f64_div (f64_mul current_cwnd_pkts (f64_add (Finite 1) beta)) (Finite 2)
                     else current_cwnd_pkts)
        in obind (mul64 (cu_mtu cc) 2) (\<lambda>floor.
           let ssthresh = max (f64_as_usize (f64_mul (usize_as_f64 (cu_cwnd cc)) beta)) floor;
               k = fl_cbrt fl (f64_div (f64_mul w_max (f64_sub (Finite 1) beta)) c)
           in Ok (cc\<lparr>cu_cubic_w_max := w_max, cu_ssthresh := ssthresh, cu_cwnd := ssthresh,
                     cu_cubic_k := k, cu_cubic_epoch_start := None, cu_last_cubic_update := None\<rparr>)))"

section \<open>Reno\<close>

record reno_controller =
  re_cwnd :: nat
  re_ssthresh :: nat
  re_mtu :: nat
  re_last_congestion_time :: "nat option"

definition reno_new :: "nat \<Rightarrow> nat \<Rightarrow> reno_controller" where
  "reno_new initial_cwnd mtu =
     \<lparr>re_cwnd = initial_cwnd, re_ssthresh = u64_max, re_mtu = mtu, re_last_congestion_time = None\<rparr>"

definition reno_on_packet_acked :: "nat \<Rightarrow> nat \<Rightarrow> nat \<Rightarrow> reno_controller \<Rightarrow> reno_controller outcome" where
  "reno_on_packet_acked bytes_acked rtt now cc =
     (if re_cwnd cc < re_ssthresh cc
      then obind (add64 (re_cwnd cc) bytes_acked) (\<lambda>w. Ok (cc\<lparr>re_cwnd := w\<rparr>))
      else obind (mul64 (re_mtu cc) bytes_acked) (\<lambda>product.
           if max (re_cwnd cc) (re_mtu cc) = 0 then Panic
           else
             let increment = product div max (re_cwnd cc) (re_mtu cc) in
             obind (add64 (re_cwnd cc) (max increment 1)) (\<lambda>w. Ok (cc\<lparr>re_cwnd := w\<rparr>))))"

definition reno_on_congestion_event :: "nat \<Rightarrow> nat \<Rightarrow> reno_controller \<Rightarrow> reno_controller outcome" where
  "reno_on_congestion_event rtt now cc =
     (if (case re_last_congestion_time cc of Some last_loss \<Rightarrow> now - last_loss < rtt | None \<Rightarrow> False)
      then Ok cc
      else
        let cc = cc\<lparr>re_last_congestion_time := Some now\<rparr> in
        obind (mul64 (re_mtu cc) 2) (\<lambda>floor.
        let ssthresh = max (re_cwnd cc div 2) floor
        in Ok (cc\<lparr>re_ssthresh := ssthresh, re_cwnd := ssthresh\<rparr>)))"

section \<open>The trait object\<close>

datatype congestion_controller = CubicCc cubic_controller | RenoCc reno_controller

fun cc_new :: "congestion_control_algorithm \<Rightarrow> nat \<Rightarrow> nat \<Rightarrow> congestion_controller" where
  "cc_new Cubic initial_cwnd mtu = CubicCc (cubic_new initial_cwnd mtu)"
| "cc_new Reno initial_cwnd mtu = RenoCc (reno_new initial_cwnd mtu)"

fun cc_on_packet_acked ::
  "f64_lib \<Rightarrow> nat \<Rightarrow> nat \<Rightarrow> nat \<Rightarrow> congestion_controller \<Rightarrow> congestion_controller outcome" where
  "cc_on_packet_acked fl bytes_acked rtt now (CubicCc c) =
     obind (cubic_on_packet_acked fl bytes_acked rtt now c) (\<lambda>c. Ok (CubicCc c))"
| "cc_on_packet_acked fl bytes_acked rtt now (RenoCc c) =
     obind (reno_on_packet_acked bytes_acked rtt now c) (\<lambda>c. Ok (RenoCc c))"

fun cc_on_congestion_event ::
  "f64_lib \<Rightarrow> nat \<Rightarrow> nat \<Rightarrow> congestion_controller \<Rightarrow> congestion_controller outcome" where
  "cc_on_congestion_event fl rtt now (CubicCc c) =
     obind (cubic_on_congestion_event fl rtt now c) (\<lambda>c. Ok (CubicCc c))"
| "cc_on_congestion_event fl rtt now (RenoCc c) =
     obind (reno_on_congestion_event rtt now c) (\<lambda>c. Ok (RenoCc c))"

fun cc_cwnd :: "congestion_controller \<Rightarrow> nat" where
  "cc_cwnd (CubicCc c) = cu_cwnd c"
| "cc_cwnd (RenoCc c) = re_cwnd c"

fun cc_ssthresh :: "congestion_controller \<Rightarrow> nat" where
  "cc_ssthresh (CubicCc c) = cu_ssthresh c"
| "cc_ssthresh (RenoCc c) = re_ssthresh c"

fun cc_set_cwnd :: "nat \<Rightarrow> congestion_controller \<Rightarrow> congestion_controller" where
  "cc_set_cwnd cwnd (CubicCc c) = CubicCc (c\<lparr>cu_cwnd := cwnd\<rparr>)"
| "cc_set_cwnd cwnd (RenoCc c) = RenoCc (c\<lparr>re_cwnd := cwnd\<rparr>)"

fun cc_set_ssthresh :: "nat \<Rightarrow> congestion_controller \<Rightarrow> congestion_controller" where
  "cc_set_ssthresh ssthresh (CubicCc c) = CubicCc (c\<lparr>cu_ssthresh := ssthresh\<rparr>)"
| "cc_set_ssthresh ssthresh (RenoCc c) = RenoCc (c\<lparr>re_ssthresh := ssthresh\<rparr>)"

fun cc_set_mtu :: "nat \<Rightarrow> congestion_controller \<Rightarrow> congestion_controller" where
  "cc_set_mtu mtu (CubicCc c) = CubicCc (c\<lparr>cu_mtu := mtu\<rparr>)"
| "cc_set_mtu mtu (RenoCc c) = RenoCc (c\<lparr>re_mtu := mtu\<rparr>)"

text \<open>Observations that are not part of the trait: the segment size and the last reduction.\<close>

fun cc_mtu :: "congestion_controller \<Rightarrow> nat" where
  "cc_mtu (CubicCc c) = cu_mtu c"
| "cc_mtu (RenoCc c) = re_mtu c"

fun cc_last_loss :: "congestion_controller \<Rightarrow> nat option" where
  "cc_last_loss (CubicCc c) = cu_last_congestion_time c"
| "cc_last_loss (RenoCc c) = re_last_congestion_time c"

text \<open>A history of a controller: bytes acknowledged, congestion events, path MTU changes.\<close>

datatype cc_event = CcAcked nat nat nat | CcLoss nat nat | CcMtu nat

fun cc_step :: "f64_lib \<Rightarrow> cc_event \<Rightarrow> congestion_controller \<Rightarrow> congestion_controller outcome" where
  "cc_step fl (CcAcked bytes_acked rtt now) c = cc_on_packet_acked fl bytes_acked rtt now c"
| "cc_step fl (CcLoss rtt now) c = cc_on_congestion_event fl rtt now c"
| "cc_step fl (CcMtu mtu) c = Ok (cc_set_mtu mtu c)"

fun cc_acked_bytes :: "cc_event \<Rightarrow> nat" where
  "cc_acked_bytes (CcAcked bytes_acked _ _) = bytes_acked"
| "cc_acked_bytes _ = 0"

section \<open>One step of a controller\<close>

lemma reno_increment_le: "0 < mtu \<Longrightarrow> mtu * b div max w mtu \<le> (b :: nat)"
proof -
  assume "0 < mtu"
  have "mtu * b div max w mtu \<le> max w mtu * b div max w mtu" by (intro div_le_mono mult_right_mono) simp_all
  then show ?thesis using \<open>0 < mtu\<close> by simp
qed

lemma cubic_acked:
  assumes "0 < cu_mtu c" and "cu_mtu c * b < two64" and "cu_cwnd c + b < two64"
  shows "\<exists>c'. cubic_on_packet_acked fl b rtt now c = Ok c' \<and> cu_mtu c' = cu_mtu c
    \<and> cu_cwnd c \<le> cu_cwnd c' \<and> cu_cwnd c' \<le> cu_cwnd c + b"
proof -
  define c1 where "c1 = (if cu_cubic_epoch_start c = None then c\<lparr>cu_cubic_epoch_start := Some now\<rparr> else c)"
  define c2 where "c2 = (if (case cu_last_cubic_update c1 of Some updated \<Rightarrow> rtt \<le> now - updated | None \<Rightarrow> True)
    then cubic_update_target fl now c1 else c1)"
  have c2: "cu_mtu c2 = cu_mtu c" "cu_cwnd c2 = cu_cwnd c"
    by (simp_all add: c2_def c1_def cubic_update_target_def Let_def)
  define inc where "inc = (if cu_target_cwnd c2 > cu_cwnd c2
    then min (min (cu_target_cwnd c2 - cu_cwnd c2) b) (cu_mtu c2)
    else cu_mtu c2 * b div max (cu_cwnd c2) (cu_mtu c2))"
  have "inc \<le> b" using reno_increment_le [OF assms(1), of b "cu_cwnd c"] by (auto simp: inc_def c2)
  moreover have "cubic_on_packet_acked fl b rtt now c =
    (if cu_cwnd c < cu_ssthresh c then Ok (c\<lparr>cu_cwnd := cu_cwnd c + b\<rparr>) else Ok (c2\<lparr>cu_cwnd := cu_cwnd c + inc\<rparr>))"
    unfolding cubic_on_packet_acked_def c1_def [symmetric] c2_def [symmetric] Let_def inc_def [symmetric]
    using assms \<open>inc \<le> b\<close> by (simp add: add64_def mul64_def c2) (auto simp: inc_def c2)
  ultimately show ?thesis by (simp add: c2)
qed

lemma reno_acked:
  assumes "0 < b" and "0 < re_mtu c" and "re_mtu c * b < two64" and "re_cwnd c + b < two64"
  shows "\<exists>c'. reno_on_packet_acked b rtt now c = Ok c' \<and> re_mtu c' = re_mtu c
    \<and> re_cwnd c \<le> re_cwnd c' \<and> re_cwnd c' \<le> re_cwnd c + b"
  using assms reno_increment_le [OF assms(2), of b "re_cwnd c"]
  by (auto simp: reno_on_packet_acked_def add64_def mul64_def Let_def)

text \<open>The multiplicative decrease of CUBIC, through the floating-point product.\<close>

lemma seven_tenths:
  assumes "w < 2 ^ 47"
  defines "s \<equiv> f64_as_usize (f64_mul (usize_as_f64 w) (round_f64 (7/10)))"
  shows "10 * s \<le> 7 * w" and "7 * w \<le> 10 * s + 10"
proof -
  have w: "w < 2 ^ 53" using assms(1) by (rule less_trans) simp
  obtain r where r: "f64_mul (usize_as_f64 w) (round_f64 (7/10)) = Finite r"
    "\<bar>r - of_nat w * (7/10)\<bar> \<le> of_nat w * (7/10) / 2 ^ 51" "0 \<le> r"
    by (rule f64_scale_error [OF w, of "7/10"]) auto
  have wr: "of_nat w < (2 ^ 47 :: rat)" using assms(1) by (simp flip: of_nat_less_iff)
  then have e: "of_nat w * (7/10) / 2 ^ 51 < (1/20 :: rat)" by simp
  have "of_nat w * (7/10) < (2 ^ 47 :: rat)" using wr by simp
  then have "r < 2 ^ 48" using abs_le_D1 [OF r(2)] e by simp
  then have "\<lfloor>r\<rfloor> < 2 ^ 48" by (simp add: floor_less_iff)
  then have s: "s = nat \<lfloor>r\<rfloor>" using r(3) by (simp add: s_def r(1) nat_le_iff)
  have "of_nat s = (of_int \<lfloor>r\<rfloor> :: rat)" using r(3) by (simp add: s)
  then have "of_nat s \<le> r" "r < of_nat s + 1" by linarith+
  then have "10 * of_nat s < 7 * of_nat w + (1 :: rat)" "7 * of_nat w < 10 * of_nat s + (11 :: rat)"
    using abs_le_D1 [OF r(2)] abs_le_D2 [OF r(2)] e by linarith+
  then have "of_nat (10 * s) < (of_nat (7 * w + 1) :: rat)" "of_nat (7 * w) < (of_nat (10 * s + 11) :: rat)"
    by simp_all
  then show "10 * s \<le> 7 * w" "7 * w \<le> 10 * s + 10" unfolding of_nat_less_iff by simp_all
qed

definition suppressed :: "nat option \<Rightarrow> nat \<Rightarrow> nat \<Rightarrow> bool" where
  "suppressed last_loss rtt now \<longleftrightarrow> (case last_loss of Some t \<Rightarrow> now - t < rtt | None \<Rightarrow> False)"

lemma cubic_loss:
  assumes "cu_mtu c < 2 ^ 16"
  shows "\<exists>c'. cubic_on_congestion_event fl rtt now c = Ok c'
    \<and> cu_mtu c' = cu_mtu c
    \<and> (if suppressed (cu_last_congestion_time c) rtt now then c' = c
       else cu_last_congestion_time c' = Some now \<and> cu_ssthresh c' = cu_cwnd c'
         \<and> cu_cwnd c' = max (f64_as_usize (f64_mul (usize_as_f64 (cu_cwnd c)) (round_f64 (7/10)))) (2 * cu_mtu c))"
  using assms by (simp add: cubic_on_congestion_event_def suppressed_def mul64_def Let_def mult.commute)

lemma reno_loss:
  assumes "re_mtu c < 2 ^ 16"
  shows "\<exists>c'. reno_on_congestion_event rtt now c = Ok c'
    \<and> re_mtu c' = re_mtu c
    \<and> (if suppressed (re_last_congestion_time c) rtt now then c' = c
       else re_last_congestion_time c' = Some now \<and> re_ssthresh c' = re_cwnd c'
         \<and> re_cwnd c' = max (re_cwnd c div 2) (2 * re_mtu c))"
  using assms by (simp add: reno_on_congestion_event_def suppressed_def mul64_def Let_def mult.commute)

fun decreased :: "congestion_controller \<Rightarrow> nat" where
  "decreased (CubicCc c) = f64_as_usize (f64_mul (usize_as_f64 (cu_cwnd c)) (round_f64 (7/10)))"
| "decreased (RenoCc c) = re_cwnd c div 2"

lemma decreased_le: "cc_cwnd c < 2 ^ 47 \<Longrightarrow> decreased c \<le> cc_cwnd c"
  using seven_tenths(1) by (cases c) fastforce+

lemma cc_acked:
  assumes "0 < b" and "0 < cc_mtu c" and "cc_mtu c * b < two64" and "cc_cwnd c + b < two64"
  shows "\<exists>c'. cc_on_packet_acked fl b rtt now c = Ok c' \<and> cc_mtu c' = cc_mtu c
    \<and> cc_cwnd c \<le> cc_cwnd c' \<and> cc_cwnd c' \<le> cc_cwnd c + b"
proof (cases c)
  case (CubicCc k)
  then show ?thesis using cubic_acked [of k b fl rtt now] assms by auto
next
  case (RenoCc k)
  then show ?thesis using reno_acked [of b k rtt now] assms by auto
qed

lemma cc_loss:
  assumes "cc_mtu c < 2 ^ 16"
  shows "\<exists>c'. cc_on_congestion_event fl rtt now c = Ok c' \<and> cc_mtu c' = cc_mtu c
    \<and> (if suppressed (cc_last_loss c) rtt now then c' = c
       else cc_last_loss c' = Some now \<and> cc_ssthresh c' = cc_cwnd c'
         \<and> cc_cwnd c' = max (decreased c) (2 * cc_mtu c))"
proof (cases c)
  case (CubicCc k)
  then show ?thesis using cubic_loss [of k fl rtt now] assms by (auto split: if_splits)
next
  case (RenoCc k)
  then show ?thesis using reno_loss [of k rtt now] assms by (auto split: if_splits)
qed

section \<open>What the connection relies on\<close>

definition cc_event_ok :: "nat \<Rightarrow> nat \<Rightarrow> cc_event \<Rightarrow> bool" where
  "cc_event_ok lo hi e \<longleftrightarrow> (case e of CcAcked b _ _ \<Rightarrow> 0 < b | CcLoss _ _ \<Rightarrow> True | CcMtu m \<Rightarrow> lo \<le> m \<and> m \<le> hi)"

locale congestion_control =
  fixes step :: "cc_event \<Rightarrow> 'c \<Rightarrow> 'c outcome"
    and cwnd :: "'c \<Rightarrow> nat"
    and mtu :: "'c \<Rightarrow> nat"
  assumes acked_law: "0 < b \<Longrightarrow> 0 < mtu c \<Longrightarrow> mtu c * b < two64 \<Longrightarrow> cwnd c + b < two64 \<Longrightarrow>
      \<exists>c'. step (CcAcked b rtt now) c = Ok c' \<and> mtu c' = mtu c \<and> cwnd c \<le> cwnd c' \<and> cwnd c' \<le> cwnd c + b"
    and loss_law: "cwnd c < 2 ^ 47 \<Longrightarrow> mtu c < 2 ^ 16 \<Longrightarrow>
      \<exists>c'. step (CcLoss rtt now) c = Ok c' \<and> mtu c' = mtu c
        \<and> (c' = c \<or> 2 * mtu c \<le> cwnd c' \<and> cwnd c' \<le> max (cwnd c) (2 * mtu c))"
    and mtu_law: "\<exists>c'. step (CcMtu m) c = Ok c' \<and> mtu c' = m \<and> cwnd c' = cwnd c"
begin

lemma step_bounds:
  assumes ok: "cc_event_ok lo hi e" and c: "0 < lo" "lo \<le> mtu c" "mtu c \<le> hi" "hi < 2 ^ 16"
    and w: "2 * lo \<le> cwnd c" "cwnd c \<le> W" "2 * hi \<le> W" and W: "W + cc_acked_bytes e < 2 ^ 47"
  shows "\<exists>c'. step e c = Ok c' \<and> lo \<le> mtu c' \<and> mtu c' \<le> hi
    \<and> 2 * lo \<le> cwnd c' \<and> cwnd c' \<le> W + cc_acked_bytes e"
proof (cases e)
  case (CcAcked b rtt now)
  have b: "b < 2 ^ 47" using W CcAcked by simp
  have "mtu c * b \<le> 2 ^ 16 * 2 ^ 47" using c b by (intro mult_mono) auto
  then have "mtu c * b < two64" "cwnd c + b < two64" using w W CcAcked by simp_all
  then show ?thesis using acked_law [of b c rtt now] ok c w CcAcked by (fastforce simp: cc_event_ok_def)
next
  case (CcLoss rtt now)
  then obtain c' where c': "step e c = Ok c'" "mtu c' = mtu c"
    "c' = c \<or> 2 * mtu c \<le> cwnd c' \<and> cwnd c' \<le> max (cwnd c) (2 * mtu c)"
    using loss_law [of c rtt now] c w W by force
  have "2 * lo \<le> 2 * mtu c" "2 * mtu c \<le> W" using c w by simp_all
  then show ?thesis using c' c w CcLoss by (auto simp: max_def split: if_splits)
next
  case (CcMtu m)
  then show ?thesis using mtu_law [of m c] ok w by (auto simp: cc_event_ok_def)
qed

lemma trace_bounds:
  assumes "\<And>e. e \<in> set es \<Longrightarrow> cc_event_ok lo hi e" and "0 < lo" "lo \<le> mtu c" "mtu c \<le> hi" "hi < 2 ^ 16"
    and "2 * lo \<le> cwnd c" "cwnd c \<le> W" "2 * hi \<le> W" and "W + sum_list (map cc_acked_bytes es) < 2 ^ 47"
  shows "\<exists>c'. osteps step es c = Ok c' \<and> 2 * lo \<le> cwnd c'
    \<and> cwnd c' \<le> W + sum_list (map cc_acked_bytes es)"
  using assms
proof (induction es arbitrary: c W)
  case (Cons e es)
  then obtain c1 where c1: "step e c = Ok c1" "lo \<le> mtu c1" "mtu c1 \<le> hi" "2 * lo \<le> cwnd c1" "cwnd c1 \<le> W + cc_acked_bytes e"
    using step_bounds [of lo hi e c W] by auto
  then show ?case using Cons.IH [of c1 "W + cc_acked_bytes e"] Cons.prems by auto
qed auto

end

interpretation cc: congestion_control "cc_step fl" cc_cwnd cc_mtu for fl
proof unfold_locales
  show "\<exists>c'. cc_step fl (CcAcked b rtt now) c = Ok c' \<and> cc_mtu c' = cc_mtu c
      \<and> cc_cwnd c \<le> cc_cwnd c' \<and> cc_cwnd c' \<le> cc_cwnd c + b"
    if "0 < b" "0 < cc_mtu c" "cc_mtu c * b < two64" "cc_cwnd c + b < two64" for b c rtt now
    using cc_acked [OF that] by simp
  show "\<exists>c'. cc_step fl (CcLoss rtt now) c = Ok c' \<and> cc_mtu c' = cc_mtu c
      \<and> (c' = c \<or> 2 * cc_mtu c \<le> cc_cwnd c' \<and> cc_cwnd c' \<le> max (cc_cwnd c) (2 * cc_mtu c))"
    if "cc_cwnd c < 2 ^ 47" "cc_mtu c < 2 ^ 16" for c rtt now
    using cc_loss [OF that(2), of fl rtt now] decreased_le [OF that(1)] by (auto split: if_splits)
  show "\<exists>c'. cc_step fl (CcMtu m) c = Ok c' \<and> cc_mtu c' = m \<and> cc_cwnd c' = cc_cwnd c" for m c
    by (cases c) simp_all
qed

section \<open>Properties\<close>

text \<open>
  C20: from a fresh connection, whatever the interleaving of acknowledgements, losses and path MTU
  changes, neither controller panics, its window never falls below two of the smallest segments, and
  it never exceeds ten of the smallest or two of the largest segments, whichever is more, by more than the
  bytes acknowledged, as long as these stay below 128 terabytes together.
\<close>

theorem congestion_window_bounded:
  assumes "0 < lo" and "lo \<le> hi" and "hi < 2 ^ 16"
    and "list_all (cc_event_ok lo hi) es"
    and "max (10 * lo) (2 * hi) + sum_list (map cc_acked_bytes es) < 2 ^ 47"
  shows "\<exists>c. osteps (cc_step fl) es (cc_new alg (10 * lo) lo) = Ok c
    \<and> 2 * lo \<le> cc_cwnd c
    \<and> cc_cwnd c \<le> max (10 * lo) (2 * hi) + sum_list (map cc_acked_bytes es)"
proof -
  have "cc_mtu (cc_new alg (10 * lo) lo) = lo" "cc_cwnd (cc_new alg (10 * lo) lo) = 10 * lo"
    by (cases alg; simp add: cubic_new_def reno_new_def)+
  then show ?thesis using assms by (intro cc.trace_bounds) (auto simp: list_all_iff)
qed

theorem congestion_window_bounded_witness:
  "\<exists>c. osteps (cc_step \<lparr>fl_powi = \<lambda>x n. x, fl_cbrt = \<lambda>x. x\<rparr>)
     [CcAcked 1200 50 100, CcMtu 1500, CcLoss 50 200, CcAcked 700 50 300] (cc_new Cubic 12000 1200) = Ok c
   \<and> 2400 \<le> cc_cwnd c \<and> cc_cwnd c \<le> 13900"
  using congestion_window_bounded [of 1200 1500
    "[CcAcked 1200 50 100, CcMtu 1500, CcLoss 50 200, CcAcked 700 50 300]"
    "\<lparr>fl_powi = \<lambda>x n. x, fl_cbrt = \<lambda>x. x\<rparr>" Cubic]
  by (simp add: cc_event_ok_def del: cc_step.simps osteps.simps)

text \<open>
  C31: a congestion event outside the guard interval sets window and threshold to half the window
  (Reno) or, despite the floating-point product, to seven tenths of it rounded down to within one byte
  (CUBIC), but never below two segments; further events within one round trip change nothing.
\<close>

theorem loss_reduces_window_once:
  assumes "cc_mtu c < 2 ^ 16" and "cc_cwnd c < 2 ^ 47" and "\<not> suppressed (cc_last_loss c) rtt now"
  shows "\<exists>c' w. cc_on_congestion_event fl rtt now c = Ok c'
    \<and> cc_cwnd c' = max w (2 * cc_mtu c) \<and> cc_ssthresh c' = cc_cwnd c'
    \<and> (case c of RenoCc _ \<Rightarrow> w = cc_cwnd c div 2
        | CubicCc _ \<Rightarrow> 10 * w \<le> 7 * cc_cwnd c \<and> 7 * cc_cwnd c \<le> 10 * w + 10)
    \<and> (\<forall>now'. now' < now + rtt \<longrightarrow> 0 < rtt \<longrightarrow> cc_on_congestion_event fl rtt now' c' = Ok c')"
proof -
  obtain c' where c': "cc_on_congestion_event fl rtt now c = Ok c'" "cc_mtu c' = cc_mtu c"
    "cc_last_loss c' = Some now" "cc_ssthresh c' = cc_cwnd c'" "cc_cwnd c' = max (decreased c) (2 * cc_mtu c)"
    using cc_loss [OF assms(1), of fl rtt now] assms(3) by auto
  have "cc_on_congestion_event fl rtt now' c' = Ok c'" if "now' < now + rtt" "0 < rtt" for now'
    using cc_loss [of c' fl rtt now'] c'(2,3) assms(1) that by (auto simp: suppressed_def split: if_splits)
  moreover have "case c of RenoCc _ \<Rightarrow> decreased c = cc_cwnd c div 2
        | CubicCc _ \<Rightarrow> 10 * decreased c \<le> 7 * cc_cwnd c \<and> 7 * cc_cwnd c \<le> 10 * decreased c + 10"
    using seven_tenths assms(2) by (cases c) auto
  ultimately show ?thesis using c' by blast
qed

theorem loss_reduces_window_once_witness:
  "\<exists>c' w. cc_on_congestion_event \<lparr>fl_powi = \<lambda>x n. x, fl_cbrt = \<lambda>x. x\<rparr> 50 200 (cc_new Cubic 12000 1200) = Ok c'
    \<and> cc_cwnd c' = max w 2400 \<and> 10 * w \<le> 84000 \<and> 84000 \<le> 10 * w + 10"
  using loss_reduces_window_once [of "cc_new Cubic 12000 1200" 50 200 "\<lparr>fl_powi = \<lambda>x n. x, fl_cbrt = \<lambda>x. x\<rparr>"]
  by (auto simp: cubic_new_def suppressed_def)

end
