(* ===== verification/Zt_Crypto.thy ===== *)
theory Zt_Crypto
  imports Zt_Packet
begin

text \<open>
  The record protection of \<^verbatim>\<open>src/src/crypto\<close>: header protection, key derivation, the key schedule
  with its ratchet, and authenticated encryption of packet payloads.  The primitives come from
  third-party crates (HKDF-SHA256, ChaCha20, ChaCha20-Poly1305, X25519) and are the fields of the
  record \<open>crypto_lib\<close>, an argument of every definition that uses them.  A
  \<^verbatim>\<open>ChaCha20Poly1305\<close> object holds nothing but its key, so a cipher is modelled by its key.  Secrets are
  overwritten when they are dropped; memory after a drop is not observable in the model.  Error texts keep
  the fixed part of the message and leave out the formatted cause.
\<close>

section \<open>Primitives\<close>

record crypto_lib =
  cl_hkdf_extract :: "bytes \<Rightarrow> bytes \<Rightarrow> bytes"
  cl_hkdf_expand :: "bytes \<Rightarrow> bytes \<Rightarrow> nat \<Rightarrow> bytes"
  cl_chacha20 :: "bytes \<Rightarrow> bytes \<Rightarrow> nat \<Rightarrow> nat \<Rightarrow> bytes option"
  cl_aead_encrypt :: "bytes \<Rightarrow> bytes \<Rightarrow> bytes \<Rightarrow> bytes \<Rightarrow> (bytes \<times> bytes) option"
  cl_aead_decrypt :: "bytes \<Rightarrow> bytes \<Rightarrow> bytes \<Rightarrow> bytes \<Rightarrow> bytes \<Rightarrow> bytes option"

section \<open>Header protection\<close>

definition from_le32 :: "bytes \<Rightarrow> nat" where
  "from_le32 bs = unat (from_be (rev bs) :: u32)"

definition xor_pn :: "nat \<Rightarrow> bytes \<Rightarrow> nat \<Rightarrow> bytes \<Rightarrow> bytes" where
  "xor_pn pn_offset hp_mask pn_len packet =
     foldl (\<lambda>packet i.
       if pn_offset + i < length packet
       then packet[pn_offset + i := packet ! (pn_offset + i) XOR hp_mask ! (i + 1)] else packet)
     packet [0..<pn_len]"

definition first_mask :: "bytes \<Rightarrow> u8 \<Rightarrow> u8" where
  "first_mask hp_mask b = hp_mask ! 0 AND (if b AND 0x80 \<noteq> 0 then 0x0F else 0x1F)"

definition apply_header_protection :: "crypto_lib \<Rightarrow> bytes \<Rightarrow> nat \<Rightarrow> bytes \<Rightarrow> bytes outcome" where
  "apply_header_protection cl packet pn_offset tx_hp_key =
     (let sample_offset = pn_offset + 4 in
      guard (length packet < sample_offset + 16)
        (InvalidPacket ''Packet too short to apply header protection'') (
      obind (slice packet sample_offset (sample_offset + 16)) (\<lambda>sample.
      let counter = from_le32 (take 4 sample) in
      case cl_chacha20 cl tx_hp_key (drop 4 sample) (counter * 64) 5 of
        None \<Rightarrow> Panic
      | Some hp_mask \<Rightarrow>
          let pn_len = unat (packet ! 0 AND 0x03) + 1;
              packet = packet[0 := packet ! 0 XOR first_mask hp_mask (packet ! 0)]
          in Ok (xor_pn pn_offset hp_mask pn_len packet))))"

definition remove_header_protection :: "crypto_lib \<Rightarrow> bytes \<Rightarrow> nat \<Rightarrow> bytes \<Rightarrow> bytes outcome" where
  "remove_header_protection cl packet pn_offset hp_key =
     (let sample_offset = pn_offset + 4 in
      guard (sample_offset + 16 > length packet)
        (InvalidPacket ''Packet too short to remove header protection'') (
      obind (slice packet sample_offset (sample_offset + 16)) (\<lambda>sample.
      let counter = from_le32 (take 4 sample) in
      case cl_chacha20 cl hp_key (drop 4 sample) (counter * 64) 5 of
        None \<Rightarrow> Panic
      | Some hp_mask \<Rightarrow>
          let packet = packet[0 := packet ! 0 XOR first_mask hp_mask (packet ! 0)];
              pn_len = unat (packet ! 0 AND 0x03) + 1
          in Ok (xor_pn pn_offset hp_mask pn_len packet))))"

section \<open>Key derivation\<close>

definition ascii :: "string \<Rightarrow> bytes" where
  "ascii s = map of_char s"

definition initial_salt :: bytes where
  "initial_salt = ascii ''ZettaTransport v1 InitialSalt'' @ [0, 0, 0]"

definition derive_master_secret ::
  "crypto_lib \<Rightarrow> bytes \<Rightarrow> bytes \<Rightarrow> bytes \<Rightarrow> bytes option \<Rightarrow> bool \<Rightarrow> bytes" where
  "derive_master_secret cl shared_secret my_scid peer_dcid psk is_client =
     (let ikm = shared_secret;
          ikm = (if is_client then ikm @ my_scid @ peer_dcid else ikm @ peer_dcid @ my_scid);
          ikm = (case psk of Some key \<Rightarrow> ikm @ key | None \<Rightarrow> ikm)
      in cl_hkdf_expand cl (cl_hkdf_extract cl (ascii ''ZettaTransport v1'') ikm) (ascii ''master_secret'') 32)"

definition derive_initial_secret :: "crypto_lib \<Rightarrow> bytes \<Rightarrow> bytes" where
  "derive_initial_secret cl dcid =
     cl_hkdf_expand cl (cl_hkdf_extract cl initial_salt dcid) (ascii ''initial_secret'') 32"

record epoch_keys =
  ek_tx_key :: bytes
  ek_rx_key :: bytes
  ek_tx_iv :: bytes
  ek_rx_iv :: bytes
  ek_tx_cipher :: bytes
  ek_rx_cipher :: bytes

fun decimal :: "nat \<Rightarrow> bytes" where
  "decimal n = (if n < 10 then [of_nat (48 + n)] else decimal (n div 10) @ [of_nat (48 + n mod 10)])"

declare decimal.simps [simp del]

definition mk_label :: "string \<Rightarrow> nat \<Rightarrow> bytes" where
  "mk_label base epoch = ascii base @ ascii '':'' @ decimal epoch"

definition derive_epoch_keys :: "crypto_lib \<Rightarrow> bytes \<Rightarrow> nat \<Rightarrow> bool \<Rightarrow> epoch_keys" where
  "derive_epoch_keys cl secret epoch is_client =
     (let (tx_label, rx_label) =
            (if is_client then (mk_label ''client_key'' epoch, mk_label ''server_key'' epoch)
             else (mk_label ''server_key'' epoch, mk_label ''client_key'' epoch));
          (tx_iv_label, rx_iv_label) =
            (if is_client then (mk_label ''client_iv'' epoch, mk_label ''server_iv'' epoch)
             else (mk_label ''server_iv'' epoch, mk_label ''client_iv'' epoch));
          tx_key = cl_hkdf_expand cl secret tx_label 32;
          rx_key = cl_hkdf_expand cl secret rx_label 32;
          tx_iv = cl_hkdf_expand cl secret tx_iv_label 12;
          rx_iv = cl_hkdf_expand cl secret rx_iv_label 12
      in \<lparr>ek_tx_key = tx_key, ek_rx_key = rx_key, ek_tx_iv = tx_iv, ek_rx_iv = rx_iv,
          ek_tx_cipher = tx_key, ek_rx_cipher = rx_key\<rparr>)"

definition derive_hp_keys :: "crypto_lib \<Rightarrow> bytes \<Rightarrow> bool \<Rightarrow> bytes \<times> bytes" where
  "derive_hp_keys cl secret is_client =
     (let (tx_hp_label, rx_hp_label) =
            (if is_client then (ascii ''client_hp'', ascii ''server_hp'')
             else (ascii ''server_hp'', ascii ''client_hp''))
      in (cl_hkdf_expand cl secret tx_hp_label 32, cl_hkdf_expand cl secret rx_hp_label 32))"

text \<open>HKDF without a salt extracts with 32 zero bytes, the length of a SHA-256 digest.\<close>

definition ratchet_secret :: "crypto_lib \<Rightarrow> bytes \<Rightarrow> bytes" where
  "ratchet_secret cl current_secret =
     cl_hkdf_expand cl (cl_hkdf_extract cl (replicate 32 0) current_secret)
       (ascii ''ZettaTransport v1 ratchet secret'') 32"

section \<open>The crypto context\<close>

record fallback_rx_keys =
  fb_rx_key :: bytes
  fb_rx_iv :: bytes
  fb_rx_cipher :: bytes

record crypto_context =
  cx_secret :: bytes
  cx_tx_key :: bytes
  cx_rx_key :: bytes
  cx_tx_hp_key :: bytes
  cx_rx_hp_key :: bytes
  cx_tx_iv :: bytes
  cx_rx_iv :: bytes
  cx_tx_cipher :: bytes
  cx_rx_cipher :: bytes
  cx_epoch :: nat
  cx_is_client :: bool
  cx_next_rx_key :: bytes
  cx_next_rx_iv :: bytes
  cx_next_rx_cipher :: bytes
  cx_prev_rx :: "fallback_rx_keys option"

definition with_secret :: "crypto_lib \<Rightarrow> bytes \<Rightarrow> bool \<Rightarrow> crypto_context" where
  "with_secret cl secret is_client =
     (let (tx_hp_key, rx_hp_key) = derive_hp_keys cl secret is_client in
      \<lparr>cx_secret = secret, cx_tx_key = replicate 32 0, cx_rx_key = replicate 32 0,
       cx_tx_hp_key = tx_hp_key, cx_rx_hp_key = rx_hp_key,
       cx_tx_iv = replicate 12 0, cx_rx_iv = replicate 12 0,
       cx_tx_cipher = replicate 32 0, cx_rx_cipher = replicate 32 0,
       cx_epoch = 0, cx_is_client = is_client,
       cx_next_rx_key = replicate 32 0, cx_next_rx_iv = replicate 12 0,
       cx_next_rx_cipher = replicate 32 0, cx_prev_rx = None\<rparr>)"

definition apply_epoch_keys :: "crypto_lib \<Rightarrow> nat \<Rightarrow> crypto_context \<Rightarrow> crypto_context outcome" where
  "apply_epoch_keys cl epoch c =
     (let c = c\<lparr>cx_epoch := epoch\<rparr>;
          keys = derive_epoch_keys cl (cx_secret c) epoch (cx_is_client c);
          c = c\<lparr>cx_tx_key := ek_tx_key keys, cx_rx_key := ek_rx_key keys,
                cx_tx_iv := ek_tx_iv keys, cx_rx_iv := ek_rx_iv keys,
                cx_tx_cipher := ek_tx_cipher keys, cx_rx_cipher := ek_rx_cipher keys\<rparr>;
          next_secret = ratchet_secret cl (cx_secret c)
      in obind (add64 epoch 1) (\<lambda>next_epoch.
         let next_keys = derive_epoch_keys cl next_secret next_epoch (cx_is_client c)
         in Ok (c\<lparr>cx_next_rx_key := ek_rx_key next_keys, cx_next_rx_iv := ek_rx_iv next_keys,
                  cx_next_rx_cipher := ek_rx_cipher next_keys\<rparr>)))"

definition from_shared_secret ::
  "crypto_lib \<Rightarrow> bytes \<Rightarrow> bytes \<Rightarrow> bytes \<Rightarrow> bytes option \<Rightarrow> bool \<Rightarrow> crypto_context outcome" where
  "from_shared_secret cl shared_secret my_scid peer_dcid psk is_client =
     (let secret = derive_master_secret cl shared_secret my_scid peer_dcid psk is_client
      in apply_epoch_keys cl 0 (with_secret cl secret is_client))"

definition crypto_initial :: "crypto_lib \<Rightarrow> bytes \<Rightarrow> bool \<Rightarrow> crypto_context outcome" where
  "crypto_initial cl dcid is_client =
     (let secret = derive_initial_secret cl dcid
      in apply_epoch_keys cl 0 (with_secret cl secret is_client))"

definition rotate_keys :: "crypto_lib \<Rightarrow> crypto_context \<Rightarrow> crypto_context outcome" where
  "rotate_keys cl c =
     (let c = c\<lparr>cx_prev_rx := Some \<lparr>fb_rx_key = cx_rx_key c, fb_rx_iv = cx_rx_iv c, fb_rx_cipher = cx_rx_cipher c\<rparr>\<rparr>;
          c = c\<lparr>cx_secret := ratchet_secret cl (cx_secret c)\<rparr>
      in obind (add64 (cx_epoch c) 1) (\<lambda>epoch. apply_epoch_keys cl epoch c))"

definition make_nonce_from_iv :: "bytes \<Rightarrow> nat \<Rightarrow> bytes" where
  "make_nonce_from_iv iv packet_number =
     (let pn_bytes = to_be 8 (of_nat packet_number :: u64)
      in foldl (\<lambda>nonce i. nonce[12 - 8 + i := nonce ! (12 - 8 + i) XOR pn_bytes ! i]) iv [0..<8])"

definition generate_nonce :: "crypto_context \<Rightarrow> nat \<Rightarrow> bool \<Rightarrow> bool \<Rightarrow> bytes" where
  "generate_nonce c packet_number is_tx use_prev_key =
     make_nonce_from_iv
       (if is_tx then cx_tx_iv c
        else if use_prev_key then (case cx_prev_rx c of None \<Rightarrow> cx_rx_iv c | Some p \<Rightarrow> fb_rx_iv p)
        else cx_rx_iv c)
       packet_number"

text \<open>In-place encryption returns the overwritten payload together with the tag.\<close>

definition encrypt_in_place ::
  "crypto_lib \<Rightarrow> crypto_context \<Rightarrow> nat \<Rightarrow> bytes \<Rightarrow> bytes \<Rightarrow> (bytes \<times> bytes) outcome" where
  "encrypt_in_place cl c packet_number aad payload =
     (let nonce = generate_nonce c packet_number True False
      in ok_or (Crypto ''Encryption failed'') (cl_aead_encrypt cl (cx_tx_cipher c) nonce aad payload))"

definition decrypt_in_place ::
  "crypto_lib \<Rightarrow> crypto_context \<Rightarrow> nat \<Rightarrow> bytes \<Rightarrow> bytes \<Rightarrow> bytes \<Rightarrow> bool \<Rightarrow> bytes outcome" where
  "decrypt_in_place cl c packet_number aad payload tag use_prev_key =
     (let nonce = generate_nonce c packet_number False use_prev_key in
      if use_prev_key then
        (case cx_prev_rx c of
           Some prev \<Rightarrow>
             let prev_nonce = make_nonce_from_iv (fb_rx_iv prev) packet_number
             in ok_or (Crypto ''Decryption with prev key failed'')
                  (cl_aead_decrypt cl (fb_rx_cipher prev) prev_nonce aad payload tag)
         | None \<Rightarrow> Err (Crypto ''No previous RX cipher available''))
      else ok_or (Crypto ''Decryption failed'')
             (cl_aead_decrypt cl (cx_rx_cipher c) nonce aad payload tag))"

definition trial_decrypt_and_rotate ::
  "crypto_lib \<Rightarrow> crypto_context \<Rightarrow> nat \<Rightarrow> bytes \<Rightarrow> bytes \<Rightarrow> bytes \<Rightarrow> (crypto_context \<times> bytes) outcome" where
  "trial_decrypt_and_rotate cl c packet_number aad payload tag =
     (let nonce = make_nonce_from_iv (cx_next_rx_iv c) packet_number in
      obind (ok_or (Crypto ''Trial decryption failed'')
              (cl_aead_decrypt cl (cx_next_rx_cipher c) nonce aad payload tag)) (\<lambda>payload.
      obind (rotate_keys cl c) (\<lambda>c. Ok (c, payload))))"

section \<open>Masking bytes\<close>

lemma xor_pn_Suc:
  "xor_pn off m (Suc n) p = (let q = xor_pn off m n p in
     if off + n < length q then q[off + n := q ! (off + n) XOR m ! (n + 1)] else q)"
  by (simp add: xor_pn_def Let_def)

lemma length_xor_pn [simp]: "length (xor_pn off m n p) = length p"
  by (induction n) (auto simp: xor_pn_Suc Let_def, simp add: xor_pn_def)

lemma nth_xor_pn:
  "j < length p \<Longrightarrow> xor_pn off m n p ! j = (if off \<le> j \<and> j < off + n then p ! j XOR m ! (j - off + 1) else p ! j)"
proof (induction n)
  case 0
  then show ?case by (auto simp: xor_pn_def)
next
  case (Suc n)
  then show ?case by (auto simp: xor_pn_Suc Let_def nth_list_update)
qed

lemma xor_pn_involution: "xor_pn off m n (xor_pn off m n p) = p"
  by (rule nth_equalityI) (simp_all add: nth_xor_pn xor.assoc)

lemma bit7_mask: "b AND 0x80 \<noteq> 0 \<longleftrightarrow> bit (b :: u8) 7"
  using and_exp_eq_0_iff_not_bit [of b 7] by simp

lemma first_mask_bits: "bit (first_mask m b) n \<Longrightarrow> n < (if b AND 0x80 \<noteq> 0 then 4 else 5)"
proof -
  have "bit (0x0F :: u8) n \<longleftrightarrow> bit (mask 4 :: u8) n" "bit (0x1F :: u8) n \<longleftrightarrow> bit (mask 5 :: u8) n"
    by (simp_all add: mask_eq_exp_minus_1)
  then have "bit (0x0F :: u8) n \<Longrightarrow> n < 4" "bit (0x1F :: u8) n \<Longrightarrow> n < 5"
    unfolding bit_mask_iff by auto
  then show "bit (first_mask m b) n \<Longrightarrow> n < (if b AND 0x80 \<noteq> 0 then 4 else 5)"
    unfolding first_mask_def bit_and_iff by (auto split: if_splits)
qed

lemma protected_long_bit [simp]: "(b XOR first_mask m b) AND 0x80 = 0 \<longleftrightarrow> b AND 0x80 = 0"
  using bit7_mask [of "b XOR first_mask m b"] bit7_mask [of b] first_mask_bits [of m b 7]
  by (auto simp: bit_xor_iff split: if_splits)

lemma first_mask_protected [simp]: "first_mask m (b XOR first_mask m b) = first_mask m b"
proof -
  define c where "c = b XOR first_mask m b"
  have "c AND 0x80 = 0 \<longleftrightarrow> b AND 0x80 = 0" by (simp add: c_def)
  then show ?thesis unfolding c_def [symmetric] by (simp add: first_mask_def)
qed

section \<open>Header protection is an involution\<close>

lemma nth_protected:
  assumes "0 < off" and "j < length p"
  shows "xor_pn off m n (p[0 := b]) ! j =
    (if j = 0 then b else if off \<le> j \<and> j < off + n then p ! j XOR m ! (j - off + 1) else p ! j)"
  using assms by (auto simp: nth_xor_pn nth_list_update)

lemma nth_protected_0: "0 < off \<Longrightarrow> k \<le> length p \<Longrightarrow> 0 < k \<Longrightarrow> xor_pn off m n (p[0 := b]) ! 0 = b"
  by (cases p) (simp_all add: nth_xor_pn)

lemma apply_header_protectionE:
  assumes "apply_header_protection cl p off k = Ok p'"
  obtains m where "off + 20 \<le> length p"
    and "cl_chacha20 cl k (drop 4 (take 16 (drop (off + 4) p))) (from_le32 (take 4 (take 16 (drop (off + 4) p))) * 64) 5 = Some m"
    and "p' = xor_pn off m (unat (p ! 0 AND 0x03) + 1) (p[0 := p ! 0 XOR first_mask m (p ! 0)])"
  using assms
  by (auto simp: apply_header_protection_def Let_def outcome_Ok_iffs slice_def split: option.splits if_splits)

lemma unprotect_protected:
  assumes "0 < off" and "apply_header_protection cl p off k = Ok p'"
  shows "remove_header_protection cl p' off k = Ok p"
proof -
  obtain m where len: "off + 20 \<le> length p"
    and ks: "cl_chacha20 cl k (drop 4 (take 16 (drop (off + 4) p))) (from_le32 (take 4 (take 16 (drop (off + 4) p))) * 64) 5 = Some m"
    and p': "p' = xor_pn off m (unat (p ! 0 AND 0x03) + 1) (p[0 := p ! 0 XOR first_mask m (p ! 0)])"
    using assms(2) by (rule apply_header_protectionE)
  let ?n = "unat (p ! 0 AND 0x03) + 1"
  have n: "?n \<le> 4" using pn_len_bound [of "p ! 0"] by simp
  have len': "length p' = length p" by (simp add: p')
  have "take 16 (drop (off + 4) p') = take 16 (drop (off + 4) p)"
    by (rule nth_equalityI) (use n assms(1) in \<open>auto simp: p' nth_protected\<close>)
  moreover have "p' ! 0 = p ! 0 XOR first_mask m (p ! 0)"
    unfolding p' using nth_protected_0 [OF assms(1) len] by simp
  then have first: "p' ! 0 XOR first_mask m (p' ! 0) = p ! 0" by (simp add: xor.assoc)
  moreover have "xor_pn off m ?n (p'[0 := p ! 0]) = p"
    by (rule nth_equalityI) (use assms(1) len' in \<open>auto simp: nth_protected\<close>, auto simp: p' nth_protected xor.assoc)
  moreover have "p'[0 := p ! 0] ! 0 = p ! 0" using len len' by (cases p') auto
  ultimately show ?thesis
    using len len' ks first by (simp add: remove_header_protection_def Let_def slice_def first)
qed

lemma protected_layout:
  assumes "get_pn_offset p = Some off" and "apply_header_protection cl p off k = Ok p'"
  shows "get_pn_offset p' = Some off \<and> extract_dcid_fast p' = extract_dcid_fast p
    \<and> length p' = length p \<and> (p' ! 0 AND 0x80 = 0 \<longleftrightarrow> p ! 0 AND 0x80 = 0)
    \<and> (\<forall>j. 0 < j \<longrightarrow> j < off \<longrightarrow> p' ! j = p ! j) \<and> (\<forall>j. off + 4 \<le> j \<longrightarrow> j < length p \<longrightarrow> p' ! j = p ! j)"
proof -
  obtain m where len: "off + 20 \<le> length p"
    and p': "p' = xor_pn off m (unat (p ! 0 AND 0x03) + 1) (p[0 := p ! 0 XOR first_mask m (p ! 0)])"
    using assms(2) by (rule apply_header_protectionE)
  have n: "unat (p ! 0 AND 0x03) + 1 \<le> 4" using pn_len_bound [of "p ! 0"] by simp
  have off: "0 < off" using assms(1) by (auto simp: get_pn_offset_def Let_def split: if_splits)
  have ne: "p \<noteq> []" "p' \<noteq> []" "length p' = length p" using len by (auto simp: p' simp flip: length_0_conv)
  have b0: "p' ! 0 AND 0x80 = 0 \<longleftrightarrow> p ! 0 AND 0x80 = 0" 
    unfolding p' using nth_protected_0 [OF off len] by simp
  have lo: "p' ! j = p ! j" if "0 < j" "j < off" for j using that len by (auto simp: p' nth_protected)
  have hi: "p' ! j = p ! j" if "off + 4 \<le> j" "j < length p" for j
    using that n off by (auto simp: p' nth_protected)
  have off': "get_pn_offset p' = Some off"
  proof (cases "p ! 0 AND 0x80 = 0")
    case True
    then show ?thesis using assms(1) ne b0 lo [of 1] by (auto simp: get_pn_offset_def split: if_splits)
  next
    case False
    then have "p' ! 5 = p ! 5" "p' ! (6 + unat (p ! 5)) = p ! (6 + unat (p ! 5))"
      using assms(1) ne by (auto intro!: lo simp: get_pn_offset_def Let_def split: if_splits)
    then show ?thesis using assms(1) ne b0 False by (auto simp: get_pn_offset_def Let_def split: if_splits)
  qed
  moreover have "extract_dcid_fast p' = extract_dcid_fast p"
  proof (cases "p ! 0 AND 0x80 = 0")
    case True
    then have "off = 2 + unat (p ! 1)" using assms(1) ne by (auto simp: get_pn_offset_def split: if_splits)
    moreover have "take (unat (p ! 1)) (drop 2 p') = take (unat (p ! 1)) (drop 2 p)"
      by (rule nth_equalityI) (use calculation ne in \<open>auto intro!: lo\<close>)
    ultimately show ?thesis using True ne b0 lo [of 1] by (simp add: extract_dcid_fast_def Let_def)
  next
    case False
    then have o: "6 + unat (p ! 5) < off" using assms(1) ne by (auto simp: get_pn_offset_def Let_def split: if_splits)
    then have "p' ! 5 = p ! 5" by (intro lo) auto
    moreover have "take (unat (p ! 5)) (drop 6 p') = take (unat (p ! 5)) (drop 6 p)"
      by (rule nth_equalityI) (use o ne in \<open>auto intro!: lo\<close>)
    ultimately show ?thesis using False ne b0 by (simp add: extract_dcid_fast_def Let_def)
  qed
  ultimately show ?thesis using ne b0 lo hi by blast
qed

section \<open>Nonces\<close>

lemma make_nonce_xor_pn:
  "length iv = 12 \<Longrightarrow> make_nonce_from_iv iv pn = xor_pn 4 (0 # to_be 8 (of_nat pn :: u64)) 8 iv"
proof -
  assume len: "length iv = 12"
  have "foldl (\<lambda>nonce i. nonce[4 + i := nonce ! (4 + i) XOR bs ! i]) iv [0..<n] = xor_pn 4 (0 # bs) n iv"
    if "n \<le> 8" for bs :: bytes and n
    using that
  proof (induction n)
    case (Suc n)
    then show ?case using len by (simp add: xor_pn_Suc Let_def)
  qed (simp add: xor_pn_def)
  then show ?thesis by (simp add: make_nonce_from_iv_def)
qed

lemma to_be_inject: "to_be 8 (a :: u64) = to_be 8 b \<longleftrightarrow> a = b"
proof
  assume "to_be 8 a = to_be 8 b"
  then have "from_be (to_be 8 a) = (from_be (to_be 8 b) :: u64)" by simp
  then show "a = b" by (simp add: from_be_to_be take_bit_word_eq_self)
qed simp

lemma nonce_inject:
  assumes "length iv = 12" and "a < two64" and "b < two64"
    and "make_nonce_from_iv iv a = make_nonce_from_iv iv b"
  shows "a = b"
proof -
  have nth: "make_nonce_from_iv iv pn ! (4 + i) = iv ! (4 + i) XOR to_be 8 (of_nat pn :: u64) ! i"
    if "i < 8" for pn i
    using that assms(1) by (simp add: make_nonce_xor_pn nth_xor_pn)
  have "to_be 8 (of_nat a :: u64) ! i = to_be 8 (of_nat b :: u64) ! i" if "i < 8" for i
  proof -
    have "iv ! (4 + i) XOR to_be 8 (of_nat a :: u64) ! i = iv ! (4 + i) XOR to_be 8 (of_nat b :: u64) ! i"
      using nth [OF that, of a] nth [OF that, of b] assms(4) by simp
    then have "iv ! (4 + i) XOR (iv ! (4 + i) XOR to_be 8 (of_nat a :: u64) ! i)
      = iv ! (4 + i) XOR (iv ! (4 + i) XOR to_be 8 (of_nat b :: u64) ! i)" by simp
    then show ?thesis by (simp flip: xor.assoc)
  qed
  then have "to_be 8 (of_nat a :: u64) = to_be 8 (of_nat b :: u64)" by (intro nth_equalityI) auto
  then have "unat (of_nat a :: u64) = unat (of_nat b :: u64)" by (simp only: to_be_inject)
  then show ?thesis using assms(2,3) by (simp add: unat_of_nat)
qed

section \<open>Labels\<close>

lemma of_nat_digit: "d < 10 \<Longrightarrow> unat (of_nat (48 + d) :: u8) = 48 + d"
  by (simp add: unat_of_nat del: of_nat_add)

lemma decimal_digits: "set (decimal n) \<subseteq> {b. 48 \<le> unat b \<and> unat b < 58}"
proof (induction n rule: decimal.induct)
  case (1 n)
  then show ?case
    using of_nat_digit [of n] of_nat_digit [of "n mod 10"] by (subst decimal.simps) auto
qed

fun undecimal :: "bytes \<Rightarrow> nat" where
  "undecimal bs = foldl (\<lambda>n b. 10 * n + (unat b - 48)) 0 bs"

lemma undecimal_decimal: "undecimal (decimal n) = n"
proof (induction n rule: decimal.induct)
  case (1 n)
  show ?case
  proof (cases "n < 10")
    case True
    then show ?thesis using of_nat_digit [of n] by (subst decimal.simps) simp
  next
    case False
    then show ?thesis using 1 of_nat_digit [of "n mod 10"] by (subst decimal.simps) simp
  qed
qed

lemma decimal_inject: "decimal m = decimal n \<longleftrightarrow> m = n"
  using undecimal_decimal by metis

definition key_labels :: "string set" where
  "key_labels = {''client_key'', ''server_key'', ''client_iv'', ''server_iv''}"

lemma mk_label_inject:
  assumes "a \<in> key_labels" and "b \<in> key_labels"
  shows "mk_label a m = mk_label b n \<longleftrightarrow> a = b \<and> m = n"
  using assms
  by (auto simp: key_labels_def mk_label_def ascii_def decimal_inject)

section \<open>The key schedule\<close>

definition epoch_secret :: "crypto_lib \<Rightarrow> bytes \<Rightarrow> nat \<Rightarrow> bytes" where
  "epoch_secret cl s e = (ratchet_secret cl ^^ e) s"

definition schedule :: "crypto_lib \<Rightarrow> bytes \<Rightarrow> bool \<Rightarrow> nat \<Rightarrow> epoch_keys" where
  "schedule cl s is_client e = derive_epoch_keys cl (epoch_secret cl s e) e is_client"

definition fallback_at :: "crypto_lib \<Rightarrow> bytes \<Rightarrow> bool \<Rightarrow> nat \<Rightarrow> fallback_rx_keys option" where
  "fallback_at cl s is_client e =
     (case e of 0 \<Rightarrow> None
      | Suc d \<Rightarrow> let k = schedule cl s is_client d
               in Some \<lparr>fb_rx_key = ek_rx_key k, fb_rx_iv = ek_rx_iv k, fb_rx_cipher = ek_rx_cipher k\<rparr>)"

text \<open>The context every sequence of rotations from the master secret \<open>s\<close> has to arrive at.\<close>

definition context_at :: "crypto_lib \<Rightarrow> bytes \<Rightarrow> bool \<Rightarrow> nat \<Rightarrow> crypto_context" where
  "context_at cl s is_client e =
     (let k = schedule cl s is_client e; n = schedule cl s is_client (e + 1) in
      \<lparr>cx_secret = epoch_secret cl s e, cx_tx_key = ek_tx_key k, cx_rx_key = ek_rx_key k,
       cx_tx_hp_key = fst (derive_hp_keys cl s is_client), cx_rx_hp_key = snd (derive_hp_keys cl s is_client),
       cx_tx_iv = ek_tx_iv k, cx_rx_iv = ek_rx_iv k,
       cx_tx_cipher = ek_tx_cipher k, cx_rx_cipher = ek_rx_cipher k,
       cx_epoch = e, cx_is_client = is_client,
       cx_next_rx_key = ek_rx_key n, cx_next_rx_iv = ek_rx_iv n, cx_next_rx_cipher = ek_rx_cipher n,
       cx_prev_rx = fallback_at cl s is_client e\<rparr>)"

lemma context_at_0: "apply_epoch_keys cl 0 (with_secret cl s is_client) = Ok (context_at cl s is_client 0)"
  by (simp add: apply_epoch_keys_def with_secret_def context_at_def schedule_def epoch_secret_def
      fallback_at_def add64_def Let_def split: prod.split)

lemma rotate_context_at:
  assumes "e + 2 < two64"
  shows "rotate_keys cl (context_at cl s is_client e) = Ok (context_at cl s is_client (Suc e))"
  using assms
  by (simp add: rotate_keys_def apply_epoch_keys_def context_at_def schedule_def epoch_secret_def
      fallback_at_def add64_def Let_def)

fun rotated :: "crypto_lib \<Rightarrow> nat \<Rightarrow> crypto_context \<Rightarrow> crypto_context outcome" where
  "rotated cl 0 c = Ok c"
| "rotated cl (Suc n) c = obind (rotated cl n c) (rotate_keys cl)"

lemma rotated_context_at: "n + 1 < two64 \<Longrightarrow> rotated cl n (context_at cl s is_client 0) = Ok (context_at cl s is_client n)"
  by (induction n) (simp_all add: rotate_context_at)

lemma master_secret_agrees:
  "derive_master_secret cl sh client_scid server_scid psk True = derive_master_secret cl sh server_scid client_scid psk False"
  by (simp add: derive_master_secret_def)

lemma derive_mirror:
  "ek_rx_iv (derive_epoch_keys cl s e (\<not> r)) = ek_tx_iv (derive_epoch_keys cl s e r)
   \<and> ek_rx_cipher (derive_epoch_keys cl s e (\<not> r)) = ek_tx_cipher (derive_epoch_keys cl s e r)"
  unfolding derive_epoch_keys_def Let_def by (cases r) (simp_all only: if_True if_False not_True_eq_False
    not_False_eq_True prod.case epoch_keys.simps simp_thms)

lemma schedule_mirror:
  "ek_rx_iv (schedule cl s (\<not> r) e) = ek_tx_iv (schedule cl s r e)"
  "ek_rx_cipher (schedule cl s (\<not> r) e) = ek_tx_cipher (schedule cl s r e)"
  unfolding schedule_def using derive_mirror by blast+

definition aead_sound :: "crypto_lib \<Rightarrow> bool" where
  "aead_sound cl \<longleftrightarrow> (\<forall>key nonce aad payload ciphertext tag.
     cl_aead_encrypt cl key nonce aad payload = Some (ciphertext, tag) \<longrightarrow>
     cl_aead_decrypt cl key nonce aad ciphertext tag = Some payload)"

lemma context_opens:
  assumes sound: "aead_sound cl" and e: "e + 2 < two64"
    and enc: "encrypt_in_place cl (context_at cl s r e) pn aad payload = Ok (ciphertext, tag)"
  shows "decrypt_in_place cl (context_at cl s (\<not> r) e) pn aad ciphertext tag False = Ok payload"
    and "decrypt_in_place cl (context_at cl s (\<not> r) (Suc e)) pn aad ciphertext tag True = Ok payload"
    and "e = Suc d \<Longrightarrow> trial_decrypt_and_rotate cl (context_at cl s (\<not> r) d) pn aad ciphertext tag
      = Ok (context_at cl s (\<not> r) e, payload)"
proof -
  let ?k = "schedule cl s r e"
  have "cl_aead_encrypt cl (ek_tx_cipher ?k) (make_nonce_from_iv (ek_tx_iv ?k) pn) aad payload = Some (ciphertext, tag)"
    using enc by (simp add: encrypt_in_place_def generate_nonce_def context_at_def Let_def ok_or_eq_Ok)
  then have dec: "cl_aead_decrypt cl (ek_tx_cipher ?k) (make_nonce_from_iv (ek_tx_iv ?k) pn) aad ciphertext tag = Some payload"
    using sound by (simp add: aead_sound_def)
  show "decrypt_in_place cl (context_at cl s (\<not> r) e) pn aad ciphertext tag False = Ok payload"
    using dec by (simp add: decrypt_in_place_def generate_nonce_def context_at_def Let_def schedule_mirror)
  show "decrypt_in_place cl (context_at cl s (\<not> r) (Suc e)) pn aad ciphertext tag True = Ok payload"
    using dec by (simp add: decrypt_in_place_def context_at_def fallback_at_def Let_def schedule_mirror)
  show "trial_decrypt_and_rotate cl (context_at cl s (\<not> r) d) pn aad ciphertext tag
      = Ok (context_at cl s (\<not> r) e, payload)" if "e = Suc d"
  proof -
    have nx: "cx_next_rx_iv (context_at cl s (\<not> r) d) = ek_tx_iv ?k"
      "cx_next_rx_cipher (context_at cl s (\<not> r) d) = ek_tx_cipher ?k"
      using that by (simp_all add: context_at_def Let_def schedule_mirror)
    have "rotate_keys cl (context_at cl s (\<not> r) d) = Ok (context_at cl s (\<not> r) e)"
      using rotate_context_at [of d] e that by simp
    then show ?thesis unfolding trial_decrypt_and_rotate_def nx by (simp add: dec)
  qed
qed

section \<open>Properties\<close>

text \<open>A library of primitives without any security, on which the hypotheses below can be evaluated.\<close>

definition plain_lib :: crypto_lib where
  "plain_lib = \<lparr>cl_hkdf_extract = \<lambda>salt ikm. ikm, cl_hkdf_expand = \<lambda>prk info n. replicate n 0,
     cl_chacha20 = \<lambda>key nonce position n. Some (replicate n 0x57),
     cl_aead_encrypt = \<lambda>key nonce aad payload. Some (payload, replicate 16 0),
     cl_aead_decrypt = \<lambda>key nonce aad payload tag. Some payload\<rparr>"

text \<open>
  C23: removing header protection undoes applying it, for long and short headers and every packet
  number length, and a protected packet is still routed and parsed alike: the connection id, the
  position of the packet number, the header form and everything outside the first byte and the four
  packet-number bytes are unchanged.
\<close>

theorem header_protection_roundtrip:
  assumes "get_pn_offset p = Some off" and "apply_header_protection cl p off k = Ok p'"
  shows "remove_header_protection cl p' off k = Ok p
    \<and> get_pn_offset p' = Some off \<and> extract_dcid_fast p' = extract_dcid_fast p
    \<and> length p' = length p \<and> (p' ! 0 AND 0x80 = 0 \<longleftrightarrow> p ! 0 AND 0x80 = 0)
    \<and> (\<forall>j. 0 < j \<longrightarrow> j < off \<longrightarrow> p' ! j = p ! j) \<and> (\<forall>j. off + 4 \<le> j \<longrightarrow> j < length p \<longrightarrow> p' ! j = p ! j)"
proof -
  have "0 < off" using assms(1) by (auto simp: get_pn_offset_def Let_def split: if_splits)
  then show ?thesis using unprotect_protected [OF _ assms(2)] protected_layout [OF assms] by simp
qed

theorem header_protection_roundtrip_witness:
  "\<exists>p'. apply_header_protection plain_lib ([0x49, 1, 0xAA, 7, 8] @ replicate 30 3) 3 [] = Ok p'
     \<and> remove_header_protection plain_lib p' 3 [] = Ok ([0x49, 1, 0xAA, 7, 8] @ replicate 30 3)"
proof -
  let ?p = "[0x49, 1, 0xAA, 7, 8] @ replicate 30 3 :: bytes"
  have "get_pn_offset ?p = Some 3" by (simp add: get_pn_offset_def)
  moreover have "is_ok (apply_header_protection plain_lib ?p 3 [])"
    by (simp add: apply_header_protection_def plain_lib_def slice_def Let_def)
  then obtain p' where "apply_header_protection plain_lib ?p 3 [] = Ok p'" by (auto simp: is_ok_iff)
  ultimately show ?thesis using header_protection_roundtrip by blast
qed

text \<open>
  What a receiver that has made \<open>m\<close> key updates does with a payload sealed after \<open>n\<close> of them: at the same
  epoch it opens with the current keys, one epoch ahead of the sender with the fallback keys, one epoch
  behind by trial decryption, which takes the receiver to exactly the state of its next rotation.
\<close>

definition opens ::
  "crypto_lib \<Rightarrow> crypto_context \<Rightarrow> nat \<Rightarrow> nat \<Rightarrow> nat \<Rightarrow> bytes \<Rightarrow> bytes \<Rightarrow> bytes \<Rightarrow> bytes \<Rightarrow> bool" where
  "opens cl receiver m n pn aad ciphertext tag payload \<longleftrightarrow>
     (m = n \<longrightarrow> decrypt_in_place cl receiver pn aad ciphertext tag False = Ok payload)
   \<and> (m = n + 1 \<longrightarrow> decrypt_in_place cl receiver pn aad ciphertext tag True = Ok payload)
   \<and> (n = m + 1 \<longrightarrow> (\<exists>receiver'. rotate_keys cl receiver = Ok receiver'
        \<and> trial_decrypt_and_rotate cl receiver pn aad ciphertext tag = Ok (receiver', payload)))"

lemma context_at_opens:
  assumes "aead_sound cl" and "n + 2 < two64" and "m + 2 < two64"
    and "encrypt_in_place cl (context_at cl s r n) pn aad payload = Ok (ciphertext, tag)"
  shows "opens cl (context_at cl s (\<not> r) m) m n pn aad ciphertext tag payload"
  using context_opens(1,2) [OF assms(1,2,4)] context_opens(3) [OF assms(1,2,4), of m] rotate_context_at [of m cl s "\<not> r"] assms(3)
  by (auto simp: opens_def)

text \<open>
  C7: both ends of a handshake derive mirrored key schedules.  Whatever number of key updates each side has
  made, what either side seals is opened by the other when the two are at the same epoch or one apart: with
  the current keys, with the fallback keys, or by trial decryption.
\<close>

theorem key_updates_stay_synchronised:
  assumes "aead_sound cl" and "a + 2 < two64" and "b + 2 < two64"
    and "obind (from_shared_secret cl sh client_scid server_scid psk True) (rotated cl a) = Ok client"
    and "obind (from_shared_secret cl sh server_scid client_scid psk False) (rotated cl b) = Ok server"
  shows "(encrypt_in_place cl client pn aad payload = Ok (ciphertext, tag) \<longrightarrow> opens cl server b a pn aad ciphertext tag payload)
    \<and> (encrypt_in_place cl server pn aad payload = Ok (ciphertext, tag) \<longrightarrow> opens cl client a b pn aad ciphertext tag payload)"
proof -
  define s where "s = derive_master_secret cl sh client_scid server_scid psk True"
  have c: "client = context_at cl s True a" and v: "server = context_at cl s False b"
    using assms(2-5)
    by (simp_all add: from_shared_secret_def context_at_0 rotated_context_at s_def [symmetric]
        master_secret_agrees [symmetric] Let_def)
  show ?thesis
    using context_at_opens [OF assms(1,2,3), of s True] context_at_opens [OF assms(1,3,2), of s False] by (simp add: c v)
qed

theorem key_updates_stay_synchronised_witness:
  "\<exists>client server. obind (from_shared_secret plain_lib [1] [2] [3] None True) (rotated plain_lib 2) = Ok client
     \<and> obind (from_shared_secret plain_lib [1] [3] [2] None False) (rotated plain_lib 1) = Ok server
     \<and> (\<exists>server'. trial_decrypt_and_rotate plain_lib server 5 [9] [7, 7] (replicate 16 0) = Ok (server', [7, 7]))
     \<and> decrypt_in_place plain_lib client 5 [9] [7, 7] (replicate 16 0) True = Ok [7, 7]"
proof -
  define s where "s = derive_master_secret plain_lib [1] [2] [3] None True"
  have c: "obind (from_shared_secret plain_lib [1] [2] [3] None True) (rotated plain_lib 2) = Ok (context_at plain_lib s True 2)"
    and v: "obind (from_shared_secret plain_lib [1] [3] [2] None False) (rotated plain_lib 1) = Ok (context_at plain_lib s False 1)"
    by (simp_all add: from_shared_secret_def context_at_0 rotated_context_at s_def master_secret_agrees [symmetric] Let_def
        del: rotated.simps)
  have e: "encrypt_in_place plain_lib k 5 [9] [7, 7] = Ok ([7, 7], replicate 16 0)" for k
    by (simp add: encrypt_in_place_def plain_lib_def)
  have "aead_sound plain_lib" by (simp add: aead_sound_def plain_lib_def)
  from key_updates_stay_synchronised [OF this _ _ c v, of 5 "[9]" "[7, 7]" "[7, 7]" "replicate 16 0"] show ?thesis
    using c v by (auto simp: e opens_def)
qed

text \<open>
  C25: no nonce repeats: under one key two packet numbers never give the same nonce, and no two of the
  keys and initialisation vectors of a connection are derived under the same label.
\<close>

theorem nonces_and_labels_unique:
  assumes "length (cx_tx_iv c) = 12" and "m < two64" and "n < two64"
    and "a \<in> key_labels" and "b \<in> key_labels"
  shows "(generate_nonce c m True False = generate_nonce c n True False \<longleftrightarrow> m = n)
    \<and> (mk_label a d = mk_label b e \<longleftrightarrow> a = b \<and> d = e)"
  using nonce_inject [OF assms(1-3)] mk_label_inject [OF assms(4,5)] by (auto simp: generate_nonce_def)

theorem nonces_and_labels_unique_witness:
  "make_nonce_from_iv (replicate 12 0) 5 \<noteq> make_nonce_from_iv (replicate 12 0) 6
   \<and> mk_label ''client_key'' 12 \<noteq> mk_label ''client_key'' 112"
proof -
  let ?c = "(context_at plain_lib [] True 0)\<lparr>cx_tx_iv := replicate 12 0\<rparr>"
  have "(5 :: nat) < two64" "(6 :: nat) < two64" "length (cx_tx_iv ?c) = 12" "''client_key'' \<in> key_labels"
    by (simp_all add: key_labels_def)
  from nonces_and_labels_unique [OF this(3,1,2,4,4), of 12 112] show ?thesis by (simp add: generate_nonce_def)
qed

end
