(* ===== verification/Zt_Cookie.thy ===== *)
theory Zt_Cookie
  imports Zt_Prelude
begin

text \<open>
  Stateless retry cookies (\<^verbatim>\<open>src/src/transport/cookie.rs\<close>).  HMAC-SHA256 comes from a third-party
  crate and is the argument \<open>hmac\<close>; the time is the argument \<open>now\<close>, as in the source.
\<close>

section \<open>Definitions\<close>

fun octets :: "ip_addr \<Rightarrow> bytes" where
  "octets (V4 v4) = v4"
| "octets (V6 v6) = v6"

definition cookie_message :: "socket_addr \<Rightarrow> bytes \<Rightarrow> u64 \<Rightarrow> bytes" where
  "cookie_message addr client_scid now =
     octets (sa_ip addr) @ put_u16 (sa_port addr) @ client_scid @ put_u64 now"

definition make_retry_cookie ::
  "(bytes \<Rightarrow> bytes \<Rightarrow> bytes) \<Rightarrow> bytes \<Rightarrow> socket_addr \<Rightarrow> bytes \<Rightarrow> u64 \<Rightarrow> bytes outcome" where
  "make_retry_cookie hmac cookie_key addr client_scid now =
     (let time_bytes = put_u64 now;
          cookie_hash = hmac cookie_key (cookie_message addr client_scid now)
      in obind (copy_into (replicate 40 0) 0 time_bytes) (\<lambda>cookie.
         if length cookie_hash \<noteq> 32 then Panic else copy_into cookie 8 cookie_hash))"

definition verify_retry_cookie ::
  "(bytes \<Rightarrow> bytes \<Rightarrow> bytes) \<Rightarrow> bytes \<Rightarrow> socket_addr \<Rightarrow> bytes \<Rightarrow> bytes \<Rightarrow> u64 \<Rightarrow> u64 \<Rightarrow> bool outcome" where
  "verify_retry_cookie hmac cookie_key addr client_scid cookie now max_age_ms =
     (if length cookie \<noteq> 40 then Ok False
      else
        let cookie_time = from_be (take 8 cookie) :: u64 in
        if now < cookie_time \<or> now - cookie_time > max_age_ms then Ok False
        else
          obind (make_retry_cookie hmac cookie_key addr client_scid cookie_time) (\<lambda>expected.
          Ok (drop 8 expected = drop 8 cookie)))"

section \<open>Lemmas\<close>

lemma make_retry_cookie_eq:
  assumes "\<And>key msg. length (hmac key msg) = 32"
  shows "make_retry_cookie hmac cookie_key addr client_scid now
    = Ok (put_u64 now @ hmac cookie_key (cookie_message addr client_scid now))"
  using assms by (simp add: make_retry_cookie_def copy_into_def Let_def)

lemma from_be_take8: "length bs = 8 \<Longrightarrow> put_u64 (from_be bs) = bs"
proof -
  assume "length bs = 8"
  have "to_be n (from_be bs :: u64) = bs" if "length bs = n" "n \<le> 8" for n
    using that
  proof (induction n arbitrary: bs)
    case (Suc n)
    then obtain cs b where bs: "bs = cs @ [b]" by (metis append_butlast_last_id list.size(3) nat.distinct(1))
    have bound: "\<not> bit (from_be cs :: u64) k" if "8 * n \<le> k" for k
      using Suc.IH [of cs] Suc.prems bs from_be_to_be [of n "from_be cs :: u64"] that
      by (metis bit_take_bit_iff length_append_singleton nat.inject not_le Suc_leD)
    have "drop_bit 8 (push_bit 8 (from_be cs) OR ucast b :: u64) = from_be cs"
    proof (rule bit_word_eqI)
      fix k
      have "bit (from_be cs :: u64) k \<Longrightarrow> k < 56" using bound [of k] Suc.prems by force
      then show "bit (drop_bit 8 (push_bit 8 (from_be cs) OR ucast b :: u64)) k = bit (from_be cs :: u64) k"
        by (auto simp: bit_drop_bit_eq bit_or_iff bit_push_bit_iff bit_ucast_iff dest: bit_imp_le_length)
    qed
    moreover have "ucast (push_bit 8 (from_be cs) OR ucast b :: u64) = b"
      by (rule bit_word_eqI) (auto simp: bit_or_iff bit_push_bit_iff bit_ucast_iff)
    ultimately show ?case using Suc.IH [of cs] Suc.prems bs by simp
  qed simp
  then show ?thesis using \<open>length bs = 8\<close> by simp
qed

lemma cookie_message_inject:
  assumes "length (octets (sa_ip a)) = length (octets (sa_ip b))"
    and "cookie_message a scid t = cookie_message b scid' t'"
  shows "octets (sa_ip a) = octets (sa_ip b) \<and> sa_port a = sa_port b \<and> scid = scid' \<and> t = t'"
proof -
  have m: "octets (sa_ip a) @ put_u16 (sa_port a) @ scid @ put_u64 t
    = octets (sa_ip b) @ put_u16 (sa_port b) @ scid' @ put_u64 t'"
    using assms(2) by (simp add: cookie_message_def)
  then have ip: "octets (sa_ip a) = octets (sa_ip b)"
    and r: "put_u16 (sa_port a) @ scid @ put_u64 t = put_u16 (sa_port b) @ scid' @ put_u64 t'"
    using assms(1) by (simp_all add: append_eq_append_conv)
  then have port: "put_u16 (sa_port a) = put_u16 (sa_port b)" and r: "scid @ put_u64 t = scid' @ put_u64 t'"
    by (simp_all add: append_eq_append_conv)
  have "length (put_u64 t) = length (put_u64 t')" by simp
  with r have "scid = scid'" "put_u64 t = put_u64 t'" by (simp_all add: append_eq_append_conv)
  moreover have "from_be (put_u16 x) = x" "from_be (put_u64 y) = y" for x :: u16 and y :: u64
    by (simp_all add: from_be_to_be take_bit_word_eq_self)
  ultimately show ?thesis using ip port by metis
qed

lemma verify_retry_cookie_eq:
  assumes "\<And>key msg. length (hmac key msg) = 32"
  shows "verify_retry_cookie hmac cookie_key addr scid cookie now max_age
    = Ok (\<exists>t. t \<le> now \<and> now - t \<le> max_age \<and> make_retry_cookie hmac cookie_key addr scid t = Ok cookie)"
proof -
  note mk = make_retry_cookie_eq [of hmac, OF assms]
  let ?t = "from_be (take 8 cookie) :: u64"
  have t: "t = ?t" if "cookie = put_u64 t @ hmac cookie_key (cookie_message addr scid t)" for t
    by (simp add: that from_be_to_be take_bit_word_eq_self)
  show ?thesis
  proof (cases "length cookie = 40")
    case True
    have cookie: "cookie = put_u64 ?t @ drop 8 cookie" using from_be_take8 [of "take 8 cookie"] True by simp
    then have "put_u64 ?t @ hmac cookie_key (cookie_message addr scid ?t) = cookie
        \<longleftrightarrow> hmac cookie_key (cookie_message addr scid ?t) = drop 8 cookie"
      by (metis append_eq_append_conv)
    then show ?thesis using True t by (auto simp: verify_retry_cookie_def mk Let_def not_less not_le)
  next
    case False
    then show ?thesis using assms by (auto simp: verify_retry_cookie_def mk)
  qed
qed

section \<open>Properties\<close>

text \<open>
  C26: a cookie is accepted exactly if it is the one the server itself would make for this address and
  connection id at some time not in the future and not longer ago than the maximal age; malformed
  cookies of any length are rejected without a panic.
\<close>

theorem cookie_accepted_iff_issued:
  assumes "\<And>key msg. length (hmac key msg) = 32"
  shows "verify_retry_cookie hmac cookie_key addr scid cookie now max_age
    = Ok (\<exists>t. t \<le> now \<and> now - t \<le> max_age \<and> make_retry_cookie hmac cookie_key addr scid t = Ok cookie)"
  by (rule verify_retry_cookie_eq [OF assms])

theorem cookie_accepted_iff_issued_witness:
  "verify_retry_cookie (\<lambda>key msg. replicate 32 9) [] (SocketAddr (V4 [127, 0, 0, 1]) 80) [1]
     (put_u64 1000 @ replicate 32 9) 6000 5000 = Ok True"
proof -
  have h: "\<And>key msg. length ((\<lambda>key msg. replicate 32 9 :: bytes) (key :: bytes) (msg :: bytes)) = 32" by simp
  have "make_retry_cookie (\<lambda>key msg. replicate 32 9) [] (SocketAddr (V4 [127, 0, 0, 1]) 80) [1] 1000
    = Ok (put_u64 1000 @ replicate 32 9)" by (rule make_retry_cookie_eq) simp
  moreover have "(1000 :: u64) \<le> 6000 \<and> (6000 :: u64) - 1000 \<le> 5000" by simp
  ultimately show ?thesis
    unfolding cookie_accepted_iff_issued [of "\<lambda>key msg. replicate 32 9", OF h] by blast
qed

text \<open>
  C27: barring a collision of the hash, a cookie issued to one client is accepted only for the same
  address, port and connection id, within one address family.
\<close>

theorem cookie_binds_client:
  assumes "\<And>key msg. length (hmac key msg) = 32"
    and "make_retry_cookie hmac cookie_key addr scid t = Ok cookie"
    and "verify_retry_cookie hmac cookie_key addr' scid' cookie now max_age = Ok True"
    and "hmac cookie_key (cookie_message addr scid t) = hmac cookie_key (cookie_message addr' scid' t) \<Longrightarrow>
      cookie_message addr scid t = cookie_message addr' scid' t"
    and "length (octets (sa_ip addr)) = length (octets (sa_ip addr'))"
  shows "octets (sa_ip addr') = octets (sa_ip addr) \<and> sa_port addr' = sa_port addr \<and> scid' = scid"
proof -
  note mk = make_retry_cookie_eq [of hmac, OF assms(1)]
  have "\<exists>t'. make_retry_cookie hmac cookie_key addr' scid' t' = Ok cookie"
    using assms(3) unfolding verify_retry_cookie_eq [of hmac, OF assms(1)] by blast
  then obtain t' where "put_u64 t' @ hmac cookie_key (cookie_message addr' scid' t')
      = put_u64 t @ hmac cookie_key (cookie_message addr scid t)"
    using assms(2) unfolding mk by auto
  then have time: "put_u64 t' = put_u64 t"
    and hash: "hmac cookie_key (cookie_message addr' scid' t') = hmac cookie_key (cookie_message addr scid t)"
    by simp_all
  have "t' = t"
    using arg_cong [OF time, of "from_be :: bytes \<Rightarrow> u64"] by (simp add: from_be_to_be take_bit_word_eq_self)
  then have "cookie_message addr scid t = cookie_message addr' scid' t" using assms(4) hash by simp
  from cookie_message_inject [OF assms(5) this] show ?thesis by simp
qed

theorem cookie_binds_client_witness:
  "\<exists>hmac cookie_key cookie now max_age.
     verify_retry_cookie hmac cookie_key (SocketAddr (V4 [127, 0, 0, 1]) 80) [1] cookie now max_age = Ok True
     \<and> verify_retry_cookie hmac cookie_key (SocketAddr (V4 [127, 0, 0, 2]) 80) [1] cookie now max_age = Ok False"
proof -
  let ?h = "\<lambda>key msg. take 32 (msg @ replicate 32 0) :: bytes"
  let ?a = "SocketAddr (V4 [127, 0, 0, 1]) 80" and ?b = "SocketAddr (V4 [127, 0, 0, 2]) 80"
  have h: "\<And>key msg. length (?h (key :: bytes) msg) = 32" by simp
  obtain cookie where c: "make_retry_cookie ?h [] ?a [1] 1000 = Ok cookie"
    using make_retry_cookie_eq [of ?h, OF h] by blast
  have ok: "verify_retry_cookie ?h [] ?a [1] cookie 1500 5000 = Ok True"
    unfolding verify_retry_cookie_eq [of ?h, OF h]
    using c by (intro arg_cong [of _ _ Ok] iffD2 [OF eq_True] exI [of _ 1000]) simp
  have "verify_retry_cookie ?h [] ?b [1] cookie 1500 5000 \<noteq> Ok True"
  proof
    assume v: "verify_retry_cookie ?h [] ?b [1] cookie 1500 5000 = Ok True"
    have "?h [] (cookie_message ?a [1] 1000) \<noteq> ?h [] (cookie_message ?b [1] 1000)"
      by (simp add: cookie_message_def)
    then show False using cookie_binds_client [of ?h, OF h c v] by simp
  qed
  moreover obtain r where "verify_retry_cookie ?h [] ?b [1] cookie 1500 5000 = Ok r"
    using verify_retry_cookie_eq [of ?h, OF h] by blast
  ultimately have "verify_retry_cookie ?h [] ?b [1] cookie 1500 5000 = Ok False" by (cases r) auto
  with ok show ?thesis by (intro exI conjI)
qed

text \<open>
  C36: across address families the binding fails: the hashed message has no separators.  A cookie issued to an
  IPv4 client is accepted from the IPv6 address, port and connection id that the same bytes spell: the address
  consists of the IPv4 address, its port and the first ten bytes of the connection id, all else of the next
  two bytes of the id and its rest.  The client chooses its connection id.
\<close>

theorem cookie_confuses_families:
  assumes "\<And>key msg. length (hmac key msg) = 32" and "length v4 = 4" and "length low = 10"
    and "make_retry_cookie hmac cookie_key (SocketAddr (V4 v4) port) (low @ put_u16 port' @ scid) t = Ok cookie"
    and "t \<le> now" and "now - t \<le> max_age"
  shows "length (v4 @ put_u16 port @ low) = 16
    \<and> verify_retry_cookie hmac cookie_key (SocketAddr (V6 (v4 @ put_u16 port @ low)) port') scid cookie now max_age = Ok True"
proof -
  have "make_retry_cookie hmac cookie_key (SocketAddr (V6 (v4 @ put_u16 port @ low)) port') scid t = Ok cookie"
    using assms(4) by (simp add: make_retry_cookie_def cookie_message_def)
  then show ?thesis
    using assms(2,3,5,6) unfolding verify_retry_cookie_eq [of hmac, OF assms(1)] by auto
qed

theorem cookie_confuses_families_witness:
  "\<exists>cookie. make_retry_cookie (\<lambda>key msg. take 32 (msg @ replicate 32 0)) [] (SocketAddr (V4 [32, 1, 13, 184]) 443) (replicate 10 0 @ put_u16 53 @ [7]) 99 = Ok cookie
     \<and> verify_retry_cookie (\<lambda>key msg. take 32 (msg @ replicate 32 0)) [] (SocketAddr (V6 ([32, 1, 13, 184] @ put_u16 443 @ replicate 10 0)) 53) [7] cookie 120 5000 = Ok True"
proof -
  let ?h = "\<lambda>key msg. take 32 (msg @ replicate 32 0) :: bytes"
  have h: "\<And>key msg. length (?h (key :: bytes) msg) = 32" by simp
  obtain cookie where c: "make_retry_cookie ?h [] (SocketAddr (V4 [32, 1, 13, 184]) 443) (replicate 10 0 @ put_u16 53 @ [7]) 99 = Ok cookie"
    using make_retry_cookie_eq [of ?h, OF h] by blast
  from cookie_confuses_families [of ?h, OF h _ _ this, of 120 5000] c show ?thesis by auto
qed

end
