(* ===== verification/Zt_Termination.thy ===== *)
theory Zt_Termination
  imports Zt_Prelude
begin

text \<open>
  Why a stream or a connection ended (\<^verbatim>\<open>src/src/stream/termination.rs\<close>).  The mutex-protected optional
  reason is an option; locking never fails, since a poisoned lock is recovered.  Texts are their UTF-8
  bytes.
\<close>

datatype termination_reason =
    TrStreamReset u32 u64
  | TrConnectionClosed u64 bytes
  | TrIdleTimeout

type_synonym termination_cell = "termination_reason option"

definition termination_set :: "termination_reason \<Rightarrow> termination_cell \<Rightarrow> termination_cell" where
  "termination_set reason current = (if current = None then Some reason else current)"

fun termination_error :: "termination_cell \<Rightarrow> zt_error option" where
  "termination_error None = None"
| "termination_error (Some (TrStreamReset stream_id error_code)) = Some (StreamReset stream_id error_code)"
| "termination_error (Some (TrConnectionClosed error_code reason)) = Some (ConnectionClosedByPeer error_code reason)"
| "termination_error (Some TrIdleTimeout) = Some IdleTimeout"

definition termination_io_error :: "termination_cell \<Rightarrow> (io_kind \<times> zt_error) option" where
  "termination_io_error t =
     map_option (\<lambda>error. (if error = IdleTimeout then TimedOut else ConnectionAborted, error)) (termination_error t)"

lemma termination_set_keeps [simp]: "termination_set r (Some q) = Some q"
  by (simp add: termination_set_def)

lemma fold_termination_set: "fold termination_set rs t = (case t of Some q \<Rightarrow> Some q | None \<Rightarrow> (case rs of [] \<Rightarrow> None | r # _ \<Rightarrow> Some r))"
  by (induction rs arbitrary: t) (auto simp: termination_set_def split: option.splits list.splits)

section \<open>Properties\<close>

text \<open>
  The first cause wins.  However often and in whatever order the ends of a stream or connection
  are signalled, the error the application sees is that of the first signal, it is never lost, and it
  is reported as a timeout exactly for idle expiry.
\<close>

theorem first_termination_wins:
  "termination_error (fold termination_set (r # rs) None) = termination_error (Some r)
   \<and> (\<exists>kind error. termination_io_error (fold termination_set (r # rs) None) = Some (kind, error)
        \<and> termination_error (Some r) = Some error \<and> (kind = TimedOut \<longleftrightarrow> r = TrIdleTimeout))"
proof -
  have "fold termination_set (r # rs) None = Some r" by (simp only: fold_termination_set) simp
  then show ?thesis by (cases r) (simp_all add: termination_io_error_def)
qed

end
