(* ===== verification/Zt_Connection.thy ===== *)
theory Zt_Connection
  imports Zt_StreamBuffer Zt_Unacked Zt_Window Zt_Congestion Zt_Crypto Zt_Termination "HOL-Library.AList"
begin

text \<open>
  Per-connection state (\<^verbatim>\<open>src/src/transport/connection.rs\<close>, \<^verbatim>\<open>src/src/transport/state/stream_state.rs\<close>,
  \<^verbatim>\<open>src/src/transport/state/space.rs\<close>) and the acknowledgement processing of
  \<^verbatim>\<open>src/src/transport/congestion.rs\<close>.  Hash maps are association lists with distinct keys; no
  operation depends on their order.  What the connection shares with application tasks through \<^verbatim>\<open>Arc\<close>
  (the current MTU, the closed flag, termination cells, the wake-up of blocked writers) is kept as plain
  fields: the application reads them, the counter \<open>ss_window_signals\<close> counts the wake-ups, and
  \<open>ss_delivered\<close> logs the chunks handed to the application channel.  All instants taken while one message
  is handled are the argument \<open>now\<close>.  Totals of lengths of data held in memory are not range-tested.
\<close>

section \<open>Streams\<close>

record stream_state =
  ss_expected_rx_offset :: nat
  ss_next_tx_offset :: nat
  ss_receive_buffer :: stream_receive_buffer
  ss_window_size :: nat
  ss_tx_window :: nat
  ss_buffered_bytes :: nat
  ss_window_signals :: nat
  ss_app_tx :: bool
  ss_delivered :: "bytes list"
  ss_termination :: termination_cell
  ss_highest_rx_offset :: nat
  ss_final_rx_offset :: "nat option"
  ss_send_stopped_error :: "u64 option"
  ss_last_sent_max_data :: nat
  ss_last_window_update :: nat
  ss_bytes_read_in_epoch :: nat
  ss_stream_type :: stream_type

definition stream_new :: "stream_type \<Rightarrow> nat \<Rightarrow> nat \<Rightarrow> nat \<Rightarrow> stream_state" where
  "stream_new stream_type receive_window transmit_window now =
     \<lparr>ss_expected_rx_offset = 0, ss_next_tx_offset = 0,
      ss_receive_buffer = buffer_new receive_window, ss_window_size = receive_window,
      ss_tx_window = transmit_window, ss_buffered_bytes = 0, ss_window_signals = 0,
      ss_app_tx = True, ss_delivered = [], ss_termination = None, ss_highest_rx_offset = 0,
      ss_final_rx_offset = None, ss_send_stopped_error = None, ss_last_sent_max_data = receive_window,
      ss_last_window_update = now, ss_bytes_read_in_epoch = 0, ss_stream_type = stream_type\<rparr>"

definition signal_window_opened :: "stream_state \<Rightarrow> stream_state" where
  "signal_window_opened s = s\<lparr>ss_window_signals := ss_window_signals s + 1\<rparr>"

section \<open>Packet number spaces\<close>

record packet_space =
  ps_next_packet_number :: nat
  ps_unacked_packets :: unacked_window
  ps_replay_window :: replay_window
  ps_crypto :: "crypto_context option"

definition space_new :: packet_space where
  "space_new = \<lparr>ps_next_packet_number = 0, ps_unacked_packets = unacked_new,
     ps_replay_window = replay_new, ps_crypto = None\<rparr>"

definition space_next_packet_number :: "packet_space \<Rightarrow> (packet_space \<times> nat) outcome" where
  "space_next_packet_number s =
     (let n = ps_next_packet_number s in
      obind (ok_or PacketNumberOverflow (checked_add64 n 1)) (\<lambda>m.
      Ok (s\<lparr>ps_next_packet_number := m\<rparr>, n)))"

section \<open>The connection\<close>

datatype connection_state = Handshaking | Active | Closing | Closed

record zt_connection =
  cn_addr :: socket_addr
  cn_dcid :: bytes
  cn_scid :: bytes
  cn_state :: connection_state
  cn_next_packet_number :: nat
  cn_crypto :: "crypto_context option"
  cn_initial_space :: packet_space
  cn_handshake_space :: packet_space
  cn_app_space :: packet_space
  cn_streams :: "(u32 \<times> stream_state) list"
  cn_mtu_probes :: "(nat \<times> nat) list"
  cn_unacked_packets :: unacked_window
  cn_rtt :: nat
  cn_rttvar :: nat
  cn_rtt_initialized :: bool
  cn_local_window :: nat
  cn_remote_window :: nat
  cn_cc :: congestion_controller
  cn_pacing_tokens :: f64
  cn_last_pacing_update :: "nat option"
  cn_bytes_in_flight :: nat
  cn_mtu :: nat
  cn_shared_mtu :: nat
  cn_mtu_min :: nat
  cn_mtu_max :: nat
  cn_base_mtu :: nat
  cn_bytes_received :: nat
  cn_bytes_sent :: nat
  cn_conn_tx_offset :: nat
  cn_unpaced_queue :: "(unacked_payload \<times> nat) list"
  cn_queued_bytes :: nat
  cn_replay_window :: replay_window
  cn_ack_tracker :: ack_tracker
  cn_current_key_epoch :: nat
  cn_packets_since_key_update :: nat
  cn_cookie :: "bytes option"
  cn_handshake_packet :: "bytes option"
  cn_closed :: bool
  cn_largest_acked_received_at :: "nat option"
  cn_local_max_streams :: nat
  cn_peer_max_streams :: nat
  cn_peer_initial_stream_window :: nat
  cn_peer_max_datagram_size :: nat
  cn_idle_timeout :: nat
  cn_termination :: termination_cell
  cn_packets_lost :: nat
  cn_packets_retransmitted :: nat
  cn_mtu_probe_successes :: nat
  cn_mtu_probe_failures :: nat
  cn_mtu_blackhole_recoveries :: nat

definition connection_new :: "socket_addr \<Rightarrow> bytes \<Rightarrow> bytes \<Rightarrow> zt_config \<Rightarrow> zt_connection" where
  "connection_new addr scid dcid config =
     (let mtu = cfg_mtu_min config; initial_cwnd = 10 * mtu in
      \<lparr>cn_addr = addr, cn_dcid = dcid, cn_scid = scid, cn_state = Handshaking,
       cn_next_packet_number = 0, cn_crypto = None,
       cn_initial_space = space_new, cn_handshake_space = space_new, cn_app_space = space_new,
       cn_streams = [], cn_mtu_probes = [], cn_unacked_packets = unacked_new,
       cn_rtt = millis 333, cn_rttvar = millis 166, cn_rtt_initialized = False,
       cn_local_window = cfg_initial_max_data config, cn_remote_window = cfg_initial_max_data config,
       cn_cc = cc_new (cfg_cc_algorithm config) initial_cwnd mtu,
       cn_pacing_tokens = usize_as_f64 initial_cwnd, cn_last_pacing_update = None,
       cn_bytes_in_flight = 0, cn_mtu = mtu, cn_shared_mtu = mtu,
       cn_mtu_min = cfg_mtu_min config, cn_mtu_max = cfg_mtu_max config, cn_base_mtu = cfg_mtu_min config,
       cn_bytes_received = 0, cn_bytes_sent = 0, cn_conn_tx_offset = 0,
       cn_unpaced_queue = [], cn_queued_bytes = 0,
       cn_replay_window = replay_new, cn_ack_tracker = ack_new,
       cn_current_key_epoch = 0, cn_packets_since_key_update = 0,
       cn_cookie = None, cn_handshake_packet = None, cn_closed = False,
       cn_largest_acked_received_at = None,
       cn_local_max_streams = cfg_max_concurrent_streams config,
       cn_peer_max_streams = cfg_max_concurrent_streams config,
       cn_peer_initial_stream_window = cfg_initial_stream_window config,
       cn_peer_max_datagram_size = cfg_mtu_min config - 64,
       cn_idle_timeout = cfg_idle_timeout config, cn_termination = None,
       cn_packets_lost = 0, cn_packets_retransmitted = 0,
       cn_mtu_probe_successes = 0, cn_mtu_probe_failures = 0, cn_mtu_blackhole_recoveries = 0\<rparr>)"

definition get_next_packet_number :: "zt_connection \<Rightarrow> (zt_connection \<times> nat) outcome" where
  "get_next_packet_number c =
     (let n = cn_next_packet_number c in
      obind (ok_or PacketNumberOverflow (checked_add64 n 1)) (\<lambda>m.
      Ok (c\<lparr>cn_next_packet_number := m\<rparr>, n)))"

definition get_total_buffered_bytes :: "zt_connection \<Rightarrow> nat" where
  "get_total_buffered_bytes c = sum_list (map (ss_buffered_bytes \<circ> snd) (cn_streams c))"

definition total_allocated_buffer_size :: "zt_connection \<Rightarrow> nat" where
  "total_allocated_buffer_size c =
     foldl saturating_add64 0 (map (allocated_size \<circ> ss_receive_buffer \<circ> snd) (cn_streams c))"

section \<open>Path MTU discovery\<close>

definition record_mtu_probe_success :: "nat \<Rightarrow> zt_connection \<Rightarrow> zt_connection" where
  "record_mtu_probe_success target c =
     (let c = c\<lparr>cn_mtu_probe_successes := saturating_add64 (cn_mtu_probe_successes c) 1,
                cn_mtu_min := max (cn_mtu_min c) target\<rparr>
      in if target > cn_mtu c
         then c\<lparr>cn_mtu := target, cn_shared_mtu := target, cn_cc := cc_set_mtu target (cn_cc c)\<rparr>
         else c)"

definition record_mtu_probe_failure :: "nat \<Rightarrow> zt_connection \<Rightarrow> zt_connection" where
  "record_mtu_probe_failure target c =
     c\<lparr>cn_mtu_probe_failures := saturating_add64 (cn_mtu_probe_failures c) 1,
       cn_mtu_max := min (cn_mtu_max c) (target - 1)\<rparr>"

definition recover_mtu_blackhole :: "zt_connection \<Rightarrow> zt_connection \<times> bool" where
  "recover_mtu_blackhole c =
     (if cn_mtu c \<le> cn_base_mtu c then (c, False)
      else
        let previous_mtu = cn_mtu c in
        (c\<lparr>cn_mtu := cn_base_mtu c, cn_mtu_min := cn_base_mtu c,
           cn_mtu_max := max (previous_mtu - 1) (cn_base_mtu c), cn_shared_mtu := cn_base_mtu c,
           cn_cc := cc_set_mtu (cn_base_mtu c) (cn_cc c),
           cn_mtu_blackhole_recoveries := saturating_add64 (cn_mtu_blackhole_recoveries c) 1\<rparr>, True))"

section \<open>Received packet numbers\<close>

definition connection_is_replay :: "zt_connection \<Rightarrow> nat \<Rightarrow> bool" where
  "connection_is_replay c pn = is_replay (cn_replay_window c) pn"

definition mark_processed :: "nat \<Rightarrow> nat \<Rightarrow> zt_connection \<Rightarrow> zt_connection" where
  "mark_processed now pn c =
     (let is_new_highest = (case at_highest (cn_ack_tracker c) of None \<Rightarrow> True | Some h \<Rightarrow> pn \<ge> h);
          c = (if is_new_highest then c\<lparr>cn_largest_acked_received_at := Some now\<rparr> else c)
      in c\<lparr>cn_replay_window := replay_mark_processed pn (cn_replay_window c),
           cn_ack_tracker := ack_mark_processed pn (cn_ack_tracker c)\<rparr>)"

section \<open>Acknowledgements\<close>

text \<open>The local variables of \<^verbatim>\<open>handle_ack\<close> that its loops accumulate.\<close>

record ack_progress =
  ap_conn :: zt_connection
  ap_bytes_acked :: nat
  ap_in_flight_acked :: nat
  ap_sample_rtt :: "nat option"

definition settle_acked :: "nat \<Rightarrow> unacked_packet \<Rightarrow> ack_progress \<Rightarrow> ack_progress" where
  "settle_acked now up a =
     a\<lparr>ap_bytes_acked := (if up_is_mtu_probe up then ap_bytes_acked a else ap_bytes_acked a + payload_len (up_payload up)),
       ap_in_flight_acked := ap_in_flight_acked a + up_sent_bytes up,
       ap_sample_rtt := (if ap_sample_rtt a = None \<and> up_retries up = 0 then Some (now - up_sent_at up)
                         else ap_sample_rtt a)\<rparr>"

definition take_unacked :: "nat \<Rightarrow> ack_progress \<Rightarrow> ack_progress \<times> unacked_packet option" where
  "take_unacked pn a =
     (let (w, r) = unacked_remove pn (cn_unacked_packets (ap_conn a))
      in (a\<lparr>ap_conn := (ap_conn a)\<lparr>cn_unacked_packets := w\<rparr>\<rparr>, r))"

definition sack_packet :: "nat \<Rightarrow> nat \<Rightarrow> ack_progress \<Rightarrow> ack_progress" where
  "sack_packet now pn a =
     (case take_unacked pn a of
        (a, None) \<Rightarrow> a
      | (a, Some up) \<Rightarrow>
          let a = settle_acked now up a;
              c = ap_conn a
          in if up_is_mtu_probe up \<and> map_of (cn_mtu_probes c) pn \<noteq> None then
               let c = c\<lparr>cn_mtu_probes := AList.delete pn (cn_mtu_probes c)\<rparr>;
                   new_mtu = payload_len (up_payload up)
               in a\<lparr>ap_conn := (if new_mtu > cn_mtu c then record_mtu_probe_success new_mtu c else c)\<rparr>
             else a)"

definition sack_range :: "nat \<Rightarrow> nat \<times> nat \<Rightarrow> ack_progress \<Rightarrow> ack_progress outcome" where
  "sack_range now r a =
     (let (start, end) = r;
          w = cn_unacked_packets (ap_conn a);
          lower = max start (uw_base_pn w)
      in obind (add64 (uw_base_pn w) (length (uw_deque w))) (\<lambda>limit.
         let upper = min end limit
         in Ok (if lower \<le> upper then fold (sack_packet now) [lower..<upper + 1] a else a)))"

definition cumulative_packet :: "nat \<Rightarrow> nat \<Rightarrow> ack_progress \<Rightarrow> ack_progress" where
  "cumulative_packet now pn a =
     (case take_unacked pn a of (a, None) \<Rightarrow> a | (a, Some up) \<Rightarrow> settle_acked now up a)"

definition cumulative_ack :: "nat \<Rightarrow> nat \<Rightarrow> ack_progress \<Rightarrow> ack_progress" where
  "cumulative_ack now largest_acked_pn a =
     (let oldest_tracked = largest_acked_pn - 2047;
          cumulative_acked = takeWhile (\<lambda>pn. pn < oldest_tracked) (unacked_keys (cn_unacked_packets (ap_conn a)))
      in fold (cumulative_packet now) cumulative_acked a)"

fun lost_pns :: "nat \<Rightarrow> nat \<Rightarrow> nat \<Rightarrow> (nat \<times> unacked_packet) list \<Rightarrow> nat list outcome" where
  "lost_pns now time_threshold largest_acked_pn [] = Ok []"
| "lost_pns now time_threshold largest_acked_pn ((pn, up) # ups) =
     (if pn < largest_acked_pn then
        obind (add64 pn 3) (\<lambda>limit.
        let packet_threshold = (limit \<le> largest_acked_pn);
            time_threshold_met = (now - up_sent_at up > time_threshold)
        in obind (lost_pns now time_threshold largest_acked_pn ups) (\<lambda>lost.
           Ok (if packet_threshold \<or> time_threshold_met then pn # lost else lost)))
      else Ok [])"

definition lose_packet ::
  "nat \<Rightarrow> zt_connection \<times> (unacked_payload \<times> nat) list \<times> bool \<Rightarrow>
   zt_connection \<times> (unacked_payload \<times> nat) list \<times> bool" where
  "lose_packet pn x =
     (let (c, fast_retransmits, loss_detected) = x;
          (w, r) = unacked_remove pn (cn_unacked_packets c);
          c = c\<lparr>cn_unacked_packets := w\<rparr>
      in case r of
           None \<Rightarrow> (c, fast_retransmits, loss_detected)
         | Some up \<Rightarrow>
             let c = c\<lparr>cn_bytes_in_flight := cn_bytes_in_flight c - up_sent_bytes up\<rparr> in
             if up_is_mtu_probe up then
               let c = c\<lparr>cn_mtu_probes := AList.delete pn (cn_mtu_probes c)\<rparr>;
                   c = (case up_payload up of UpMtuProbe target \<Rightarrow> record_mtu_probe_failure target c | _ \<Rightarrow> c)
               in (c, fast_retransmits, loss_detected)
             else case up_payload up of
               UpDatagram _ \<Rightarrow> (c, fast_retransmits, True)
             | _ \<Rightarrow> (c, fast_retransmits @ [(up_payload up, up_retries up)], True))"

definition update_rtt :: "nat \<Rightarrow> nat option \<Rightarrow> zt_connection \<Rightarrow> zt_connection" where
  "update_rtt ack_delay_us sample_rtt c =
     (case sample_rtt of
        None \<Rightarrow> c
      | Some rtt \<Rightarrow>
          let ack_delay = ack_delay_us * 1000;
              rtt = (if rtt > ack_delay then rtt - ack_delay else rtt)
          in if \<not> cn_rtt_initialized c
             then c\<lparr>cn_rtt := rtt, cn_rttvar := rtt div 2, cn_rtt_initialized := True\<rparr>
             else
               let error = (cn_rtt c - rtt) + (rtt - cn_rtt c)
               in c\<lparr>cn_rttvar := (cn_rttvar c * 3 + error) div 4, cn_rtt := (cn_rtt c * 7 + rtt) div 8\<rparr>)"

definition signal_all :: "zt_connection \<Rightarrow> zt_connection" where
  "signal_all c = c\<lparr>cn_streams := map (\<lambda>(id, s). (id, signal_window_opened s)) (cn_streams c)\<rparr>"

definition finish_ack ::
  "f64_lib \<Rightarrow> nat \<Rightarrow> u32 \<Rightarrow> nat \<Rightarrow> ack_progress \<Rightarrow>
   zt_connection \<times> (unacked_payload \<times> nat) list \<times> bool \<Rightarrow>
   (zt_connection \<times> (unacked_payload \<times> nat) list) outcome" where
  "finish_ack fl now window_size ack_delay_us a x =
     (let (c, fast_retransmits, loss_detected) = x in
      obind (if loss_detected then cc_on_congestion_event fl (cn_rtt c) now (cn_cc c) else Ok (cn_cc c)) (\<lambda>cc.
      let c = c\<lparr>cn_cc := cc, cn_bytes_in_flight := cn_bytes_in_flight c - ap_in_flight_acked a\<rparr>;
          c = update_rtt ack_delay_us (ap_sample_rtt a) c
      in obind (if ap_bytes_acked a > 0 then cc_on_packet_acked fl (ap_bytes_acked a) (cn_rtt c) now (cn_cc c)
                else Ok (cn_cc c)) (\<lambda>cc.
         let c = c\<lparr>cn_cc := cc\<rparr>;
             old_remote_window = cn_remote_window c;
             c = c\<lparr>cn_remote_window := unat window_size\<rparr>;
             c = (if unat window_size > old_remote_window \<or> ap_bytes_acked a > 0 then signal_all c else c)
         in Ok (c, fast_retransmits))))"

definition handle_ack ::
  "f64_lib \<Rightarrow> nat \<Rightarrow> nat \<Rightarrow> u32 \<Rightarrow> nat \<Rightarrow> (nat \<times> nat) list \<Rightarrow> zt_connection \<Rightarrow>
   (zt_connection \<times> (unacked_payload \<times> nat) list) outcome" where
  "handle_ack fl now largest_acked_pn window_size ack_delay_us sack_ranges c =
     obind (osteps (sack_range now) sack_ranges
         \<lparr>ap_conn = c, ap_bytes_acked = 0, ap_in_flight_acked = 0, ap_sample_rtt = None\<rparr>) (\<lambda>a.
     let a = cumulative_ack now largest_acked_pn a;
         c = ap_conn a
     in obind (mul_f64 (cn_rtt c) (round_f64 (5/4))) (\<lambda>threshold.
        let time_threshold = max threshold (millis 15)
        in obind (lost_pns now time_threshold largest_acked_pn (unacked_iter (cn_unacked_packets c))) (\<lambda>lost.
           let c = c\<lparr>cn_packets_lost := saturating_add64 (cn_packets_lost c) (length lost)\<rparr>
           in finish_ack fl now window_size ack_delay_us a (fold lose_packet lost (c, [], False)))))"

end
