(* ===== verification/Zt_Ack.thy ===== *)
theory Zt_Ack
  imports Zt_Connection
begin

text \<open>
  Acknowledgements: what \<^verbatim>\<open>ZtConnection::handle_ack\<close> does to the window of unacknowledged packets, to
  the counter of bytes in flight and to the path MTU search.
\<close>

section \<open>Bytes in flight\<close>

definition weight :: "(unacked_packet \<Rightarrow> nat) \<Rightarrow> unacked_window \<Rightarrow> nat" where
  "weight f w = sum_list (map (f \<circ> snd) (unacked_iter w))"

abbreviation in_flight :: "unacked_window \<Rightarrow> nat" where
  "in_flight \<equiv> weight up_sent_bytes"

lemma unacked_iter_distinct: "distinct (map fst (unacked_iter w))" "distinct (unacked_iter w)"
proof -
  show "distinct (map fst (unacked_iter w))"
    using unacked_keys_sorted [of w] by (simp add: unacked_keys_def strict_sorted_iff)
  then show "distinct (unacked_iter w)" by (simp add: distinct_map)
qed

lemma weight_sum: "weight f w = (\<Sum>pn\<in>dom (unacked_lookup w). f (the (unacked_lookup w pn)))"
proof -
  have "weight f w = sum (f \<circ> snd) (set (unacked_iter w))"
    unfolding weight_def by (rule sum_list_distinct_conv_sum_set [OF unacked_iter_distinct(2)])
  also have "\<dots> = (\<Sum>pn\<in>dom (unacked_lookup w). f (the (unacked_lookup w pn)))"
    by (rule sum.reindex_bij_witness [of _ "\<lambda>pn. (pn, the (unacked_lookup w pn))" fst])
       (auto simp: unacked_iter_set)
  finally show ?thesis .
qed

lemma weight_remove:
  assumes "unacked_inv w" and "unacked_remove pn w = (w', r)"
  shows "weight f w = weight f w' + (case r of None \<Rightarrow> 0 | Some up \<Rightarrow> f up)"
proof -
  note law = uw.remove_law [OF assms]
  have fin: "finite (dom (unacked_lookup w))" using uw.size_law [OF assms(1)] by simp
  have rest: "weight f w' = (\<Sum>k\<in>dom (unacked_lookup w) - {pn}. f (the (unacked_lookup w k)))"
    unfolding weight_sum using law by (intro sum.cong) (auto simp: domIff)
  show ?thesis
  proof (cases r)
    case None
    then show ?thesis using law rest by (simp add: weight_sum domIff)
  next
    case (Some up)
    then have "pn \<in> dom (unacked_lookup w)" "the (unacked_lookup w pn) = up" using law by (auto simp: domIff)
    then show ?thesis
      using sum.remove [OF fin, of pn "\<lambda>k. f (the (unacked_lookup w k))"] rest Some
      by (simp add: weight_sum)
  qed
qed

lemma weight_insert:
  assumes "unacked_inv w" and "\<And>k. unacked_lookup w k \<noteq> None \<Longrightarrow> k < pn"
  shows "weight f (unacked_insert pn up w) = weight f w + f up"
proof -
  have look: "unacked_lookup (unacked_insert pn up w) = (unacked_lookup w)(pn \<mapsto> up)"
    using uw.insert_law [OF assms(1)] assms(2) by (simp add: less_imp_le)
  have fin: "finite (dom (unacked_lookup w))" using uw.size_law [OF assms(1)] by simp
  have new: "pn \<notin> dom (unacked_lookup w)" using assms(2) by force
  have "weight f (unacked_insert pn up w)
    = f up + (\<Sum>k\<in>dom (unacked_lookup w). f (the (((unacked_lookup w)(pn \<mapsto> up)) k)))"
    unfolding weight_sum look using fin new by simp
  also have "\<dots> = f up + weight f w"
    unfolding weight_sum using new by (auto intro!: sum.cong)
  finally show ?thesis by simp
qed

section \<open>Removing acknowledged packets\<close>

text \<open>The state of the acknowledgement loops after the packet numbers in \<open>S\<close> have been settled.\<close>

definition settled :: "zt_connection \<Rightarrow> nat set \<Rightarrow> ack_progress \<Rightarrow> bool" where
  "settled c S a \<longleftrightarrow> unacked_inv (cn_unacked_packets (ap_conn a))
     \<and> unacked_lookup (cn_unacked_packets (ap_conn a)) = (\<lambda>pn. if pn \<in> S then None else unacked_lookup (cn_unacked_packets c) pn)
     \<and> in_flight (cn_unacked_packets c) = in_flight (cn_unacked_packets (ap_conn a)) + ap_in_flight_acked a
     \<and> cn_bytes_in_flight (ap_conn a) = cn_bytes_in_flight c
     \<and> cn_rtt (ap_conn a) = cn_rtt c"

lemma settled_lookup:
  "settled c S a \<Longrightarrow> unacked_lookup (cn_unacked_packets (ap_conn a)) pn
     = (if pn \<in> S then None else unacked_lookup (cn_unacked_packets c) pn)"
  by (simp add: settled_def)

lemma settled_take:
  assumes "settled c S a" and "take_unacked pn a = (a', r)"
  shows "r = (if pn \<in> S then None else unacked_lookup (cn_unacked_packets c) pn)
    \<and> (r = None \<longrightarrow> settled c (insert pn S) a')
    \<and> (\<forall>up. r = Some up \<longrightarrow> settled c (insert pn S) (settle_acked now up a'))"
proof -
  let ?w = "cn_unacked_packets (ap_conn a)"
  obtain w' where rm: "unacked_remove pn ?w = (w', r)" and a': "a' = a\<lparr>ap_conn := (ap_conn a)\<lparr>cn_unacked_packets := w'\<rparr>\<rparr>"
    using assms(2) by (auto simp: take_unacked_def split: prod.splits)
  have inv: "unacked_inv ?w" using assms(1) by (simp add: settled_def)
  note law = uw.remove_law [OF inv rm] weight_remove [of _ _ _ _ up_sent_bytes, OF inv rm]
  then show ?thesis
    using assms(1) by (auto simp: settled_def a' settle_acked_def fun_eq_iff split: if_splits)
qed

lemma settled_conn:
  assumes "settled c S a" and "cn_unacked_packets c' = cn_unacked_packets (ap_conn a)"
    and "cn_bytes_in_flight c' = cn_bytes_in_flight (ap_conn a)" and "cn_rtt c' = cn_rtt (ap_conn a)"
  shows "settled c S (a\<lparr>ap_conn := c'\<rparr>)"
  using assms by (simp add: settled_def)

lemma probe_success_keeps [simp]:
  "cn_unacked_packets (record_mtu_probe_success t c) = cn_unacked_packets c"
  "cn_bytes_in_flight (record_mtu_probe_success t c) = cn_bytes_in_flight c"
  "cn_rtt (record_mtu_probe_success t c) = cn_rtt c"
  by (simp_all add: record_mtu_probe_success_def Let_def)

lemma settled_sack_packet: "settled c S a \<Longrightarrow> settled c (insert pn S) (sack_packet now pn a)"
proof -
  assume s: "settled c S a"
  obtain a' r where t: "take_unacked pn a = (a', r)" by force
  note st = settled_take [OF s t, of now]
  show ?thesis
  proof (cases r)
    case None
    then show ?thesis using st t by (simp add: sack_packet_def)
  next
    case (Some up)
    then have "settled c (insert pn S) (settle_acked now up a')" using st by simp
    then show ?thesis using t Some by (auto simp: sack_packet_def Let_def intro!: settled_conn)
  qed
qed

lemma settled_cumulative_packet: "settled c S a \<Longrightarrow> settled c (insert pn S) (cumulative_packet now pn a)"
  using settled_take [of c S a pn _ _ now] by (auto simp: cumulative_packet_def split: prod.splits option.splits)

lemma settled_fold:
  assumes "\<And>pn S a. settled c S a \<Longrightarrow> settled c (insert pn S) (f pn a)" and "settled c S a"
  shows "settled c (S \<union> set pns) (fold f pns a)"
  using assms(2)
proof (induction pns arbitrary: S a)
  case (Cons pn pns)
  then show ?case using Cons.IH [of "insert pn S" "f pn a"] assms(1) by simp
qed simp

lemma settled_widen:
  assumes "settled c S a" and "\<And>pn. pn \<in> T \<Longrightarrow> pn \<notin> S \<Longrightarrow> unacked_lookup (cn_unacked_packets (ap_conn a)) pn = None"
  shows "settled c (S \<union> T) a"
  using assms by (auto simp: settled_def fun_eq_iff)

lemma lookup_in_window: "unacked_lookup w pn \<noteq> None \<Longrightarrow> uw_base_pn w \<le> pn \<and> pn < uw_base_pn w + length (uw_deque w)"
  by (auto simp: unacked_lookup_def Let_def split: if_splits)

lemma settled_sack_range:
  assumes s: "settled c S a" and run: "sack_range now r a = Ok a'"
  shows "settled c (S \<union> {fst r..snd r}) a'"
proof -
  let ?w = "cn_unacked_packets (ap_conn a)"
  define lower upper where "lower = max (fst r) (uw_base_pn ?w)" and "upper = min (snd r) (uw_base_pn ?w + length (uw_deque ?w))"
  define a1 where "a1 = (if lower \<le> upper then fold (sack_packet now) [lower..<upper + 1] a else a)"
  have a1: "settled c (S \<union> {lower..upper}) a1"
    using settled_fold [of c "sack_packet now" S a "[lower..<upper + 1]", OF settled_sack_packet s] s
    unfolding set_upt Suc_eq_plus1 [symmetric] atLeastLessThanSuc_atLeastAtMost
    by (simp add: a1_def del: upt_Suc)
  have out: "unacked_lookup (cn_unacked_packets (ap_conn a1)) pn = None"
    if "pn \<in> {fst r..snd r}" "pn \<notin> S \<union> {lower..upper}" for pn
  proof -
    have "unacked_lookup ?w pn = None"
      using that lookup_in_window [of ?w pn] by (force simp: lower_def upper_def)
    then show ?thesis using settled_lookup [OF a1, of pn] settled_lookup [OF s, of pn] that by simp
  qed
  have "settled c (S \<union> {lower..upper} \<union> {fst r..snd r}) a1" by (rule settled_widen [OF a1 out])
  moreover have "S \<union> {lower..upper} \<union> {fst r..snd r} = S \<union> {fst r..snd r}" by (auto simp: lower_def upper_def)
  moreover have "a' = a1"
    using run by (auto simp: sack_range_def a1_def lower_def upper_def obind_eq_Ok add64_def case_prod_unfold Let_def split: if_splits simp del: upt_Suc)
  ultimately show ?thesis by simp
qed

lemma takeWhile_sorted:
  fixes f :: "'a \<Rightarrow> nat"
  assumes "sorted_wrt (<) (map f xs)" and "\<And>x y. f x < f y \<Longrightarrow> P y \<Longrightarrow> P x"
  shows "takeWhile P xs = filter P xs"
  using assms
proof (induction xs)
  case (Cons x xs)
  then show ?case by (auto intro!: filter_False [symmetric])
qed simp

lemma unacked_keys_set: "set (unacked_keys w) = dom (unacked_lookup w)"
  by (auto simp: unacked_keys_def unacked_iter_set image_iff)

lemma settled_cumulative_ack:
  assumes s: "settled c S a" and old: "old = largest - 2047"
  shows "settled c (S \<union> {..<old}) (cumulative_ack now largest a)"
proof -
  let ?w = "cn_unacked_packets (ap_conn a)"
  define pns where "pns = takeWhile (\<lambda>pn. pn < old) (unacked_keys ?w)"
  have "pns = filter (\<lambda>pn. pn < old) (unacked_keys ?w)"
    unfolding pns_def by (rule takeWhile_sorted [of id]) (simp_all add: unacked_keys_sorted)
  then have pns: "set pns = {pn \<in> dom (unacked_lookup ?w). pn < old}"
    by (simp add: unacked_keys_set)
  define a1 where "a1 = fold (cumulative_packet now) pns a"
  have a1: "settled c (S \<union> set pns) a1"
    unfolding a1_def by (rule settled_fold [OF settled_cumulative_packet s])
  have "settled c (S \<union> set pns \<union> {..<old}) a1"
  proof (rule settled_widen [OF a1])
    fix pn
    assume "pn \<in> {..<old}" "pn \<notin> S \<union> set pns"
    then have "unacked_lookup ?w pn = None" using pns by (auto simp: domIff)
    then show "unacked_lookup (cn_unacked_packets (ap_conn a1)) pn = None"
      using settled_lookup [OF a1, of pn] settled_lookup [OF s, of pn] \<open>pn \<notin> S \<union> set pns\<close> by simp
  qed
  moreover have "S \<union> set pns \<union> {..<old} = S \<union> {..<old}" using pns by auto
  moreover have "cumulative_ack now largest a = a1" by (simp add: cumulative_ack_def a1_def pns_def old Let_def)
  ultimately show ?thesis by simp
qed

lemma settled_sack_ranges:
  "settled c S a \<Longrightarrow> osteps (sack_range now) rs a = Ok a' \<Longrightarrow> settled c (S \<union> (\<Union>r\<in>set rs. {fst r..snd r})) a'"
proof (induction rs arbitrary: S a)
  case (Cons r rs)
  then obtain a1 where "sack_range now r a = Ok a1" "osteps (sack_range now) rs a1 = Ok a'" by (auto simp: obind_eq_Ok)
  then show ?case using Cons.IH [OF settled_sack_range [OF Cons.prems(1)]] by (simp add: Un_assoc)
qed simp

section \<open>Declaring packets lost\<close>

definition reliable :: "unacked_packet \<Rightarrow> bool" where
  "reliable up \<longleftrightarrow> \<not> up_is_mtu_probe up \<and> (case up_payload up of UpDatagram _ \<Rightarrow> False | _ \<Rightarrow> True)"

definition resend :: "nat \<times> unacked_packet \<Rightarrow> unacked_payload \<times> nat" where
  "resend x = (up_payload (snd x), up_retries (snd x))"

lemma probe_failure_keeps [simp]:
  "cn_unacked_packets (record_mtu_probe_failure t c) = cn_unacked_packets c"
  "cn_bytes_in_flight (record_mtu_probe_failure t c) = cn_bytes_in_flight c"
  "cn_rtt (record_mtu_probe_failure t c) = cn_rtt c"
  by (simp_all add: record_mtu_probe_failure_def)

lemma lose_packet_one:
  assumes "unacked_inv (cn_unacked_packets c)" and "unacked_lookup (cn_unacked_packets c) pn = Some up"
    and "lose_packet pn (c, frs, d) = (c', frs', d')"
  shows "unacked_inv (cn_unacked_packets c')
    \<and> unacked_lookup (cn_unacked_packets c') = (unacked_lookup (cn_unacked_packets c))(pn := None)
    \<and> in_flight (cn_unacked_packets c) = in_flight (cn_unacked_packets c') + up_sent_bytes up
    \<and> cn_bytes_in_flight c' = cn_bytes_in_flight c - up_sent_bytes up \<and> cn_rtt c' = cn_rtt c
    \<and> frs' = frs @ (if reliable up then [resend (pn, up)] else [])"
proof -
  obtain w r where rm: "unacked_remove pn (cn_unacked_packets c) = (w, r)" by force
  with uw.remove_law [OF assms(1) rm] assms(2) have rm: "unacked_remove pn (cn_unacked_packets c) = (w, Some up)" by simp
  note law = uw.remove_law [OF assms(1) rm]
  note facts = conjunct1 [OF law] conjunct1 [OF conjunct2 [OF law]] weight_remove [of _ _ _ _ up_sent_bytes, OF assms(1) rm]
  show ?thesis
    using assms(3) facts
    by (cases "up_is_mtu_probe up"; cases "up_payload up")
       (auto simp: lose_packet_def rm reliable_def resend_def Let_def)
qed

lemma lose_packets:
  assumes "unacked_inv (cn_unacked_packets c)" and "distinct (map fst xs)"
    and "\<And>pn up. (pn, up) \<in> set xs \<Longrightarrow> unacked_lookup (cn_unacked_packets c) pn = Some up"
    and "fold lose_packet (map fst xs) (c, frs, d) = (c', frs', d')"
  shows "unacked_inv (cn_unacked_packets c')
    \<and> unacked_lookup (cn_unacked_packets c') = (\<lambda>pn. if pn \<in> fst ` set xs then None else unacked_lookup (cn_unacked_packets c) pn)
    \<and> in_flight (cn_unacked_packets c) = in_flight (cn_unacked_packets c') + sum_list (map (\<lambda>(pn, up). up_sent_bytes up) xs)
    \<and> cn_bytes_in_flight c' = cn_bytes_in_flight c - sum_list (map (\<lambda>(pn, up). up_sent_bytes up) xs)
    \<and> cn_rtt c' = cn_rtt c \<and> frs' = frs @ map resend (filter (\<lambda>(pn, up). reliable up) xs)"
  using assms
proof (induction xs arbitrary: c frs d)
  case (Cons x xs)
  obtain pn up where x: "x = (pn, up)" by force
  obtain c1 frs1 d1 where step: "lose_packet pn (c, frs, d) = (c1, frs1, d1)" by (metis prod_cases3)
  have look: "unacked_lookup (cn_unacked_packets c) pn = Some up" using Cons.prems(3) x by simp
  note one = lose_packet_one [OF Cons.prems(1) look step]
  have "unacked_lookup (cn_unacked_packets c1) k = Some u" if "(k, u) \<in> set xs" for k u
    using that one Cons.prems(2,3) x by (force simp: image_iff)
  then show ?case
    using Cons.IH [of c1 frs1 d1] one Cons.prems(2,4) x step by (auto simp: fun_eq_iff)
qed simp

definition late :: "nat \<Rightarrow> nat \<Rightarrow> nat \<Rightarrow> nat \<Rightarrow> unacked_packet \<Rightarrow> bool" where
  "late now threshold largest pn up \<longleftrightarrow>
     pn < largest \<and> (pn + 3 \<le> largest \<or> now - up_sent_at up > threshold)"

lemma lost_pns_takeWhile:
  "lost_pns now threshold largest ups = Ok pns \<Longrightarrow>
     pns = map fst (filter (\<lambda>(pn, up). pn + 3 \<le> largest \<or> now - up_sent_at up > threshold) (takeWhile (\<lambda>(pn, up). pn < largest) ups))"
  by (induction now threshold largest ups arbitrary: pns rule: lost_pns.induct)
     (auto simp: obind_eq_Ok add64_def Let_def split: if_splits)

lemma lost_pns_total: "\<forall>(pn, up)\<in>set ups. pn + 3 < two64 \<Longrightarrow> \<exists>pns. lost_pns now threshold largest ups = Ok pns"
  by (induction now threshold largest ups rule: lost_pns.induct) (fastforce simp: add64_def Let_def)+

lemma lost_pns_filter:
  assumes "lost_pns now threshold largest (unacked_iter w) = Ok pns"
  shows "pns = map fst (filter (\<lambda>(pn, up). late now threshold largest pn up) (unacked_iter w))"
proof -
  have "takeWhile (\<lambda>(pn, up). pn < largest) (unacked_iter w) = filter (\<lambda>(pn, up). pn < largest) (unacked_iter w)"
    using unacked_keys_sorted [of w] by (intro takeWhile_sorted [of fst]) (auto simp: unacked_keys_def)
  with lost_pns_takeWhile [OF assms] show ?thesis
    by (simp add: late_def case_prod_unfold conj_commute)
qed

section \<open>One acknowledgement frame\<close>

definition ack_covers :: "nat \<Rightarrow> (nat \<times> nat) list \<Rightarrow> nat \<Rightarrow> bool" where
  "ack_covers largest ranges pn \<longleftrightarrow> pn < largest - 2047 \<or> list_ex (\<lambda>(start, end). start \<le> pn \<and> pn \<le> end) ranges"

lemma ack_covers_set:
  "{pn. ack_covers largest ranges pn} = (\<Union>r\<in>set ranges. {fst r..snd r}) \<union> {..<largest - 2047}"
  by (auto simp: ack_covers_def list_ex_iff)

lemma iter_restrict:
  assumes "unacked_lookup v = (\<lambda>pn. if P pn then None else unacked_lookup w pn)"
  shows "unacked_iter v = filter (\<lambda>(pn, up). \<not> P pn) (unacked_iter w)"
proof (rule map_sorted_distinct_set_unique [of fst])
  have "set (unacked_iter v) = set (filter (\<lambda>(pn, up). \<not> P pn) (unacked_iter w))"
    using assms by (auto simp: unacked_iter_set split: if_splits)
  then show "set (unacked_iter v) = set (filter (\<lambda>(pn, up). \<not> P pn) (unacked_iter w))" .
  have "inj_on fst (set (unacked_iter w))" using unacked_iter_distinct(1) by (simp add: distinct_map)
  then show "inj_on fst (set (unacked_iter v) \<union> set (filter (\<lambda>(pn, up). \<not> P pn) (unacked_iter w)))"
    unfolding \<open>set (unacked_iter v) = _\<close> by (auto simp: inj_on_def)
  have srt: "sorted_wrt (<) (map fst (unacked_iter u))" for u
    using unacked_keys_sorted [of u] by (simp add: unacked_keys_def)
  then show "sorted (map fst (unacked_iter v))" "distinct (map fst (unacked_iter v))"
    by (simp_all add: strict_sorted_iff)
  show "sorted (map fst (filter (\<lambda>(pn, up). \<not> P pn) (unacked_iter w)))"
    "distinct (map fst (filter (\<lambda>(pn, up). \<not> P pn) (unacked_iter w)))"
    using srt [of w] by (simp_all add: strict_sorted_iff sorted_filter distinct_map_filter)
qed

lemma update_rtt_keeps [simp]:
  "cn_unacked_packets (update_rtt d s c) = cn_unacked_packets c"
  "cn_bytes_in_flight (update_rtt d s c) = cn_bytes_in_flight c"
  by (auto simp: update_rtt_def Let_def split: option.splits)

lemma signal_all_keeps [simp]:
  "cn_unacked_packets (signal_all c) = cn_unacked_packets c"
  "cn_bytes_in_flight (signal_all c) = cn_bytes_in_flight c"
  by (simp_all add: signal_all_def)

lemma finish_ack_keeps:
  "finish_ack fl now win delay a (c, frs, d) = Ok (c', frs') \<Longrightarrow>
   frs' = frs \<and> cn_unacked_packets c' = cn_unacked_packets c
   \<and> cn_bytes_in_flight c' = cn_bytes_in_flight c - ap_in_flight_acked a"
  by (auto simp: finish_ack_def Let_def outcome_Ok_iffs split: if_splits)

lemma handle_ack_spec:
  assumes inv: "unacked_inv (cn_unacked_packets c)"
    and bif: "cn_bytes_in_flight c = in_flight (cn_unacked_packets c)"
    and run: "handle_ack fl now largest win delay ranges c = Ok (c', frs)"
    and thr: "mul_f64 (cn_rtt c) (round_f64 (5/4)) = Ok t"
  shows "unacked_inv (cn_unacked_packets c')
    \<and> unacked_lookup (cn_unacked_packets c') = (\<lambda>pn. case unacked_lookup (cn_unacked_packets c) pn of None \<Rightarrow> None
        | Some up \<Rightarrow> if ack_covers largest ranges pn \<or> late now (max t (millis 15)) largest pn up then None else Some up)
    \<and> cn_bytes_in_flight c' = in_flight (cn_unacked_packets c')
    \<and> frs = map resend (filter (\<lambda>(pn, up). \<not> ack_covers largest ranges pn
        \<and> late now (max t (millis 15)) largest pn up \<and> reliable up) (unacked_iter (cn_unacked_packets c)))"
proof -
  define a0 where "a0 = \<lparr>ap_conn = c, ap_bytes_acked = 0, ap_in_flight_acked = 0, ap_sample_rtt = None\<rparr>"
  obtain a1 where sacked: "osteps (sack_range now) ranges a0 = Ok a1" using run by (auto simp: handle_ack_def obind_eq_Ok a0_def)
  define a where "a = cumulative_ack now largest a1"
  have "settled c {} a0" using inv by (simp add: settled_def a0_def)
  from settled_cumulative_ack [OF settled_sack_ranges [OF this sacked] refl]
  have s: "settled c {pn. ack_covers largest ranges pn} a" by (simp add: a_def ack_covers_set)
  define w where "w = cn_unacked_packets (ap_conn a)"
  define xs where "xs = filter (\<lambda>(pn, up). late now (max t (millis 15)) largest pn up) (unacked_iter w)"
  define c1 where "c1 = (ap_conn a)\<lparr>cn_packets_lost := saturating_add64 (cn_packets_lost (ap_conn a)) (length xs)\<rparr>"
  have rtt: "cn_rtt (ap_conn a) = cn_rtt c" using s by (simp add: settled_def)
  obtain c2 frs2 d2 where fold: "fold lose_packet (map fst xs) (c1, [], False) = (c2, frs2, d2)" by (metis prod_cases3)
  obtain pns where pns: "lost_pns now (max t (millis 15)) largest (unacked_iter w) = Ok pns"
    using run unfolding handle_ack_def Let_def a0_def [symmetric] sacked obind_Ok a_def [symmetric] rtt thr w_def [symmetric]
    by (auto simp: obind_eq_Ok)
  have "pns = map fst xs" using lost_pns_filter [OF pns] by (simp add: xs_def)
  then have "finish_ack fl now win delay a (c2, frs2, d2) = Ok (c', frs)"
    using run unfolding handle_ack_def Let_def a0_def [symmetric] sacked obind_Ok a_def [symmetric] rtt thr w_def [symmetric] pns
    by (simp add: c1_def [symmetric] fold)
  from finish_ack_keeps [OF this] have out: "frs = frs2 \<and> cn_unacked_packets c' = cn_unacked_packets c2
      \<and> cn_bytes_in_flight c' = cn_bytes_in_flight c2 - ap_in_flight_acked a" .
  have xw: "unacked_lookup w pn = Some up" if "(pn, up) \<in> set xs" for pn up
    using that unacked_iter_set [of w] by (auto simp: xs_def)
  have dist: "distinct (map fst xs)" using unacked_iter_distinct(1) [of w] by (simp add: xs_def distinct_map_filter)
  have c1: "cn_unacked_packets c1 = w" "cn_bytes_in_flight c1 = cn_bytes_in_flight c"
    using s by (simp_all add: c1_def w_def settled_def)
  have winv: "unacked_inv w" using s by (simp add: settled_def w_def)
  note lost = lose_packets [of c1 xs "[]" False c2 frs2 d2, unfolded c1, OF winv dist xw fold]
  have wl: "unacked_lookup w = (\<lambda>pn. if ack_covers largest ranges pn then None else unacked_lookup (cn_unacked_packets c) pn)"
    and wf: "in_flight (cn_unacked_packets c) = in_flight w + ap_in_flight_acked a"
    using s by (simp_all add: settled_def w_def)
  have "fst ` set xs = {pn. \<exists>up. unacked_lookup w pn = Some up \<and> late now (max t (millis 15)) largest pn up}"
    using unacked_iter_set [of w] by (force simp: xs_def)
  then have "unacked_lookup (cn_unacked_packets c') = (\<lambda>pn. case unacked_lookup (cn_unacked_packets c) pn of None \<Rightarrow> None
        | Some up \<Rightarrow> if ack_covers largest ranges pn \<or> late now (max t (millis 15)) largest pn up then None else Some up)"
    using lost out wl by (auto simp: fun_eq_iff split: option.splits)
  moreover have "frs = map resend (filter (\<lambda>(pn, up). \<not> ack_covers largest ranges pn
        \<and> late now (max t (millis 15)) largest pn up \<and> reliable up) (unacked_iter (cn_unacked_packets c)))"
    using lost out iter_restrict [OF wl] by (simp add: xs_def case_prod_unfold conj_ac)
  ultimately show ?thesis using lost out bif wf by simp
qed

section \<open>No acknowledgement frame makes the connection panic\<close>

definition probes_ok :: "unacked_window \<Rightarrow> bool" where
  "probes_ok w \<longleftrightarrow> (\<forall>pn up. unacked_lookup w pn = Some up \<longrightarrow> up_is_mtu_probe up \<longrightarrow>
     0 < payload_len (up_payload up) \<and> payload_len (up_payload up) < 2 ^ 16)"

definition data_len :: "unacked_packet \<Rightarrow> nat" where
  "data_len up = (if up_is_mtu_probe up then 0 else payload_len (up_payload up))"

definition ack_safe :: "nat \<Rightarrow> nat \<Rightarrow> nat \<Rightarrow> ack_progress \<Rightarrow> bool" where
  "ack_safe W R D a \<longleftrightarrow> unacked_inv (cn_unacked_packets (ap_conn a)) \<and> probes_ok (cn_unacked_packets (ap_conn a))
     \<and> cc_cwnd (cn_cc (ap_conn a)) = W \<and> 0 < cc_mtu (cn_cc (ap_conn a)) \<and> cc_mtu (cn_cc (ap_conn a)) < 2 ^ 16
     \<and> uw_base_pn (cn_unacked_packets (ap_conn a)) + length (uw_deque (cn_unacked_packets (ap_conn a))) + 2 < two64
     \<and> cn_rtt (ap_conn a) = R \<and> weight data_len (cn_unacked_packets (ap_conn a)) + ap_bytes_acked a = D"

lemma cc_set_mtu_sel [simp]: "cc_cwnd (cc_set_mtu m c) = cc_cwnd c" "cc_mtu (cc_set_mtu m c) = m"
  by (cases c; simp)+

text \<open>Removing packets leaves the end of the window where it is.\<close>

lemma pop_front_end: "pop_front_empty base d = (base', d') \<Longrightarrow> base' + length d' = base + length d"
  by (induction base d rule: pop_front_empty.induct) auto

lemma unacked_remove_end:
  "unacked_remove pn w = (w', r) \<Longrightarrow> uw_base_pn w' + length (uw_deque w') = uw_base_pn w + length (uw_deque w)"
  by (auto simp: unacked_remove_def Let_def split: if_splits prod.splits dest: pop_front_end)

lemma ack_safe_take:
  assumes "ack_safe W R D a" and "take_unacked pn a = (a', r)"
  shows "(r = None \<longrightarrow> ack_safe W R D a')
    \<and> (\<forall>up. r = Some up \<longrightarrow> ack_safe W R D (settle_acked now up a')
         \<and> (up_is_mtu_probe up \<longrightarrow> 0 < payload_len (up_payload up) \<and> payload_len (up_payload up) < 2 ^ 16))"
proof -
  let ?w = "cn_unacked_packets (ap_conn a)"
  obtain w' where rm: "unacked_remove pn ?w = (w', r)" and a': "a' = a\<lparr>ap_conn := (ap_conn a)\<lparr>cn_unacked_packets := w'\<rparr>\<rparr>"
    using assms(2) by (auto simp: take_unacked_def split: prod.splits)
  have inv: "unacked_inv ?w" "probes_ok ?w" using assms(1) by (simp_all add: ack_safe_def)
  note law = uw.remove_law [OF inv(1) rm]
  have probes: "probes_ok w'" using inv(2) law by (auto simp: probes_ok_def split: if_splits)
  show ?thesis
    using assms(1) law probes weight_remove [OF inv(1) rm, of data_len] inv(2) unacked_remove_end [OF rm]
    by (auto simp: ack_safe_def a' settle_acked_def data_len_def probes_ok_def split: option.splits)
qed

lemma ack_safe_sack_packet:
  assumes "ack_safe W R D a"
  shows "ack_safe W R D (sack_packet now pn a)"
proof -
  obtain a' r where t: "take_unacked pn a = (a', r)" by force
  note st = ack_safe_take [OF assms t, of now]
  show ?thesis
  proof (cases r)
    case (Some up)
    then have s: "ack_safe W R D (settle_acked now up a')"
      and p: "up_is_mtu_probe up \<Longrightarrow> 0 < payload_len (up_payload up) \<and> payload_len (up_payload up) < 2 ^ 16"
      using st by auto
    then show ?thesis using t Some
      by (auto simp: sack_packet_def ack_safe_def record_mtu_probe_success_def Let_def)
  qed (use st t in \<open>simp add: sack_packet_def\<close>)
qed

lemma ack_safe_cumulative_packet: "ack_safe W R D a \<Longrightarrow> ack_safe W R D (cumulative_packet now pn a)"
  using ack_safe_take [of W R D a pn _ _ now] by (auto simp: cumulative_packet_def split: prod.splits option.splits)

lemma fold_keeps: "(\<And>x a. P a \<Longrightarrow> P (f x a)) \<Longrightarrow> P a \<Longrightarrow> P (fold f xs a)"
  by (induction xs arbitrary: a) auto

lemma ack_safe_sack_range: "ack_safe W R D a \<Longrightarrow> \<exists>a'. sack_range now r a = Ok a' \<and> ack_safe W R D a'"
  using fold_keeps [of "ack_safe W R D" "sack_packet now", OF ack_safe_sack_packet]
  by (simp add: sack_range_def Let_def case_prod_beta add64_def ack_safe_def [of W R D a] del: upt_Suc)

lemma ack_safe_sack_ranges: "ack_safe W R D a \<Longrightarrow> \<exists>a'. osteps (sack_range now) rs a = Ok a' \<and> ack_safe W R D a'"
proof (induction rs arbitrary: a)
  case (Cons r rs)
  obtain a1 where "sack_range now r a = Ok a1" "ack_safe W R D a1" using ack_safe_sack_range [OF Cons.prems] by blast
  then show ?case using Cons.IH by simp
qed simp

lemma lose_packet_cc: "lose_packet pn (c, frs, d) = (c', frs', d') \<Longrightarrow> cn_cc c' = cn_cc c \<and> cn_rtt c' = cn_rtt c"
  by (auto simp: lose_packet_def record_mtu_probe_failure_def Let_def
      split: prod.splits option.splits if_splits unacked_payload.splits)

lemma lose_packets_cc:
  "fold lose_packet pns (c, frs, d) = (c', frs', d') \<Longrightarrow> cn_cc c' = cn_cc c \<and> cn_rtt c' = cn_rtt c"
proof (induction pns arbitrary: c frs d)
  case (Cons pn pns)
  obtain c1 frs1 d1 where "lose_packet pn (c, frs, d) = (c1, frs1, d1)" by (metis prod_cases3)
  then show ?case using Cons lose_packet_cc by fastforce
qed simp

lemma update_rtt_cc [simp]: "cn_cc (update_rtt d s c) = cn_cc c"
  by (auto simp: update_rtt_def Let_def split: option.splits)

lemma finish_ack_total:
  assumes "cc_mtu (cn_cc c) < 2 ^ 16" and "0 < cc_mtu (cn_cc c)" and "cc_cwnd (cn_cc c) < 2 ^ 46"
    and "ap_bytes_acked a < 2 ^ 46"
  shows "\<exists>r. finish_ack fl now win delay a (c, frs, d) = Ok r"
proof -
  obtain k where k: "(if d then cc_on_congestion_event fl (cn_rtt c) now (cn_cc c) else Ok (cn_cc c)) = Ok k"
    "cc_mtu k = cc_mtu (cn_cc c)" "cc_cwnd k < 2 ^ 46"
  proof (cases d)
    case True
    have "cc_cwnd (cn_cc c) < 2 ^ 47" using assms(3) by simp
    then obtain k where k: "cc_step fl (CcLoss (cn_rtt c) now) (cn_cc c) = Ok k" "cc_mtu k = cc_mtu (cn_cc c)"
      "k = cn_cc c \<or> 2 * cc_mtu (cn_cc c) \<le> cc_cwnd k \<and> cc_cwnd k \<le> max (cc_cwnd (cn_cc c)) (2 * cc_mtu (cn_cc c))"
      using cc.loss_law [of "cn_cc c" fl "cn_rtt c" now] assms(1) by blast
    have "cc_cwnd k < 2 ^ 46" using k(3) assms(1,3) by (auto simp: max_def split: if_splits)
    then show ?thesis using k that True by simp
  qed (use that assms in auto)
  define c1 where "c1 = update_rtt delay (ap_sample_rtt a) (c\<lparr>cn_cc := k, cn_bytes_in_flight := cn_bytes_in_flight c - ap_in_flight_acked a\<rparr>)"
  have c1: "cn_cc c1 = k" by (simp add: c1_def)
  have "\<exists>k'. (if ap_bytes_acked a > 0 then cc_on_packet_acked fl (ap_bytes_acked a) (cn_rtt c1) now (cn_cc c1) else Ok (cn_cc c1)) = Ok k'"
  proof (cases "ap_bytes_acked a > 0")
    case True
    have "cc_mtu k * ap_bytes_acked a \<le> 2 ^ 16 * 2 ^ 46" using k(2) assms(1,4) by (intro mult_mono) auto
    then show ?thesis
      using cc_acked [of "ap_bytes_acked a" k fl "cn_rtt c1" now] True k assms(2,4) c1 by auto
  qed simp
  then show ?thesis by (auto simp: finish_ack_def k(1) Let_def c1_def [symmetric])
qed

lemma round_five_quarters: "round_f64 (5/4) = Finite (5/4)"
proof -
  have "quotient_of (5/4) = (5, 4)" by code_simp
  then have "floor_log2 (5/4) = 0" by (simp add: floor_log2_def bit_len.simps)
  then have "round_pos (5/4) = of_int (round_half_even (of_int 5629499534213120)) * 2 powi (-52)"
    by (simp add: round_pos_def power_int_minus)
  then have "round_pos (5/4) = 5/4" by (simp only: round_half_even_int) (simp add: power_int_minus)
  then show ?thesis by (simp add: round_f64_def)
qed

lemma handle_ack_not_Panic:
  assumes "unacked_inv (cn_unacked_packets c)" and "probes_ok (cn_unacked_packets c)"
    and "0 < cc_mtu (cn_cc c)" and "cc_mtu (cn_cc c) < 2 ^ 16" and "cc_cwnd (cn_cc c) < 2 ^ 46"
    and "weight data_len (cn_unacked_packets c) < 2 ^ 46" and "cn_rtt c < 2 ^ 52"
    and "uw_base_pn (cn_unacked_packets c) + length (uw_deque (cn_unacked_packets c)) + 2 < two64"
  shows "\<exists>r. handle_ack fl now largest win delay ranges c = Ok r"
proof -
  define a0 where "a0 = \<lparr>ap_conn = c, ap_bytes_acked = 0, ap_in_flight_acked = 0, ap_sample_rtt = None\<rparr>"
  define D where "D = weight data_len (cn_unacked_packets c)"
  have "ack_safe (cc_cwnd (cn_cc c)) (cn_rtt c) D a0" using assms by (simp add: ack_safe_def a0_def D_def)
  then obtain a1 where sacked: "osteps (sack_range now) ranges a0 = Ok a1" and "ack_safe (cc_cwnd (cn_cc c)) (cn_rtt c) D a1"
    using ack_safe_sack_ranges by blast
  define a where "a = cumulative_ack now largest a1"
  from \<open>ack_safe _ _ _ a1\<close> have s: "ack_safe (cc_cwnd (cn_cc c)) (cn_rtt c) D a"
    unfolding a_def cumulative_ack_def Let_def
    by (rule fold_keeps [of "ack_safe _ _ _", rotated]) (rule ack_safe_cumulative_packet)
  obtain t where t: "mul_f64 (cn_rtt c) (round_f64 (5/4)) = Ok t"
    using mul_f64_not_Panic [OF assms(7), of "5/4"] round_five_quarters by auto
  let ?w = "cn_unacked_packets (ap_conn a)"
  have "\<forall>(pn, up)\<in>set (unacked_iter ?w). pn + 3 < two64"
    using s lookup_in_window [of ?w] by (fastforce simp: ack_safe_def unacked_iter_set)
  then obtain lost where lost: "lost_pns now (max t (millis 15)) largest (unacked_iter ?w) = Ok lost" using lost_pns_total by blast
  define c1 where "c1 = (ap_conn a)\<lparr>cn_packets_lost := saturating_add64 (cn_packets_lost (ap_conn a)) (length lost)\<rparr>"
  obtain c2 frs d where f: "fold lose_packet lost (c1, [], False) = (c2, frs, d)" by (metis prod_cases3)
  have "cn_cc c2 = cn_cc (ap_conn a)" using lose_packets_cc [OF f] by (simp add: c1_def)
  moreover have "ap_bytes_acked a < 2 ^ 46" using s assms(6) by (simp add: ack_safe_def D_def)
  ultimately have "\<exists>r. finish_ack fl now win delay a (c2, frs, d) = Ok r"
    using s assms(5) by (intro finish_ack_total) (simp_all add: ack_safe_def)
  moreover have rtt: "cn_rtt (ap_conn a) = cn_rtt c" using s by (simp add: ack_safe_def)
  ultimately show ?thesis
    unfolding handle_ack_def Let_def a0_def [symmetric] sacked obind_Ok a_def [symmetric] rtt t lost
    by (simp add: c1_def [symmetric] f)
qed

section \<open>Path MTU bookkeeping\<close>

datatype mtu_event = ProbeAcked nat | ProbeLost nat | Blackhole

fun mtu_step :: "mtu_event \<Rightarrow> zt_connection \<Rightarrow> zt_connection" where
  "mtu_step (ProbeAcked target) c = record_mtu_probe_success target c"
| "mtu_step (ProbeLost target) c = record_mtu_probe_failure target c"
| "mtu_step Blackhole c = fst (recover_mtu_blackhole c)"

fun probe_target :: "mtu_event \<Rightarrow> nat" where
  "probe_target (ProbeAcked target) = target"
| "probe_target _ = 0"

definition mtu_agrees :: "nat \<Rightarrow> nat \<Rightarrow> zt_connection \<Rightarrow> bool" where
  "mtu_agrees base limit c \<longleftrightarrow> cn_base_mtu c = base \<and> base \<le> cn_mtu c \<and> cn_mtu c \<le> limit
     \<and> cn_shared_mtu c = cn_mtu c \<and> cc_mtu (cn_cc c) = cn_mtu c \<and> cn_mtu_min c = cn_mtu c"

lemma mtu_agrees_step: "mtu_agrees base limit c \<Longrightarrow> probe_target e \<le> limit \<Longrightarrow> mtu_agrees base limit (mtu_step e c)"
  by (cases e) (auto simp: mtu_agrees_def record_mtu_probe_success_def record_mtu_probe_failure_def recover_mtu_blackhole_def Let_def)

section \<open>Examples\<close>

definition example_packet :: unacked_packet where
  "example_packet = \<lparr>up_payload = UpStreamClose 2 7, up_sent_at = 0, up_retries = 0, up_is_mtu_probe = False, up_sent_bytes = 40\<rparr>"

definition example_connection :: zt_connection where
  "example_connection = (connection_new (SocketAddr (V4 [127, 0, 0, 1]) 443) [1] [2] default_config)
     \<lparr>cn_unacked_packets := unacked_insert 4 example_packet unacked_new, cn_bytes_in_flight := 40\<rparr>"

lemma example_window:
  "unacked_inv (cn_unacked_packets example_connection)"
  "unacked_lookup (cn_unacked_packets example_connection) = [4 \<mapsto> example_packet]"
  "unacked_iter (cn_unacked_packets example_connection) = [(4, example_packet)]"
  "weight f (cn_unacked_packets example_connection) = f example_packet"
proof -
  show "unacked_inv (cn_unacked_packets example_connection)"
    by (simp add: example_connection_def uw.insert_invar uw.empty_law)
  have e: "unacked_lookup unacked_new k = None" for k by (simp add: uw.empty_law)
  show "unacked_lookup (cn_unacked_packets example_connection) = [4 \<mapsto> example_packet]"
    using uw.insert_law [OF uw.empty_law(1)] by (simp add: example_connection_def uw.empty_law(2))
  show "unacked_iter (cn_unacked_packets example_connection) = [(4, example_packet)]"
    by (simp add: example_connection_def unacked_iter_def unacked_insert_def unacked_new_def)
  then show "weight f (cn_unacked_packets example_connection) = f example_packet" by (simp add: weight_def)
qed

lemma example_bounds:
  "cn_bytes_in_flight example_connection = in_flight (cn_unacked_packets example_connection)"
  "probes_ok (cn_unacked_packets example_connection)"
  "0 < cc_mtu (cn_cc example_connection)" "cc_mtu (cn_cc example_connection) < 2 ^ 16"
  "cc_cwnd (cn_cc example_connection) < 2 ^ 46" "weight data_len (cn_unacked_packets example_connection) < 2 ^ 46"
  "cn_rtt example_connection < 2 ^ 52"
  "uw_base_pn (cn_unacked_packets example_connection) + length (uw_deque (cn_unacked_packets example_connection)) + 2 < two64"
  by (simp_all add: example_window probes_ok_def)
     (simp_all add: example_connection_def example_packet_def connection_new_def default_config_def cubic_new_def data_len_def
       unacked_insert_def unacked_new_def Let_def)

section \<open>Properties\<close>

text \<open>
  C6: an acknowledgement frame removes from the window exactly the packets its ranges cover, those
  older than the 2048 packets it can describe, and those it shows to be lost; of the lost ones exactly
  the reliable payloads are returned for retransmission, once each and in packet-number order; and the
  counter of bytes in flight stays equal to the bytes of the packets still in the window.
\<close>

theorem ack_settles_packets:
  assumes "unacked_inv (cn_unacked_packets c)"
    and "cn_bytes_in_flight c = in_flight (cn_unacked_packets c)"
    and "handle_ack fl now largest win delay ranges c = Ok (c', frs)"
    and "mul_f64 (cn_rtt c) (round_f64 (5/4)) = Ok t"
  shows "unacked_inv (cn_unacked_packets c')
    \<and> unacked_lookup (cn_unacked_packets c') = (\<lambda>pn. case unacked_lookup (cn_unacked_packets c) pn of None \<Rightarrow> None
        | Some up \<Rightarrow> if ack_covers largest ranges pn \<or> late now (max t (millis 15)) largest pn up then None else Some up)
    \<and> cn_bytes_in_flight c' = in_flight (cn_unacked_packets c')
    \<and> frs = map resend (filter (\<lambda>(pn, up). \<not> ack_covers largest ranges pn
        \<and> late now (max t (millis 15)) largest pn up \<and> reliable up) (unacked_iter (cn_unacked_packets c)))"
  by (rule handle_ack_spec [OF assms])

theorem ack_settles_packets_witness:
  "\<exists>fl c' frs. handle_ack fl 100 9 65535 0 [(8, 9)] example_connection = Ok (c', frs)
     \<and> frs = [(UpStreamClose 2 7, 0)] \<and> cn_bytes_in_flight c' = in_flight (cn_unacked_packets c')"
proof -
  let ?fl = "\<lparr>fl_powi = \<lambda>x n. x, fl_cbrt = \<lambda>x. x\<rparr>"
  obtain c' frs where run: "handle_ack ?fl 100 9 65535 0 [(8, 9)] example_connection = Ok (c', frs)"
    using handle_ack_not_Panic [OF example_window(1) example_bounds(2-8)] by fastforce
  obtain t where "mul_f64 (cn_rtt example_connection) (round_f64 (5/4)) = Ok t"
    using mul_f64_not_Panic [OF example_bounds(7), of "5/4"] round_five_quarters by auto
  note r = ack_settles_packets [OF example_window(1) example_bounds(1) run this]
  have "frs = [(UpStreamClose 2 7, 0)]"
    using r by (simp add: example_window ack_covers_def late_def reliable_def resend_def example_packet_def)
  then show ?thesis using run r by blast
qed



text \<open>
  C30: through every sequence of probe results and black-hole recoveries, the path MTU of the connection,
  the one shared with the streams and the one of the congestion controller are the same number, never
  below the configured minimum and never above the largest size a probe has confirmed.
\<close>

theorem mtu_stays_consistent:
  assumes "list_all (\<lambda>e. probe_target e \<le> limit) es" and "cfg_mtu_min config \<le> limit"
  shows "mtu_agrees (cfg_mtu_min config) limit (fold mtu_step es (connection_new addr scid dcid config))"
proof -
  have "mtu_agrees (cfg_mtu_min config) limit (connection_new addr scid dcid config)"
    using assms(2) by (cases "cfg_cc_algorithm config")
      (simp_all add: mtu_agrees_def connection_new_def cubic_new_def reno_new_def Let_def)
  with assms(1) show ?thesis
    by (induction es arbitrary: addr rule: rev_induct) (auto intro: mtu_agrees_step)
qed

theorem mtu_stays_consistent_witness:
  "cn_mtu (fold mtu_step [ProbeLost 5100, ProbeAcked 3149, Blackhole]
     (connection_new (SocketAddr (V4 [127, 0, 0, 1]) 443) [1] [2] default_config)) \<le> 3149"
  using mtu_stays_consistent [of 3149 "[ProbeLost 5100, ProbeAcked 3149, Blackhole]" default_config
    "SocketAddr (V4 [127, 0, 0, 1]) 443" "[1]" "[2]"]
  by (simp add: mtu_agrees_def default_config_def del: mtu_step.simps)

end
