(* ===== verification/Zt_Action.thy ===== *)
theory Zt_Action
  imports Zt_Prelude
begin

text \<open>
  Methods that change \<^verbatim>\<open>&mut self\<close> and may fail: a function from the state to the new state and the
  outcome.  Unlike an outcome of a pair, it keeps what a method changed before it returned an error, as
  the sources do.  The second half is a small logic for such methods: \<open>moves R m\<close> says that \<open>m\<close> takes
  every state to an \<open>R\<close>-later one, whatever it returns.
\<close>

section \<open>Actions\<close>

type_synonym ('s, 'a) act = "'s \<Rightarrow> 's \<times> 'a outcome"

definition areturn :: "'a \<Rightarrow> ('s, 'a) act" where
  "areturn x s = (s, Ok x)"

definition alift :: "'a outcome \<Rightarrow> ('s, 'a) act" where
  "alift r s = (s, r)"

definition aerr :: "zt_error \<Rightarrow> ('s, 'a) act" where
  "aerr e s = (s, Err e)"

definition abind :: "('s, 'a) act \<Rightarrow> ('a \<Rightarrow> ('s, 'b) act) \<Rightarrow> ('s, 'b) act" where
  "abind m f s =
     (case m s of (s', Ok x) \<Rightarrow> f x s' | (s', Err e) \<Rightarrow> (s', Err e) | (s', Panic) \<Rightarrow> (s', Panic))"

definition athen :: "('s, 'a) act \<Rightarrow> ('s, 'b) act \<Rightarrow> ('s, 'b) act" where
  "athen m m' = abind m (\<lambda>_. m')"

text \<open>Reading the state, and changing it.\<close>

definition awith :: "('s \<Rightarrow> ('s, 'a) act) \<Rightarrow> ('s, 'a) act" where
  "awith m s = m s s"

definition amodify :: "('s \<Rightarrow> 's) \<Rightarrow> ('s, unit) act" where
  "amodify f s = (f s, Ok ())"

text \<open>
  The result of a call as a value, for a caller that inspects the error, and a call whose error is
  logged or dropped (\<^verbatim>\<open>let _ = ...\<close>).  A panic is not caught.
\<close>

definition atry :: "('s, 'a) act \<Rightarrow> ('s, 'a outcome) act" where
  "atry m s = (case m s of (s', Panic) \<Rightarrow> (s', Panic) | (s', r) \<Rightarrow> (s', Ok r))"

definition aignore :: "('s, 'a) act \<Rightarrow> ('s, unit) act" where
  "aignore m = athen (atry m) (areturn ())"

fun afor :: "('x \<Rightarrow> ('s, unit) act) \<Rightarrow> 'x list \<Rightarrow> ('s, unit) act" where
  "afor f [] = areturn ()"
| "afor f (x # xs) = athen (f x) (afor f xs)"

section \<open>Running actions\<close>

named_theorems run_simps \<open>evaluation of actions on a state\<close>

lemma run_action [run_simps]:
  "areturn x s = (s, Ok x)" "alift r s = (s, r)" "aerr e s = (s, Err e)" "awith m s = m s s"
  "amodify f s = (f s, Ok ())"
  by (simp_all add: areturn_def alift_def aerr_def awith_def amodify_def)

lemma run_bind [run_simps]:
  "m s = (s', Ok x) \<Longrightarrow> abind m f s = f x s'"
  "m s = (s', Err e) \<Longrightarrow> abind m f s = (s', Err e)"
  "m s = (s', Panic) \<Longrightarrow> abind m f s = (s', Panic)"
  "m s = (s', Ok y) \<Longrightarrow> athen m m' s = m' s'"
  "m s = (s', Err e) \<Longrightarrow> athen m m' s = (s', Err e)"
  "m s = (s', Panic) \<Longrightarrow> athen m m' s = (s', Panic)"
  by (simp_all add: abind_def athen_def)

lemma run_try [run_simps]:
  "m s = (s', Ok x) \<Longrightarrow> atry m s = (s', Ok (Ok x))"
  "m s = (s', Err e) \<Longrightarrow> atry m s = (s', Ok (Err e))"
  "m s = (s', Panic) \<Longrightarrow> atry m s = (s', Panic)"
  "m s = (s', Ok x) \<Longrightarrow> aignore m s = (s', Ok ())"
  "m s = (s', Err e) \<Longrightarrow> aignore m s = (s', Ok ())"
  by (simp_all add: atry_def aignore_def athen_def abind_def areturn_def)

lemma run_atomic [run_simps]:
  "abind (areturn x) f = f x" "athen (areturn x) m = m" "abind (alift (Ok x)) f = f x"
  "abind (alift (Err e)) f = aerr e"
  by (simp_all add: abind_def athen_def areturn_def alift_def aerr_def fun_eq_iff)

lemma run_modify [run_simps]: "athen (amodify f) m s = m (f s)" "abind (amodify f) g s = g () (f s)"
  by (simp_all add: athen_def abind_def amodify_def)

section \<open>Where an action can lead\<close>

definition moves :: "('s \<Rightarrow> 's \<Rightarrow> bool) \<Rightarrow> ('s, 'a) act \<Rightarrow> bool" where
  "moves R m \<longleftrightarrow> (\<forall>s. R s (fst (m s)))"

lemma movesD: "moves R m \<Longrightarrow> m s = (s', r) \<Longrightarrow> R s s'"
  by (auto simp: moves_def dest!: spec [of _ s])

lemma moves_mono: "moves R m \<Longrightarrow> (\<And>s s'. R s s' \<Longrightarrow> S s s') \<Longrightarrow> moves S m"
  by (simp add: moves_def)

lemma moves_conj: "moves R m \<Longrightarrow> moves S m \<Longrightarrow> moves (\<lambda>s s'. R s s' \<and> S s s') m"
  by (simp add: moves_def)

text \<open>
  The contract of a relation that may be followed through a method: a preorder on states.  The client
  lemmas close it under the combinators.
\<close>

locale progress =
  fixes R :: "'s \<Rightarrow> 's \<Rightarrow> bool"
  assumes stays: "R s s"
    and continues: "R s s' \<Longrightarrow> R s' s'' \<Longrightarrow> R s s''"
begin

lemma pure_moves: "moves R (areturn x)" "moves R (aerr e)" "moves R (alift r)"
  by (simp_all add: moves_def areturn_def aerr_def alift_def stays)

lemma bind_moves: "moves R m \<Longrightarrow> (\<And>x. moves R (f x)) \<Longrightarrow> moves R (abind m f)"
proof (unfold moves_def, rule allI)
  fix s
  assume m: "\<forall>s. R s (fst (m s))" and f: "\<And>x. \<forall>s. R s (fst (f x s))"
  obtain s' r where "m s = (s', r)" by fastforce
  with m have "R s s'" "m s = (s', r)" by (auto dest: spec [of _ s])
  then show "R s (fst (abind m f s))"
    using f continues by (cases r) (auto simp: abind_def)
qed

lemma then_moves: "moves R m \<Longrightarrow> moves R m' \<Longrightarrow> moves R (athen m m')"
  unfolding athen_def by (rule bind_moves)

lemma with_moves: "(\<And>s. moves R (m s)) \<Longrightarrow> moves R (awith m)"
  by (simp add: moves_def awith_def)

lemma modify_moves: "(\<And>s. R s (f s)) \<Longrightarrow> moves R (amodify f)"
  by (simp add: moves_def amodify_def)

lemma try_moves: "moves R m \<Longrightarrow> moves R (atry m)"
proof (unfold moves_def, rule allI)
  fix s
  assume m: "\<forall>s. R s (fst (m s))"
  obtain s' r where "m s = (s', r)" by fastforce
  with m show "R s (fst (atry m s))" by (cases r) (auto simp: atry_def dest!: spec [of _ s])
qed

lemma ignore_moves: "moves R m \<Longrightarrow> moves R (aignore m)"
  unfolding aignore_def by (intro then_moves try_moves pure_moves)

lemma for_moves: "(\<And>x. moves R (f x)) \<Longrightarrow> moves R (afor f xs)"
  by (induction xs) (auto intro: pure_moves then_moves)

lemma if_moves: "(b \<Longrightarrow> moves R m) \<Longrightarrow> (\<not> b \<Longrightarrow> moves R m') \<Longrightarrow> moves R (if b then m else m')"
  by simp

lemmas combine = pure_moves bind_moves then_moves with_moves modify_moves try_moves ignore_moves for_moves if_moves

end

text \<open>Preservation of a predicate is the most common such relation.\<close>

definition keeps :: "('s \<Rightarrow> bool) \<Rightarrow> 's \<Rightarrow> 's \<Rightarrow> bool" where
  "keeps P s s' \<longleftrightarrow> P s \<longrightarrow> P s'"

lemma keeps_progress: "progress (keeps P)"
  by unfold_locales (auto simp: keeps_def)

section \<open>Pre- and postconditions\<close>

text \<open>
  \<open>hoare P m Q E\<close>: from a state with \<open>P\<close>, a result \<open>x\<close> comes with a state in \<open>Q x\<close>, and an error or a
  panic with a state in \<open>E\<close>.
\<close>

definition hoare :: "('s \<Rightarrow> bool) \<Rightarrow> ('s, 'a) act \<Rightarrow> ('a \<Rightarrow> 's \<Rightarrow> bool) \<Rightarrow> ('s \<Rightarrow> bool) \<Rightarrow> bool" where
  "hoare P m Q E \<longleftrightarrow> (\<forall>s. P s \<longrightarrow> (case m s of (s', Ok x) \<Rightarrow> Q x s' | (s', _) \<Rightarrow> E s'))"

lemma hoareI: "(\<And>s s' r. P s \<Longrightarrow> m s = (s', r) \<Longrightarrow> (case r of Ok x \<Rightarrow> Q x s' | _ \<Rightarrow> E s')) \<Longrightarrow> hoare P m Q E"
  by (simp add: hoare_def split: prod.split)

lemma hoareD: "hoare P m Q E \<Longrightarrow> P s \<Longrightarrow> m s = (s', r) \<Longrightarrow> (case r of Ok x \<Rightarrow> Q x s' | _ \<Rightarrow> E s')"
  by (auto simp: hoare_def dest!: spec [of _ s])

lemma hoare_pure [intro]:
  "(\<And>s. P s \<Longrightarrow> Q x s) \<Longrightarrow> hoare P (areturn x) Q E" "(\<And>s. P s \<Longrightarrow> E s) \<Longrightarrow> hoare P (aerr e) Q E"
  by (simp_all add: hoare_def areturn_def aerr_def)

lemma hoare_lift: "(\<And>s x. P s \<Longrightarrow> r = Ok x \<Longrightarrow> Q x s) \<Longrightarrow> (\<And>s. P s \<Longrightarrow> E s) \<Longrightarrow> hoare P (alift r) Q E"
  by (simp add: hoare_def alift_def split: outcome.splits)

lemma hoare_modify: "(\<And>s. P s \<Longrightarrow> Q () (f s)) \<Longrightarrow> hoare P (amodify f) Q E"
  by (simp add: hoare_def amodify_def)

lemma hoare_with: "(\<And>s. P s \<Longrightarrow> hoare (\<lambda>s'. s' = s) (m s) Q E) \<Longrightarrow> hoare P (awith m) Q E"
  by (simp add: hoare_def awith_def)

lemma hoare_bind:
  assumes "hoare P m Q E" and "\<And>x. hoare (Q x) (f x) S E"
  shows "hoare P (abind m f) S E"
proof (rule hoareI)
  fix s s' r
  assume "P s" and b: "abind m f s = (s', r)"
  obtain s1 r1 where m: "m s = (s1, r1)" by fastforce
  have q: "case r1 of Ok x \<Rightarrow> Q x s1 | _ \<Rightarrow> E s1" by (rule hoareD [OF assms(1) \<open>P s\<close> m])
  show "case r of Ok x \<Rightarrow> S x s' | _ \<Rightarrow> E s'"
  proof (cases r1)
    case (Ok x)
    then have "f x s1 = (s', r)" using b m by (simp add: abind_def)
    then show ?thesis using hoareD [OF assms(2)] q Ok by fastforce
  qed (use b m q in \<open>auto simp: abind_def\<close>)
qed

lemma hoare_then: "hoare P m (\<lambda>_. Q) E \<Longrightarrow> hoare Q m' S E \<Longrightarrow> hoare P (athen m m') S E"
  unfolding athen_def by (rule hoare_bind)

lemma hoare_try:
  assumes "hoare P m (\<lambda>_. Q) Q"
  shows "hoare P (atry m) (\<lambda>_. Q) Q"
proof (rule hoareI)
  fix s s' r
  assume "P s" and t: "atry m s = (s', r)"
  obtain s1 r1 where m: "m s = (s1, r1)" by fastforce
  have "Q s1" using hoareD [OF assms \<open>P s\<close> m] by (cases r1) auto
  then show "case r of Ok x \<Rightarrow> Q s' | _ \<Rightarrow> Q s'" using t m by (cases r1) (auto simp: atry_def)
qed

lemma hoare_ignore: "hoare P m (\<lambda>_. Q) Q \<Longrightarrow> hoare P (aignore m) (\<lambda>_. Q) Q"
  unfolding aignore_def by (rule hoare_then [OF hoare_try]) auto

lemma hoare_weaken:
  assumes "hoare P m Q E" and "\<And>s. P' s \<Longrightarrow> P s" and "\<And>x s. Q x s \<Longrightarrow> Q' x s" and "\<And>s. E s \<Longrightarrow> E' s"
  shows "hoare P' m Q' E'"
proof (rule hoareI)
  fix s s' r
  assume "P' s" and m: "m s = (s', r)"
  then have "case r of Ok x \<Rightarrow> Q x s' | _ \<Rightarrow> E s'" using hoareD [OF assms(1)] assms(2) by blast
  then show "case r of Ok x \<Rightarrow> Q' x s' | _ \<Rightarrow> E' s'" using assms(3,4) by (cases r) auto
qed

lemma hoare_moves:
  assumes "\<And>s0. hoare (\<lambda>s. s = s0) m (\<lambda>_. R s0) (R s0)"
  shows "moves R m"
  unfolding moves_def
proof
  fix s
  obtain s' r where m: "m s = (s', r)" by fastforce
  have "case r of Ok x \<Rightarrow> R s s' | _ \<Rightarrow> R s s'" by (rule hoareD [OF assms refl m])
  then show "R s (fst (m s))" using m by (cases r) auto
qed

lemma moves_hoare: "moves R m \<Longrightarrow> (\<And>s s'. P s \<Longrightarrow> R s s' \<Longrightarrow> Q s') \<Longrightarrow> hoare P m (\<lambda>_. Q) Q"
  by (rule hoareI) (auto dest!: movesD split: outcome.split)

lemma hoare_keeps: "hoare P m (\<lambda>_. P) P \<Longrightarrow> moves (keeps P) m"
proof (rule hoare_moves)
  fix s0
  assume "hoare P m (\<lambda>_. P) P"
  then show "hoare (\<lambda>s. s = s0) m (\<lambda>_. keeps P s0) (keeps P s0)"
    by (intro hoareI) (auto simp: keeps_def dest: hoareD split: outcome.split outcome.splits)
qed

end
