(* ===== verification/Zt_Actor.thy ===== *)
theory Zt_Actor
  imports Zt_Ack Zt_Action
begin

text \<open>
  The connection actor (\<^verbatim>\<open>src/src/transport/actor/mod.rs\<close>) and everything it sends
  (\<^verbatim>\<open>src/src/transport/actor/packet_sender.rs\<close>).

  The actor record holds the fields of \<^verbatim>\<open>ZtConnectionActor\<close> that it changes or reads; what it does to
  the outside is logged: \<open>ac_wire\<close> lists the datagrams the socket accepted, \<open>ac_accepted\<close> the streams
  handed to the application, \<open>ac_datagrams\<close> the datagrams handed to it.  The environment of one handled
  message is the record \<open>env\<close>: the endpoint's configuration, the third-party primitives, the current
  time, and the answers of the socket, the channels and the random generator.  An answer may depend on
  the number \<open>ac_calls\<close> of questions asked before, so every interleaving of answers is covered.  The
  network simulation compiled only for tests is left out.  Byte counters are not range-tested.
\<close>

section \<open>Environment and state\<close>

record env =
  en_config :: zt_config
  en_alpn :: bytes
  en_peer_key_verifier :: "(bytes \<Rightarrow> bool) option"
  en_crypto :: crypto_lib
  en_f64 :: f64_lib
  en_sha256 :: "bytes \<Rightarrow> bytes"
  en_sign :: "bytes \<Rightarrow> bytes \<Rightarrow> bytes"
  en_valid_key :: "bytes \<Rightarrow> bool"
  en_verify :: "bytes \<Rightarrow> bytes \<Rightarrow> bytes \<Rightarrow> bool"
  en_diffie_hellman :: "bytes \<Rightarrow> bytes \<Rightarrow> bytes"
  en_now :: nat
  en_try_send :: "nat \<Rightarrow> io_kind option"
  en_try_reserve :: "nat \<Rightarrow> bool"
  en_try_deliver :: "nat \<Rightarrow> bool"
  en_random :: "nat \<Rightarrow> bytes"

record actor =
  ac_state :: zt_connection
  ac_pending_acks :: nat
  ac_public_key :: bytes
  ac_ephemeral_secret :: "bytes option"
  ac_ed_signing_key :: "bytes option"
  ac_ed_public_key :: bytes
  ac_psk :: "bytes option"
  ac_handshake_waiter :: bool
  ac_scid :: bytes
  ac_last_active_stream_id :: u32
  ac_next_stream_id :: nat
  ac_is_client :: bool
  ac_socket_blocked :: bool
  ac_pending_validation_addr :: "socket_addr option"
  ac_path_validation_token :: "bytes option"
  ac_path_validation_sent_at :: "nat option"
  ac_path_validation_retries :: nat
  ac_calls :: nat
  ac_wire :: "(socket_addr \<times> bytes) list"
  ac_accepted :: "u32 list"
  ac_datagrams :: "bytes list"

type_synonym 'a step = "(actor, 'a) act"

definition actor_new ::
  "zt_connection \<Rightarrow> bytes \<Rightarrow> bytes option \<Rightarrow> bytes option \<Rightarrow> bytes \<Rightarrow> bytes option \<Rightarrow> bool \<Rightarrow> bytes \<Rightarrow> bool \<Rightarrow> actor" where
  "actor_new state public_key ephemeral_secret ed_signing_key ed_public_key psk handshake_waiter scid is_client =
     (let next_stream_id = (if is_client then 2 else 1) in
      \<lparr>ac_state = state, ac_pending_acks = 0, ac_public_key = public_key,
       ac_ephemeral_secret = ephemeral_secret, ac_ed_signing_key = ed_signing_key,
       ac_ed_public_key = ed_public_key, ac_psk = psk, ac_handshake_waiter = handshake_waiter,
       ac_scid = scid, ac_last_active_stream_id = 0, ac_next_stream_id = next_stream_id,
       ac_is_client = is_client, ac_socket_blocked = False, ac_pending_validation_addr = None,
       ac_path_validation_token = None, ac_path_validation_sent_at = None,
       ac_path_validation_retries = 0, ac_calls = 0, ac_wire = [], ac_accepted = [], ac_datagrams = []\<rparr>)"

definition current_key_phase :: "zt_connection \<Rightarrow> bool" where
  "current_key_phase c = (cn_current_key_epoch c mod 2 \<noteq> 0)"

text \<open>Methods of the connection run inside the actor.\<close>

definition on_conn :: "(zt_connection \<Rightarrow> zt_connection) \<Rightarrow> unit step" where
  "on_conn f = amodify (\<lambda>a. a\<lparr>ac_state := f (ac_state a)\<rparr>)"

definition conn_call :: "(zt_connection \<Rightarrow> (zt_connection \<times> 'a) outcome) \<Rightarrow> 'a step" where
  "conn_call f = awith (\<lambda>a. abind (alift (f (ac_state a))) (\<lambda>(c, x). athen (on_conn (\<lambda>_. c)) (areturn x)))"

definition stream_get :: "u32 \<Rightarrow> zt_connection \<Rightarrow> stream_state option" where
  "stream_get sid c = map_of (cn_streams c) sid"

definition stream_update :: "u32 \<Rightarrow> (stream_state \<Rightarrow> stream_state) \<Rightarrow> zt_connection \<Rightarrow> zt_connection" where
  "stream_update sid f c = c\<lparr>cn_streams := AList.map_entry sid f (cn_streams c)\<rparr>"

definition stream_insert :: "u32 \<Rightarrow> stream_state \<Rightarrow> zt_connection \<Rightarrow> zt_connection" where
  "stream_insert sid s c = c\<lparr>cn_streams := AList.update sid s (cn_streams c)\<rparr>"

definition stream_remove :: "u32 \<Rightarrow> zt_connection \<Rightarrow> zt_connection" where
  "stream_remove sid c = c\<lparr>cn_streams := AList.delete sid (cn_streams c)\<rparr>"

section \<open>Questions to the environment\<close>

definition try_send_to :: "env \<Rightarrow> bytes \<Rightarrow> socket_addr \<Rightarrow> io_kind option step" where
  "try_send_to en data addr =
     (\<lambda>a. let r = en_try_send en (ac_calls a) in
          (a\<lparr>ac_calls := ac_calls a + 1,
             ac_wire := (if r = None then ac_wire a @ [(addr, data)] else ac_wire a)\<rparr>, Ok r))"

definition ask :: "(nat \<Rightarrow> 'a) \<Rightarrow> 'a step" where
  "ask answer = (\<lambda>a. (a\<lparr>ac_calls := ac_calls a + 1\<rparr>, Ok (answer (ac_calls a))))"

section \<open>The wire\<close>

definition note_packet_sent :: "env \<Rightarrow> unit step" where
  "note_packet_sent en = awith (\<lambda>a.
     let c = ac_state a in
     if cn_state c \<noteq> Active then areturn ()
     else case cn_crypto c of
       None \<Rightarrow> areturn ()
     | Some crypto \<Rightarrow>
         let sent = saturating_add64 (cn_packets_since_key_update c) 1 in
         if sent \<ge> cfg_key_update_packet_interval (en_config en) then
           abind (alift (rotate_keys (en_crypto en) crypto)) (\<lambda>crypto.
           on_conn (\<lambda>c. c\<lparr>cn_crypto := Some crypto,
             cn_current_key_epoch := saturating_add64 (cn_current_key_epoch c) 1,
             cn_packets_since_key_update := 0\<rparr>))
         else on_conn (\<lambda>c. c\<lparr>cn_packets_since_key_update := sent\<rparr>))"

definition amplification_limit_reached :: "nat \<Rightarrow> actor \<Rightarrow> bool" where
  "amplification_limit_reached total_len a \<longleftrightarrow>
     \<not> ac_is_client a \<and> cn_state (ac_state a) = Handshaking
     \<and> cn_bytes_sent (ac_state a) + total_len > 3 * max (cn_bytes_received (ac_state a)) 1"

definition sendmsg_vectored :: "env \<Rightarrow> bytes \<Rightarrow> unit step" where
  "sendmsg_vectored en data = awith (\<lambda>a.
     let total_len = length data in
     if amplification_limit_reached total_len a then areturn ()
     else
       abind (try_send_to en data (cn_addr (ac_state a))) (\<lambda>res.
       case res of
         None \<Rightarrow> on_conn (\<lambda>c. c\<lparr>cn_bytes_sent := cn_bytes_sent c + total_len\<rparr>)
       | Some kind \<Rightarrow>
           if kind = WouldBlock
           then athen (amodify (\<lambda>a. a\<lparr>ac_socket_blocked := True\<rparr>)) (aerr (Io WouldBlock))
           else aerr (Io kind)))"

section \<open>Sealing a packet\<close>

text \<open>
  The steps all senders share: the header with a packet number truncated against the lowest
  unacknowledged one, padding to the four bytes header protection samples behind, authenticated
  encryption in place, header protection.
\<close>

definition lowest_unacked :: "nat \<Rightarrow> zt_connection \<Rightarrow> nat" where
  "lowest_unacked pn c = (case unacked_keys (cn_unacked_packets c) of [] \<Rightarrow> pn | k # _ \<Rightarrow> k)"

definition pn_len_for :: "nat \<Rightarrow> zt_connection \<Rightarrow> nat outcome" where
  "pn_len_for pn c =
     obind (truncate_pn (of_nat pn) (of_nat (lowest_unacked pn c - 1))) (\<lambda>(_, pn_len). Ok pn_len)"

definition short_header :: "packet_type \<Rightarrow> nat \<Rightarrow> zt_connection \<Rightarrow> packet_header outcome" where
  "short_header p_type pn c =
     obind (pn_len_for pn c) (\<lambda>pn_len.
     Ok \<lparr>ph_type = p_type, ph_is_long = False, ph_version = 0, ph_dcid = cn_dcid c, ph_scid = [],
         ph_packet_number = of_nat pn, ph_key_phase = current_key_phase c, ph_pn_len = pn_len\<rparr>)"

definition pad_payload :: "nat \<Rightarrow> bytes \<Rightarrow> bytes" where
  "pad_payload pn_len payload =
     (let min_payload = 4 - pn_len in
      if length payload < min_payload then payload @ encode (Padding (min_payload - length payload))
      else payload)"

definition seal_packet :: "crypto_lib \<Rightarrow> crypto_context \<Rightarrow> nat \<Rightarrow> bytes \<Rightarrow> bytes \<Rightarrow> bytes outcome" where
  "seal_packet cl crypto pn aad payload =
     obind (encrypt_in_place cl crypto pn aad payload) (\<lambda>(payload, tag).
     let packet = aad @ payload @ tag in
     case get_pn_offset packet of
       None \<Rightarrow> Ok packet
     | Some offset \<Rightarrow> apply_header_protection cl packet offset (cx_tx_hp_key crypto))"

definition next_packet_number :: "nat step" where
  "next_packet_number = conn_call get_next_packet_number"

definition refresh_local_window :: "env \<Rightarrow> unit step" where
  "refresh_local_window en = on_conn (\<lambda>c.
     c\<lparr>cn_local_window := cfg_initial_max_data (en_config en) - get_total_buffered_bytes c\<rparr>)"

definition track_sent :: "nat \<Rightarrow> unacked_packet \<Rightarrow> zt_connection \<Rightarrow> zt_connection" where
  "track_sent pn up c =
     c\<lparr>cn_unacked_packets := unacked_insert pn up (cn_unacked_packets c),
       cn_bytes_in_flight := cn_bytes_in_flight c + up_sent_bytes up\<rparr>"

section \<open>Probes and acknowledgements\<close>

definition send_mtu_probe :: "env \<Rightarrow> unit step" where
  "send_mtu_probe en = awith (\<lambda>a.
     if cn_state (ac_state a) \<noteq> Active then areturn ()
     else if cn_mtu_max (ac_state a) \<le> cn_mtu_min (ac_state a) + 10 then areturn ()
     else
       let target = cn_mtu_min (ac_state a) + (cn_mtu_max (ac_state a) - cn_mtu_min (ac_state a)) div 2 in
       abind next_packet_number (\<lambda>pn.
       athen (refresh_local_window en) (
       awith (\<lambda>a.
       abind (alift (short_header Pt_MtuProbe pn (ac_state a))) (\<lambda>header.
       let aad = encode_header header;
           payload = encode (Padding (target - (length aad + 16)))
       in
       abind (alift (ok_or Unauthorized (cn_crypto (ac_state a)))) (\<lambda>crypto.
       abind (alift (seal_packet (en_crypto en) crypto pn aad payload)) (\<lambda>packet.
       abind (atry (sendmsg_vectored en packet)) (\<lambda>res.
       case res of
         Err _ \<Rightarrow> areturn ()
       | _ \<Rightarrow>
           athen (on_conn (track_sent pn \<lparr>up_payload = UpMtuProbe target, up_sent_at = en_now en,
             up_retries = 0, up_is_mtu_probe = True, up_sent_bytes = length packet\<rparr>)) (
           athen (on_conn (\<lambda>c. c\<lparr>cn_mtu_probes := AList.update pn target (cn_mtu_probes c)\<rparr>)) (
           note_packet_sent en))))))))))"

definition ack_frame :: "env \<Rightarrow> zt_connection \<Rightarrow> frame" where
  "ack_frame en c =
     (let ack_delay = (case cn_largest_acked_received_at c of None \<Rightarrow> 0 | Some t \<Rightarrow> (en_now en - t) div 1000)
      in Ack (of_nat (case at_highest (cn_ack_tracker c) of None \<Rightarrow> 0 | Some h \<Rightarrow> h))
           (of_nat (cn_local_window c)) (of_nat ack_delay)
           (map (\<lambda>(s, e). (of_nat s, of_nat e)) (get_ack_ranges (cn_ack_tracker c))))"

definition flush_acks :: "env \<Rightarrow> unit step" where
  "flush_acks en = awith (\<lambda>a.
     if ac_pending_acks a = 0 then areturn ()
     else
       abind next_packet_number (\<lambda>pn.
       athen (refresh_local_window en) (
       awith (\<lambda>a.
       let c = ac_state a in
       abind (alift (short_header Pt_Data pn c)) (\<lambda>header.
       let aad = encode_header header;
           payload = pad_payload (ph_pn_len header) (encode (ack_frame en c))
       in
       abind (alift (ok_or Unauthorized (cn_crypto c))) (\<lambda>crypto.
       abind (alift (seal_packet (en_crypto en) crypto pn aad payload)) (\<lambda>packet.
       abind (atry (sendmsg_vectored en packet)) (\<lambda>res.
       athen (case res of Err _ \<Rightarrow> areturn () | _ \<Rightarrow> note_packet_sent en) (
       amodify (\<lambda>a. a\<lparr>ac_pending_acks := 0\<rparr>))))))))))"

abbreviation PROTOCOL_VERSION :: u32 where
  "PROTOCOL_VERSION \<equiv> 2"

section \<open>Payloads\<close>

fun payload_frame :: "nat \<Rightarrow> unacked_payload \<Rightarrow> frame outcome" where
  "payload_frame h_len (UpInitial _) = Panic"
| "payload_frame h_len (UpStream stream_id stream_type offset data) =
     Ok (StreamFrame stream_id stream_type (of_nat offset) data)"
| "payload_frame h_len (UpMtuProbe target) = Ok (Padding (target - (h_len + 16)))"
| "payload_frame h_len (UpStreamClose stream_id final_size) = Ok (StreamClose stream_id (of_nat final_size))"
| "payload_frame h_len (UpMaxStreamData stream_id max_data) = Ok (MaxStreamData stream_id (of_nat max_data))"
| "payload_frame h_len (UpResetStream stream_id error_code final_size) =
     Ok (ResetStream stream_id error_code (of_nat final_size))"
| "payload_frame h_len UpClose = Ok ConnectionClose"
| "payload_frame h_len (UpConnectionCloseV2 error_code reason) = Ok (ConnectionCloseV2 error_code reason)"
| "payload_frame h_len (UpDatagram data) = Ok (Datagram data)"

fun is_probe :: "unacked_payload \<Rightarrow> bool" where
  "is_probe (UpMtuProbe _) = True"
| "is_probe _ = False"

definition initial_transcript :: "bytes \<Rightarrow> bytes \<Rightarrow> bytes \<Rightarrow> bytes option \<Rightarrow> transport_parameters \<Rightarrow> bytes" where
  "initial_transcript client_scid client_dcid public_key cookie parameters =
     to_be 4 PROTOCOL_VERSION @ client_scid @ client_dcid @ public_key @
     (case cookie of None \<Rightarrow> [] | Some c \<Rightarrow> c) @ transcript_bytes parameters"

definition initial_frames :: "env \<Rightarrow> actor \<Rightarrow> bytes \<Rightarrow> bytes option \<Rightarrow> bytes" where
  "initial_frames en a signing_key cookie =
     (let local_parameters = parameters_from_config (en_config en);
          transcript_hash = en_sha256 en
            (initial_transcript (cn_scid (ac_state a)) (cn_dcid (ac_state a)) (ac_public_key a) cookie local_parameters)
      in encode (Handshake (ac_public_key a) (ac_ed_public_key a) transcript_hash
           (en_sign en signing_key transcript_hash) (en_alpn en))
         @ encode (TransportParameters local_parameters)
         @ (case cookie of None \<Rightarrow> [] | Some c \<Rightarrow> encode (Cookie c)))"

definition send_initial_packet_internal :: "env \<Rightarrow> bytes option \<Rightarrow> nat \<Rightarrow> unit step" where
  "send_initial_packet_internal en cookie retries =
     abind next_packet_number (\<lambda>pn.
     awith (\<lambda>a.
     let c = ac_state a in
     abind (alift (pn_len_for pn c)) (\<lambda>pn_len.
     let h = \<lparr>ph_type = Pt_Initial, ph_is_long = True, ph_version = PROTOCOL_VERSION, ph_dcid = cn_dcid c,
              ph_scid = cn_scid c, ph_packet_number = of_nat pn, ph_key_phase = False, ph_pn_len = pn_len\<rparr>;
         aad = encode_header h
     in
     athen (case cookie of None \<Rightarrow> areturn () | Some ck \<Rightarrow> on_conn (\<lambda>c. c\<lparr>cn_cookie := Some ck\<rparr>)) (
     case ac_ed_signing_key a of
       None \<Rightarrow> alift Panic
     | Some signing_key \<Rightarrow>
         let payload = initial_frames en a signing_key cookie;
             pad_len = 1200 - (length aad + length payload + 16);
             payload = (if pad_len > 0 then payload @ encode (Padding pad_len) else payload)
         in
         abind (alift (crypto_initial (en_crypto en) (cn_dcid c) True)) (\<lambda>crypto.
         abind (alift (seal_packet (en_crypto en) crypto pn aad payload)) (\<lambda>packet.
         athen (on_conn (\<lambda>c. c\<lparr>cn_handshake_packet := Some packet\<rparr>)) (
         athen (aignore (sendmsg_vectored en packet)) (
         athen (on_conn (track_sent pn \<lparr>up_payload = UpInitial cookie, up_sent_at = en_now en,
           up_retries = retries, up_is_mtu_probe = False, up_sent_bytes = length packet\<rparr>)) (
         note_packet_sent en)))))))))"

definition send_initial_packet :: "env \<Rightarrow> bytes option \<Rightarrow> unit step" where
  "send_initial_packet en cookie = send_initial_packet_internal en cookie 0"

definition send_data_packet :: "env \<Rightarrow> unacked_payload \<Rightarrow> nat \<Rightarrow> unit step" where
  "send_data_packet en payload retries =
     abind next_packet_number (\<lambda>pn.
     awith (\<lambda>a.
     let c = ac_state a in
     abind (alift (short_header Pt_Data pn c)) (\<lambda>header.
     let aad = encode_header header in
     abind (alift (payload_frame (length aad) payload)) (\<lambda>frame.
     let body = pad_payload (ph_pn_len header) (encode frame) in
     abind (alift (ok_or Unauthorized (cn_crypto c))) (\<lambda>crypto.
     abind (alift (seal_packet (en_crypto en) crypto pn aad body)) (\<lambda>packet.
     athen (sendmsg_vectored en packet) (
     athen (on_conn (\<lambda>c. if retries > 0
       then c\<lparr>cn_packets_retransmitted := saturating_add64 (cn_packets_retransmitted c) 1\<rparr> else c)) (
     athen (on_conn (track_sent pn \<lparr>up_payload = payload, up_sent_at = en_now en,
       up_retries = retries, up_is_mtu_probe = is_probe payload, up_sent_bytes = length packet\<rparr>)) (
     note_packet_sent en)))))))))"

definition send_payload_with_retries :: "env \<Rightarrow> unacked_payload \<Rightarrow> nat \<Rightarrow> unit step" where
  "send_payload_with_retries en payload retries =
     (case payload of
        UpInitial cookie \<Rightarrow> send_initial_packet_internal en cookie retries
      | _ \<Rightarrow> send_data_packet en payload retries)"

definition retransmit_payload :: "env \<Rightarrow> unacked_payload \<Rightarrow> nat \<Rightarrow> unit step" where
  "retransmit_payload en payload retries =
     abind (atry (send_payload_with_retries en payload retries)) (\<lambda>res.
     case res of
       Err _ \<Rightarrow> on_conn (\<lambda>c. c\<lparr>cn_unpaced_queue := (payload, retries) # cn_unpaced_queue c\<rparr>)
     | _ \<Rightarrow> areturn ())"

definition send_payload :: "env \<Rightarrow> unacked_payload \<Rightarrow> unit step" where
  "send_payload en payload = retransmit_payload en payload 0"

definition send_datagram_payload :: "env \<Rightarrow> bytes \<Rightarrow> unit step" where
  "send_datagram_payload en data = send_payload en (UpDatagram data)"

definition final_tx_size :: "u32 \<Rightarrow> zt_connection \<Rightarrow> nat" where
  "final_tx_size stream_id c = (case stream_get stream_id c of None \<Rightarrow> 0 | Some s \<Rightarrow> ss_next_tx_offset s)"

definition send_stream_close :: "env \<Rightarrow> u32 \<Rightarrow> unit step" where
  "send_stream_close en stream_id =
     awith (\<lambda>a. send_payload en (UpStreamClose stream_id (final_tx_size stream_id (ac_state a))))"

definition reset_stream :: "env \<Rightarrow> u32 \<Rightarrow> u64 \<Rightarrow> unit step" where
  "reset_stream en stream_id error_code =
     awith (\<lambda>a. send_payload en (UpResetStream stream_id error_code (final_tx_size stream_id (ac_state a))))"

definition initiate_close :: "env \<Rightarrow> unit step" where
  "initiate_close en = athen (on_conn (\<lambda>c. c\<lparr>cn_state := Closing\<rparr>)) (send_payload en UpClose)"

definition initiate_close_with_error :: "env \<Rightarrow> u64 \<Rightarrow> bytes \<Rightarrow> unit step" where
  "initiate_close_with_error en error_code reason =
     athen (on_conn (\<lambda>c. c\<lparr>cn_state := Closing\<rparr>)) (send_payload en (UpConnectionCloseV2 error_code reason))"

definition send_frame_immediate :: "env \<Rightarrow> frame \<Rightarrow> socket_addr \<Rightarrow> unit step" where
  "send_frame_immediate en frame to_addr =
     abind next_packet_number (\<lambda>pn.
     awith (\<lambda>a.
     let c = ac_state a in
     abind (alift (short_header Pt_Data pn c)) (\<lambda>header.
     let aad = encode_header header;
         body = pad_payload (ph_pn_len header) (encode frame)
     in
     abind (alift (ok_or Unauthorized (cn_crypto c))) (\<lambda>crypto.
     abind (alift (seal_packet (en_crypto en) crypto pn aad body)) (\<lambda>packet.
     athen (on_conn (\<lambda>c. c\<lparr>cn_addr := to_addr\<rparr>)) (
     abind (atry (sendmsg_vectored en packet)) (\<lambda>res.
     athen (on_conn (\<lambda>c'. c'\<lparr>cn_addr := cn_addr c\<rparr>)) (alift res))))))))"

end
