(* ===== verification/Zt_Sender.thy ===== *)
theory Zt_Sender
  imports Zt_Actor
begin

text \<open>
  The sending side of the actor beyond single packets (\<^verbatim>\<open>src/src/transport/actor/packet_sender.rs\<close>):
  accepting application data under flow and congestion control, the pacing queue, and retransmission
  timeouts; and the deadline the event loop sets for them (\<^verbatim>\<open>src/src/transport/actor/event_loop.rs\<close>).
\<close>

section \<open>Application data\<close>

definition process_outgoing_data :: "u32 \<Rightarrow> bytes \<Rightarrow> zt_connection \<Rightarrow> (zt_connection \<times> unit) outcome" where
  "process_outgoing_data stream_id data c =
     (let to_send_len = length data in
      guard (cn_remote_window c < to_send_len) FlowControlBlocked (
      obind (ok_or ActorFailed (stream_get stream_id c)) (\<lambda>stream.
      case ss_send_stopped_error stream of
        Some error_code \<Rightarrow> Err (StreamReset stream_id error_code)
      | None \<Rightarrow>
          guard (ss_stream_type stream = UnidirectionalIn)
            (InvalidPacket ''cannot send on a receive-only stream'') (
          guard (ss_tx_window stream < to_send_len) FlowControlBlocked (
          guard (cn_bytes_in_flight c + to_send_len + cn_queued_bytes c > cc_cwnd (cn_cc c)) CongestionWindowFull (
          let start = ss_next_tx_offset stream in
          obind (add64 start to_send_len) (\<lambda>next_tx_offset.
          let c = stream_update stream_id (\<lambda>s. s\<lparr>ss_next_tx_offset := next_tx_offset,
                ss_tx_window := ss_tx_window s - to_send_len\<rparr>) c;
              c = c\<lparr>cn_conn_tx_offset := saturating_add64 (cn_conn_tx_offset c) to_send_len,
                    cn_remote_window := cn_remote_window c - to_send_len\<rparr>;
              payload = UpStream stream_id (ss_stream_type stream) start data
          in Ok (c\<lparr>cn_unpaced_queue := cn_unpaced_queue c @ [(payload, 0)],
                   cn_queued_bytes := cn_queued_bytes c + to_send_len\<rparr>, ()))))))))"

section \<open>Pacing\<close>

definition f64_le :: "f64 \<Rightarrow> f64 \<Rightarrow> bool" where
  "f64_le a b \<longleftrightarrow> f64_less a b \<or> a = b \<and> a \<noteq> NaN"

definition pacing_rate :: "zt_connection \<Rightarrow> f64" where
  "pacing_rate c =
     f64_div (f64_mul (usize_as_f64 (cc_cwnd (cn_cc c))) (round_f64 (5/4)))
       (f64_max (as_secs_f64 (cn_rtt c)) (round_f64 (1/100000)))"

definition refill_tokens :: "nat \<Rightarrow> f64 \<Rightarrow> zt_connection \<Rightarrow> zt_connection" where
  "refill_tokens now rate c =
     (let c = (case cn_last_pacing_update c of
          Some last_update \<Rightarrow>
            let elapsed = as_secs_f64 (now - last_update);
                tokens = f64_add (cn_pacing_tokens c) (f64_mul rate elapsed);
                max_burst = usize_as_f64 (cn_mtu c * 10)
            in c\<lparr>cn_pacing_tokens := (if f64_less max_burst tokens then max_burst else tokens)\<rparr>
        | None \<Rightarrow> c)
      in c\<lparr>cn_last_pacing_update := Some now\<rparr>)"

fun is_fatal :: "zt_error \<Rightarrow> bool" where
  "is_fatal Unauthorized = True"
| "is_fatal (Crypto _) = True"
| "is_fatal PacketNumberOverflow = True"
| "is_fatal _ = False"

definition paced_send_failed :: "zt_error \<Rightarrow> nat option step" where
  "paced_send_failed e = awith (\<lambda>a.
     if ac_socket_blocked a then areturn None
     else if is_fatal e then athen (on_conn (\<lambda>c. c\<lparr>cn_state := Closed\<rparr>)) (areturn None)
     else case cn_unpaced_queue (ac_state a) of
       [] \<Rightarrow> areturn (Some (millis 1))
     | (payload, r) # queue \<Rightarrow>
         athen (on_conn (\<lambda>c. c\<lparr>cn_unpaced_queue := (payload, r + 1) # queue\<rparr>)) (
         if r + 1 > 10 then athen (on_conn (\<lambda>c. c\<lparr>cn_state := Closed\<rparr>)) (areturn None)
         else areturn (Some (millis (2 ^ (r + 1))))))"

definition pop_paced :: "nat \<Rightarrow> (f64 \<Rightarrow> f64) \<Rightarrow> unit step" where
  "pop_paced len spend = on_conn (\<lambda>c.
     c\<lparr>cn_unpaced_queue := tl (cn_unpaced_queue c), cn_queued_bytes := cn_queued_bytes c - len,
       cn_pacing_tokens := spend (cn_pacing_tokens c)\<rparr>)"

text \<open>The loop runs over the queue as it was on entry; sending a payload does not change the queue.\<close>

fun pacing_loop :: "env \<Rightarrow> f64 \<Rightarrow> (unacked_payload \<times> nat) list \<Rightarrow> nat option step" where
  "pacing_loop en rate [] = areturn None"
| "pacing_loop en rate ((payload, retries) # queue) = awith (\<lambda>a.
     let len = usize_as_f64 (payload_len payload);
         tokens = cn_pacing_tokens (ac_state a)
     in
     if f64_le len tokens then
       abind (atry (send_payload_with_retries en payload retries)) (\<lambda>res.
       case res of
         Err e \<Rightarrow> paced_send_failed e
       | _ \<Rightarrow> athen (pop_paced (payload_len payload) (\<lambda>t. f64_sub t len)) (pacing_loop en rate queue))
     else
       let deficit = f64_sub len tokens;
           wait_secs = f64_div deficit rate
       in
       if f64_less wait_secs (round_f64 (1/1000)) then
         abind (atry (send_payload_with_retries en payload retries)) (\<lambda>res.
         case res of
           Err e \<Rightarrow> paced_send_failed e
         | _ \<Rightarrow> athen (pop_paced (payload_len payload) (\<lambda>t. Finite 0)) (pacing_loop en rate queue))
       else abind (alift (from_secs_f64 wait_secs)) (\<lambda>wait. areturn (Some wait)))"

definition flush_pacing_queue :: "env \<Rightarrow> nat option step" where
  "flush_pacing_queue en = awith (\<lambda>a.
     if ac_socket_blocked a then areturn None
     else
       let rate = pacing_rate (ac_state a) in
       athen (on_conn (refill_tokens (en_now en) rate)) (
       awith (\<lambda>a. pacing_loop en rate (cn_unpaced_queue (ac_state a)))))"

section \<open>Retransmission timeouts\<close>

definition base_rto :: "zt_connection \<Rightarrow> nat" where
  "base_rto c = max (cn_rtt c + cn_rttvar c * 4) (millis 50)"

definition backoff_multiplier :: "nat \<Rightarrow> nat" where
  "backoff_multiplier retries = (if retries < 32 then min (2 ^ retries) 64 else 64)"

definition packet_rto :: "nat \<Rightarrow> unacked_packet \<Rightarrow> nat" where
  "packet_rto rto up = min (rto * backoff_multiplier (up_retries up)) (secs 10)"

definition unacked_update :: "nat \<Rightarrow> unacked_packet \<Rightarrow> unacked_window \<Rightarrow> unacked_window" where
  "unacked_update pn up w = w\<lparr>uw_deque := (uw_deque w)[pn - uw_base_pn w := Some up]\<rparr>"

text \<open>What the scan over the packets in flight collects.\<close>

record rto_scan =
  rs_window :: unacked_window
  rs_to_retransmit :: "nat list"
  rs_to_drop :: "nat list"
  rs_failed_probe_targets :: "nat list"
  rs_blackhole_detected :: bool
  rs_timed_out :: bool

fun never_resent :: "unacked_packet \<Rightarrow> bool" where
  "never_resent up = (up_is_mtu_probe up \<or> (case up_payload up of UpDatagram _ \<Rightarrow> True | _ \<Rightarrow> False))"

fun scan_packets :: "nat \<Rightarrow> nat \<Rightarrow> (nat \<times> unacked_packet) list \<Rightarrow> rto_scan \<Rightarrow> rto_scan" where
  "scan_packets now rto [] rs = rs"
| "scan_packets now rto ((pn, up) # ups) rs =
     (if now - up_sent_at up > packet_rto rto up then
        if never_resent up then
          let rs = (case up_payload up of
                UpMtuProbe target \<Rightarrow> rs\<lparr>rs_failed_probe_targets := rs_failed_probe_targets rs @ [target]\<rparr>
              | _ \<Rightarrow> rs)
          in scan_packets now rto ups (rs\<lparr>rs_to_drop := rs_to_drop rs @ [pn]\<rparr>)
        else
          let up = up\<lparr>up_retries := up_retries up + 1\<rparr> in
          if up_retries up > 10
          then rs\<lparr>rs_window := unacked_update pn up (rs_window rs), rs_timed_out := True\<rparr>
          else
            let rs = (if up_retries up > 3 then rs\<lparr>rs_blackhole_detected := True\<rparr> else rs);
                up = up\<lparr>up_sent_at := now\<rparr>
            in scan_packets now rto ups
                 (rs\<lparr>rs_window := unacked_update pn up (rs_window rs), rs_to_drop := rs_to_drop rs @ [pn],
                    rs_to_retransmit := rs_to_retransmit rs @ [pn]\<rparr>)
      else scan_packets now rto ups rs)"

definition drop_packet ::
  "nat list \<Rightarrow> nat \<Rightarrow> zt_connection \<times> (unacked_payload \<times> nat) list \<Rightarrow> zt_connection \<times> (unacked_payload \<times> nat) list" where
  "drop_packet to_retransmit pn x =
     (let (c, resend) = x;
          (w, r) = unacked_remove pn (cn_unacked_packets c);
          c = c\<lparr>cn_unacked_packets := w\<rparr>
      in case r of
           None \<Rightarrow> (c, resend)
         | Some up \<Rightarrow>
             let c = c\<lparr>cn_bytes_in_flight := cn_bytes_in_flight c - up_sent_bytes up\<rparr> in
             if up_is_mtu_probe up then (c\<lparr>cn_mtu_probes := AList.delete pn (cn_mtu_probes c)\<rparr>, resend)
             else if pn \<in> set to_retransmit then (c, resend @ [(up_payload up, up_retries up)])
             else (c, resend))"

definition retire_packets :: "rto_scan \<Rightarrow> zt_connection \<Rightarrow> zt_connection \<times> (unacked_payload \<times> nat) list" where
  "retire_packets rs c =
     (let c = fold record_mtu_probe_failure (rs_failed_probe_targets rs) c;
          c = (if rs_blackhole_detected rs \<and> cn_mtu c > cn_base_mtu c then fst (recover_mtu_blackhole c) else c)
      in fold (drop_packet (rs_to_retransmit rs)) (rs_to_drop rs) (c, []))"

datatype rto_result = TimedOut_Rto | Resend "(unacked_payload \<times> nat) list" bool

definition rto_sweep :: "nat \<Rightarrow> zt_connection \<Rightarrow> zt_connection \<times> rto_result" where
  "rto_sweep now c =
     (let w = cn_unacked_packets c;
          rs = scan_packets now (base_rto c) (unacked_iter w)
            \<lparr>rs_window = w, rs_to_retransmit = [], rs_to_drop = [], rs_failed_probe_targets = [],
             rs_blackhole_detected = False, rs_timed_out = False\<rparr>;
          c = c\<lparr>cn_unacked_packets := rs_window rs\<rparr>
      in if rs_timed_out rs then (c, TimedOut_Rto)
         else let (c, payloads_to_resend) = retire_packets rs c in (c, Resend payloads_to_resend (rs_to_drop rs \<noteq> [])))"

definition note_losses :: "env \<Rightarrow> nat \<Rightarrow> zt_connection \<Rightarrow> (zt_connection \<times> unit) outcome" where
  "note_losses en lost c =
     (let c = c\<lparr>cn_packets_lost := saturating_add64 (cn_packets_lost c) lost\<rparr>
      in obind (cc_on_congestion_event (en_f64 en) (cn_rtt c) (en_now en) (cn_cc c)) (\<lambda>cc. Ok (c\<lparr>cn_cc := cc\<rparr>, ())))"

definition retransmit_all :: "env \<Rightarrow> (unacked_payload \<times> nat) list \<Rightarrow> unit step" where
  "retransmit_all en = afor (\<lambda>(payload, retries). aignore (retransmit_payload en payload retries))"

definition handle_retransmits :: "env \<Rightarrow> unit step" where
  "handle_retransmits en =
     abind (conn_call (\<lambda>c. Ok (rto_sweep (en_now en) c))) (\<lambda>result.
     case result of
       TimedOut_Rto \<Rightarrow> athen (aignore (initiate_close en)) (aerr Timeout)
     | Resend payloads_to_resend dropped \<Rightarrow>
         athen
           (if payloads_to_resend = [] then areturn ()
            else athen (conn_call (note_losses en (length payloads_to_resend))) (retransmit_all en payloads_to_resend)) (
         on_conn (\<lambda>c. if dropped then signal_all c else c)))"

definition get_next_rto_deadline :: "zt_connection \<Rightarrow> nat option" where
  "get_next_rto_deadline c =
     (let rto = base_rto c in
      fold (\<lambda>(_, up) min_deadline.
          let deadline = up_sent_at up + packet_rto rto up in
          case min_deadline of
            Some m \<Rightarrow> if deadline < m then Some deadline else min_deadline
          | None \<Rightarrow> Some deadline)
        (unacked_iter (cn_unacked_packets c)) None)"

end
