(* ===== verification/Zt_Incoming.thy ===== *)
theory Zt_Incoming
  imports Zt_Sender
begin

text \<open>
  The receiving side of the actor: delivery of stream data and window updates, the frame handlers and
  the processing of a datagram (\<^verbatim>\<open>src/src/transport/actor/incoming_handler.rs\<close>), and the client's half of
  the handshake (\<^verbatim>\<open>src/src/transport/actor/handshake_handler.rs\<close>).
\<close>

section \<open>Delivering stream data\<close>

lemma length_btree_remove_le: "length (btree_remove k m) \<le> length m"
  by (simp add: btree_remove_def)

lemma length_fold_btree_remove_le: "length (fold btree_remove ks m) \<le> length m"
  by (induction ks arbitrary: m) (auto intro: order_trans length_btree_remove_le)

lemma length_btree_insert_le: "length (btree_insert k v m) \<le> Suc (length m)"
  by (induction k v m rule: btree_insert.induct) auto

lemma length_trim_first_le: "length (trim_first h m) \<le> length m"
proof (cases m)
  case (Cons r rs)
  obtain s e where r: "r = (s, e)" by fastforce
  have "length (btree_remove s m) < length m"
    unfolding btree_remove_def by (rule length_filter_less [of "(s, e)"]) (simp_all add: Cons r)
  then show ?thesis
    using length_btree_insert_le [of h e "btree_remove s m"] by (simp add: trim_first_def Cons r)
qed (simp add: trim_first_def)

lemma read_contiguous_shrinks:
  assumes "read_contiguous b = Ok (b', Some out)"
  shows "length (sb_received_ranges b') < length (sb_received_ranges b)"
proof -
  obtain s e rs where rs: "sb_received_ranges b = (s, e) # rs" and se: "s \<le> sb_read_head b"
    using assms by (auto simp: read_contiguous_def split: if_splits list.splits)
  let ?stale = "map fst (filter (\<lambda>(s, e'). s \<le> e \<and> e' \<le> e) (sb_received_ranges b))"
  have b': "sb_received_ranges b' = trim_first e (fold btree_remove ?stale (sb_received_ranges b))"
    using assms rs by (auto simp: read_contiguous_def Let_def obind_eq_Ok split: if_splits)
  have "s \<in> set ?stale" using rs se assms
    by (auto simp: read_contiguous_def split: if_splits)
  then have "length (fold btree_remove ?stale (sb_received_ranges b)) < length (sb_received_ranges b)"
    unfolding fold_btree_remove by (intro length_filter_less [of "(s, e)"]) (simp_all add: rs)
  then show ?thesis unfolding b' using length_trim_first_le le_less_trans by blast
qed

text \<open>
  Chunks go to the application channel while it has room.  The sender half is present until the last
  byte of the stream has been read.
\<close>

function forward_chunks :: "(nat \<Rightarrow> bool) \<Rightarrow> nat \<Rightarrow> stream_state \<Rightarrow> (stream_state \<times> nat) outcome" where
  "forward_chunks try_reserve calls s =
     (if \<not> ss_app_tx s then Ok (s, calls)
      else if \<not> try_reserve calls then Ok (s, calls + 1)
      else case read_contiguous (ss_receive_buffer s) of
        Ok (b, Some chunk) \<Rightarrow>
          forward_chunks try_reserve (calls + 1)
            (s\<lparr>ss_receive_buffer := b, ss_delivered := ss_delivered s @ [chunk]\<rparr>)
      | Ok (b, None) \<Rightarrow> Ok (s\<lparr>ss_receive_buffer := b\<rparr>, calls + 1)
      | Err e \<Rightarrow> Err e
      | Panic \<Rightarrow> Panic)"
  by pat_completeness auto
termination
  by (relation "measure (\<lambda>(_, _, s). length (sb_received_ranges (ss_receive_buffer s)))")
     (auto dest: read_contiguous_shrinks)

declare forward_chunks.simps [simp del]

definition consume_read :: "nat \<Rightarrow> stream_state \<Rightarrow> stream_state" where
  "consume_read consumed s =
     s\<lparr>ss_buffered_bytes := ss_buffered_bytes s - consumed,
       ss_expected_rx_offset := saturating_add64 (ss_expected_rx_offset s) consumed\<rparr>"

definition close_if_complete :: "stream_state \<Rightarrow> stream_state" where
  "close_if_complete s =
     (case ss_final_rx_offset s of
        Some final_size \<Rightarrow> if sb_read_head (ss_receive_buffer s) \<ge> final_size then s\<lparr>ss_app_tx := False\<rparr> else s
      | None \<Rightarrow> s)"

definition tune_window :: "zt_config \<Rightarrow> nat \<Rightarrow> nat \<Rightarrow> nat \<Rightarrow> stream_state \<Rightarrow> (stream_state \<times> nat option) outcome" where
  "tune_window config now rtt consumed s =
     (if consumed > 0 then
        let s = s\<lparr>ss_bytes_read_in_epoch := saturating_add64 (ss_bytes_read_in_epoch s) consumed\<rparr> in
        if ss_bytes_read_in_epoch s \<ge> ss_window_size s div 2 then
          obind
            (if now - ss_last_window_update s < rtt * 2 then
               obind (mul64 (ss_window_size s) 2) (\<lambda>doubled.
               let new_window = min doubled (cfg_max_stream_window config)
               in Ok (if new_window > ss_window_size s then Some new_window else None))
             else Ok None) (\<lambda>scale_up.
          Ok (s\<lparr>ss_bytes_read_in_epoch := 0, ss_last_window_update := now\<rparr>, scale_up))
        else Ok (s, None)
      else Ok (s, None))"

definition scale_up_stream :: "zt_config \<Rightarrow> u32 \<Rightarrow> nat \<Rightarrow> zt_connection \<Rightarrow> (zt_connection \<times> unit) outcome" where
  "scale_up_stream config stream_id new_window c =
     (case stream_get stream_id c of
        None \<Rightarrow> Ok (c, ())
      | Some s \<Rightarrow>
          let added_size = new_window - ss_window_size s in
          if saturating_add64 (total_allocated_buffer_size c) added_size \<le> cfg_max_connection_buffer config then
            obind (resize new_window (ss_receive_buffer s)) (\<lambda>b.
            Ok (stream_update stream_id (\<lambda>s. s\<lparr>ss_receive_buffer := b, ss_window_size := new_window\<rparr>) c, ()))
          else Ok (c, ()))"

definition announce_window :: "env \<Rightarrow> u32 \<Rightarrow> nat \<Rightarrow> unit step" where
  "announce_window en stream_id consumed = awith (\<lambda>a.
     case stream_get stream_id (ac_state a) of
       None \<Rightarrow> areturn ()
     | Some s \<Rightarrow>
         abind (alift (add64 (ss_expected_rx_offset s) (ss_window_size s))) (\<lambda>max_data.
         if consumed > 0 \<and> max_data - ss_last_sent_max_data s \<ge> ss_window_size s div 4 then
           athen (on_conn (stream_update stream_id (\<lambda>s. s\<lparr>ss_last_sent_max_data := max_data\<rparr>))) (
           retransmit_payload en (UpMaxStreamData stream_id max_data) 0)
         else areturn ()))"

text \<open>What is done to the stream itself: its new state, the questions asked, and a window to grow to.\<close>

definition forward_step ::
  "zt_config \<Rightarrow> nat \<Rightarrow> (nat \<Rightarrow> bool) \<Rightarrow> nat \<Rightarrow> nat \<Rightarrow> nat \<Rightarrow> stream_state \<Rightarrow> (stream_state \<times> nat \<times> nat option) outcome" where
  "forward_step config now try_reserve calls rtt consumed s =
     obind (forward_chunks try_reserve calls (consume_read consumed s)) (\<lambda>(s, calls).
     obind (tune_window config now rtt consumed (close_if_complete s)) (\<lambda>(s, scale_up).
     Ok (s, calls, scale_up)))"

definition deliver_stream ::
  "zt_config \<Rightarrow> nat \<Rightarrow> (nat \<Rightarrow> bool) \<Rightarrow> nat \<Rightarrow> u32 \<Rightarrow> nat \<Rightarrow> zt_connection \<Rightarrow>
   (zt_connection \<times> (nat \<times> nat \<times> nat option) option) outcome" where
  "deliver_stream config now try_reserve calls stream_id bytes_read c =
     (case stream_get stream_id c of
        None \<Rightarrow> Ok (c, None)
      | Some s \<Rightarrow>
          let consumed = min bytes_read (ss_buffered_bytes s) in
          obind (forward_step config now try_reserve calls (cn_rtt c) consumed s) (\<lambda>(s, calls, scale_up).
          Ok (stream_update stream_id (\<lambda>_. s) c, Some (calls, consumed, scale_up))))"

definition forward_stream_data :: "env \<Rightarrow> u32 \<Rightarrow> nat \<Rightarrow> unit step" where
  "forward_stream_data en stream_id bytes_read = awith (\<lambda>a.
     abind (conn_call (deliver_stream (en_config en) (en_now en) (en_try_reserve en) (ac_calls a) stream_id bytes_read)) (\<lambda>r.
     case r of
       None \<Rightarrow> areturn ()
     | Some (calls, consumed, scale_up) \<Rightarrow>
         athen (amodify (\<lambda>a. a\<lparr>ac_calls := calls\<rparr>)) (
         athen (case scale_up of
             None \<Rightarrow> areturn ()
           | Some new_window \<Rightarrow> conn_call (scale_up_stream (en_config en) stream_id new_window)) (
         announce_window en stream_id consumed))))"

section \<open>Stream frames\<close>

text \<open>A violation of the protocol by the peer: the connection starts to close and the frame is an error.\<close>

definition violation :: "env \<Rightarrow> string \<Rightarrow> 'a step" where
  "violation en msg = athen (aignore (initiate_close en)) (aerr (InvalidPacket msg))"

datatype admission = BadParity | LimitReached nat | Admitted

definition peer_stream_ids :: "bool \<Rightarrow> zt_connection \<Rightarrow> u32 list" where
  "peer_stream_ids is_client c =
     filter (\<lambda>k. unat k mod 2 = (if is_client then 1 else 0)) (map fst (cn_streams c))"

definition admit_stream ::
  "zt_config \<Rightarrow> nat \<Rightarrow> bool \<Rightarrow> u32 \<Rightarrow> stream_type \<Rightarrow> zt_connection \<Rightarrow> (zt_connection \<times> admission) outcome" where
  "admit_stream config now is_client sid local_stream_type c =
     (let expected_parity = (if is_client then 1 else 0) in
      if unat sid mod 2 \<noteq> expected_parity then Ok (c, BadParity)
      else
        let peer_opened_streams = length (peer_stream_ids is_client c) in
        if peer_opened_streams \<ge> cn_local_max_streams c then Ok (c, LimitReached (cn_local_max_streams c))
        else Ok (stream_insert sid (stream_new local_stream_type
               (cfg_initial_stream_window config) (cn_peer_initial_stream_window c) now) c, Admitted))"

definition open_peer_stream :: "env \<Rightarrow> u32 \<Rightarrow> stream_type \<Rightarrow> unit step" where
  "open_peer_stream en sid local_stream_type = awith (\<lambda>a.
     abind (conn_call (admit_stream (en_config en) (en_now en) (ac_is_client a) sid local_stream_type)) (\<lambda>adm.
     case adm of
       BadParity \<Rightarrow> violation en ''Invalid stream id parity''
     | LimitReached limit \<Rightarrow> aerr (TooManyStreams limit)
     | Admitted \<Rightarrow>
         abind (ask (en_try_deliver en)) (\<lambda>delivered.
         if delivered then amodify (\<lambda>a. a\<lparr>ac_accepted := ac_accepted a @ [sid]\<rparr>)
         else
           athen (on_conn (stream_remove sid)) (
           athen (aignore (initiate_close en)) (aerr (Io OtherIo))))))"

definition count_ack :: "unit step" where
  "count_ack = amodify (\<lambda>a. a\<lparr>ac_pending_acks := ac_pending_acks a + 1\<rparr>)"

definition count_and_flush :: "env \<Rightarrow> unit step" where
  "count_and_flush en =
     athen count_ack (awith (\<lambda>a. if ac_pending_acks a \<ge> 10 then aignore (flush_acks en) else areturn ()))"

text \<open>A segment for an existing stream of the right type: what is stored, and what the frame amounts to.\<close>

datatype verdict = Absent | Violation string | Duplicate | Stored

definition beyond_final :: "stream_state \<Rightarrow> nat \<Rightarrow> bool" where
  "beyond_final s end_offset =
     (case ss_final_rx_offset s of Some final_size \<Rightarrow> end_offset > final_size | None \<Rightarrow> False)"

definition accept_segment ::
  "zt_config \<Rightarrow> u32 \<Rightarrow> nat \<Rightarrow> bytes \<Rightarrow> zt_connection \<Rightarrow> (zt_connection \<times> verdict) outcome" where
  "accept_segment config sid offset data c =
     (case stream_get sid c of
        None \<Rightarrow> Ok (c, Absent)
      | Some s \<Rightarrow>
          if allocated_size (ss_receive_buffer s) = 0
             \<and> saturating_add64 (total_allocated_buffer_size c) (ss_window_size s) > cfg_max_connection_buffer config
          then Ok (c, Violation ''Connection receive-buffer limit exceeded'')
          else
            obind (ok_or (InvalidPacket ''Stream offset overflow'') (checked_add64 offset (length data))) (\<lambda>end_offset.
            if beyond_final s end_offset
            then Ok (c, Violation ''stream data exceeds declared final size'')
            else
              let c = stream_update sid (\<lambda>s. s\<lparr>ss_highest_rx_offset := max (ss_highest_rx_offset s) end_offset\<rparr>) c in
              if end_offset \<le> sb_read_head (ss_receive_buffer s) then Ok (c, Duplicate)
              else if end_offset > saturating_add64 (ss_expected_rx_offset s) (ss_window_size s)
              then Ok (c, Violation ''Stream flow-control limit exceeded'')
              else
                obind (store_segment offset data (ss_receive_buffer s)) (\<lambda>(b, added).
                case added of
                  None \<Rightarrow> Ok (c, Violation ''Stream receive window exceeded'')
                | Some n \<Rightarrow>
                    Ok (stream_update sid (\<lambda>s. s\<lparr>ss_receive_buffer := b,
                          ss_buffered_bytes := saturating_add64 (ss_buffered_bytes s) n\<rparr>) c, Stored))))"

definition receive_segment :: "env \<Rightarrow> u32 \<Rightarrow> nat \<Rightarrow> bytes \<Rightarrow> unit step" where
  "receive_segment en sid offset data =
     abind (conn_call (accept_segment (en_config en) sid offset data)) (\<lambda>verdict.
     case verdict of
       Absent \<Rightarrow> areturn ()
     | Violation msg \<Rightarrow> violation en msg
     | Duplicate \<Rightarrow> count_ack
     | Stored \<Rightarrow> athen (forward_stream_data en sid 0) (count_and_flush en))"

definition handle_stream_frame :: "env \<Rightarrow> u32 \<Rightarrow> stream_type \<Rightarrow> nat \<Rightarrow> bytes \<Rightarrow> unit step" where
  "handle_stream_frame en sid stream_type offset data =
     abind (alift (ok_or (InvalidPacket ''peer sent a receive-only stream type'') (for_peer stream_type))) (\<lambda>local_stream_type.
     athen (awith (\<lambda>a. if stream_get sid (ac_state a) = None then open_peer_stream en sid local_stream_type
                        else areturn ())) (
     awith (\<lambda>a.
     if (case stream_get sid (ac_state a) of Some s \<Rightarrow> ss_stream_type s \<noteq> local_stream_type | None \<Rightarrow> False)
     then violation en ''stream type changed during transmission''
     else receive_segment en sid offset data)))"

section \<open>Other frames\<close>

definition handle_ack_frame :: "env \<Rightarrow> nat \<Rightarrow> u32 \<Rightarrow> nat \<Rightarrow> (nat \<times> nat) list \<Rightarrow> unit step" where
  "handle_ack_frame en largest_acked window_size ack_delay ack_ranges = awith (\<lambda>a.
     let next_pn = cn_next_packet_number (ac_state a) in
     if (next_pn = 0 \<or> largest_acked > next_pn - 1)
        \<or> list_ex (\<lambda>(start, end). start > end \<or> end > largest_acked) ack_ranges
     then violation en ''ACK acknowledges an unsent packet number''
     else
       abind (conn_call (handle_ack (en_f64 en) (en_now en) largest_acked window_size ack_delay ack_ranges))
         (retransmit_all en))"

definition terminate :: "termination_reason \<Rightarrow> zt_connection \<Rightarrow> zt_connection" where
  "terminate reason c =
     c\<lparr>cn_termination := termination_set reason (cn_termination c),
       cn_streams := map (\<lambda>(sid, s). (sid, s\<lparr>ss_termination := termination_set reason (ss_termination s)\<rparr>)) (cn_streams c)\<rparr>"

definition peer_closed :: "termination_reason \<Rightarrow> unit step" where
  "peer_closed reason = on_conn (\<lambda>c. signal_all ((terminate reason c)\<lparr>cn_state := Closed, cn_closed := True\<rparr>))"

definition handle_stream_close :: "env \<Rightarrow> u32 \<Rightarrow> nat \<Rightarrow> unit step" where
  "handle_stream_close en sid final_size = awith (\<lambda>a.
     case stream_get sid (ac_state a) of
       None \<Rightarrow> areturn ()
     | Some s \<Rightarrow>
         if final_size < ss_highest_rx_offset s
            \<or> (case ss_final_rx_offset s of Some existing \<Rightarrow> existing \<noteq> final_size | None \<Rightarrow> False)
         then violation en ''inconsistent stream final size''
         else
           athen (on_conn (stream_update sid (\<lambda>s. s\<lparr>ss_final_rx_offset := Some final_size\<rparr>))) (
           forward_stream_data en sid 0))"

definition handle_max_stream_data :: "u32 \<Rightarrow> nat \<Rightarrow> zt_connection \<Rightarrow> zt_connection" where
  "handle_max_stream_data sid max_data = stream_update sid (\<lambda>s.
     let new_window = max_data - ss_next_tx_offset s;
         old_window = ss_tx_window s;
         s = s\<lparr>ss_tx_window := new_window\<rparr>
     in if new_window > old_window then signal_window_opened s else s)"

definition handle_max_data :: "nat \<Rightarrow> zt_connection \<Rightarrow> zt_connection" where
  "handle_max_data max_data c =
     (let new_window = max_data - cn_conn_tx_offset c;
          old_window = cn_remote_window c;
          c = c\<lparr>cn_remote_window := new_window\<rparr>
      in if new_window > old_window then signal_all c else c)"

definition handle_max_streams :: "nat \<Rightarrow> zt_connection \<Rightarrow> zt_connection" where
  "handle_max_streams max_streams c =
     (if max_streams > cn_peer_max_streams c then signal_all (c\<lparr>cn_peer_max_streams := max_streams\<rparr>) else c)"

definition handle_path_response :: "bytes \<Rightarrow> socket_addr \<Rightarrow> unit step" where
  "handle_path_response data addr = amodify (\<lambda>a.
     if Some data = ac_path_validation_token a \<and> ac_pending_validation_addr a = Some addr
     then a\<lparr>ac_state := (ac_state a)\<lparr>cn_addr := addr\<rparr>, ac_pending_validation_addr := None,
            ac_path_validation_token := None, ac_path_validation_sent_at := None,
            ac_path_validation_retries := 0\<rparr>
     else a)"

definition handle_reset_stream :: "env \<Rightarrow> u32 \<Rightarrow> u64 \<Rightarrow> nat \<Rightarrow> unit step" where
  "handle_reset_stream en sid error_code final_size = awith (\<lambda>a.
     case stream_get sid (ac_state a) of
       None \<Rightarrow> on_conn (stream_remove sid)
     | Some s \<Rightarrow>
         if final_size < ss_highest_rx_offset s
         then violation en ''reset final size is smaller than received data''
         else
           athen (on_conn (stream_update sid (\<lambda>s. signal_window_opened
             (s\<lparr>ss_termination := termination_set (TrStreamReset sid error_code) (ss_termination s)\<rparr>)))) (
           on_conn (stream_remove sid)))"

definition handle_stop_sending :: "env \<Rightarrow> u32 \<Rightarrow> u64 \<Rightarrow> unit step" where
  "handle_stop_sending en sid error_code =
     athen (on_conn (stream_update sid (\<lambda>s. signal_window_opened (s\<lparr>ss_send_stopped_error := Some error_code\<rparr>)))) (
     reset_stream en sid error_code)"

text \<open>
  \<^verbatim>\<open>String::from_utf8_lossy\<close>: every maximal piece of an ill-formed sequence becomes the replacement
  character.  \<open>utf8_width\<close> gives how many bytes of the list form one character, or how many form the
  ill-formed piece.
\<close>

definition continuation :: "u8 \<Rightarrow> bool" where
  "continuation b = (b AND 0xC0 = 0x80)"

definition second_byte :: "u8 \<Rightarrow> u8 \<Rightarrow> bool" where
  "second_byte b c =
     (if b = 0xE0 then 0xA0 \<le> c \<and> c \<le> 0xBF
      else if b = 0xED then 0x80 \<le> c \<and> c \<le> 0x9F
      else if b = 0xF0 then 0x90 \<le> c \<and> c \<le> 0xBF
      else if b = 0xF4 then 0x80 \<le> c \<and> c \<le> 0x8F
      else continuation c)"

definition utf8_width :: "bytes \<Rightarrow> nat \<times> bool" where
  "utf8_width bs =
     (let byte = (\<lambda>i. if i < length bs then bs ! i else 0);
          b = byte 0
      in if b < 0x80 then (1, True)
         else if 0xC2 \<le> b \<and> b \<le> 0xDF then
           (if continuation (byte 1) then (2, True) else (1, False))
         else if 0xE0 \<le> b \<and> b \<le> 0xEF then
           (if \<not> second_byte b (byte 1) then (1, False)
            else if \<not> continuation (byte 2) then (2, False) else (3, True))
         else if 0xF0 \<le> b \<and> b \<le> 0xF4 then
           (if \<not> second_byte b (byte 1) then (1, False)
            else if \<not> continuation (byte 2) then (2, False)
            else if \<not> continuation (byte 3) then (3, False) else (4, True))
         else (1, False))"

lemma utf8_width_pos: "0 < fst (utf8_width bs)"
  by (simp add: utf8_width_def Let_def)

function from_utf8_lossy :: "bytes \<Rightarrow> bytes" where
  "from_utf8_lossy bs =
     (if bs = [] then []
      else
        let (n, ok) = utf8_width bs
        in (if ok then take n bs else [0xEF, 0xBF, 0xBD]) @ from_utf8_lossy (drop n bs))"
  by pat_completeness auto
termination
proof (relation "measure length")
  fix bs x n and ok :: bool
  assume "bs \<noteq> []" and "x = utf8_width bs" and "(n, ok) = x"
  then have "bs \<noteq> []" "utf8_width bs = (n, ok)" by simp_all
  then show "(drop n bs, bs) \<in> measure length" using utf8_width_pos [of bs] by simp
qed simp

declare from_utf8_lossy.simps [simp del]

section \<open>Dispatch\<close>

definition handle_frame :: "env \<Rightarrow> socket_addr \<Rightarrow> frame \<Rightarrow> unit step" where
  "handle_frame en addr frame =
     (case frame of
        StreamFrame sid stream_type offset data \<Rightarrow> handle_stream_frame en sid stream_type (unat offset) data
      | Ack largest_acked window_size ack_delay ack_ranges \<Rightarrow>
          handle_ack_frame en (unat largest_acked) window_size (unat ack_delay)
            (map (\<lambda>(start, end). (unat start, unat end)) ack_ranges)
      | ConnectionClose \<Rightarrow> peer_closed (TrConnectionClosed 0 (ascii ''peer closed connection''))
      | StreamClose sid final_size \<Rightarrow> handle_stream_close en sid (unat final_size)
      | MaxStreamData sid max_data \<Rightarrow> on_conn (handle_max_stream_data sid (unat max_data))
      | MaxData max_data \<Rightarrow> on_conn (handle_max_data (unat max_data))
      | Datagram data \<Rightarrow>
          abind (ask (en_try_deliver en)) (\<lambda>delivered.
          amodify (\<lambda>a. if delivered then a\<lparr>ac_datagrams := ac_datagrams a @ [data]\<rparr> else a))
      | MaxStreams max_streams \<Rightarrow> on_conn (handle_max_streams (unat max_streams))
      | PathChallenge data \<Rightarrow> aignore (send_frame_immediate en (PathResponse data) addr)
      | PathResponse data \<Rightarrow> handle_path_response data addr
      | Ping \<Rightarrow> count_and_flush en
      | ResetStream sid error_code final_size \<Rightarrow> handle_reset_stream en sid error_code (unat final_size)
      | StopSending sid error_code \<Rightarrow> handle_stop_sending en sid error_code
      | ConnectionCloseV2 error_code reason \<Rightarrow> peer_closed (TrConnectionClosed error_code (from_utf8_lossy reason))
      | _ \<Rightarrow> areturn ())"

section \<open>The client's half of the handshake\<close>

text \<open>The frames of a handshake packet: the last handshake frame, and at most one set of parameters.\<close>

type_synonym handshake_data = "bytes \<times> bytes \<times> bytes \<times> bytes \<times> bytes"

function scan_handshake ::
  "bytes \<Rightarrow> handshake_data option \<Rightarrow> transport_parameters option \<Rightarrow>
   (handshake_data option \<times> transport_parameters option) outcome" where
  "scan_handshake src handshake parameters =
     (if src = [] then Ok (handshake, parameters)
      else case decode src of
        Err e \<Rightarrow> Err e
      | Panic \<Rightarrow> Panic
      | Ok (frame, rest) \<Rightarrow>
          (case frame of
             Handshake public_key ed_public_key transcript_hash signature alpn \<Rightarrow>
               scan_handshake rest (Some (public_key, ed_public_key, transcript_hash, signature, alpn)) parameters
           | TransportParameters p \<Rightarrow>
               if parameters \<noteq> None then Err (InvalidPacket ''duplicate transport parameters'')
               else obind (validate_parameters p) (\<lambda>p. scan_handshake rest handshake (Some p))
           | _ \<Rightarrow> scan_handshake rest handshake parameters))"
  by pat_completeness auto
termination
  by (relation "measure (\<lambda>(src, _, _). length src)") (auto dest!: decode_strict_suffix suffix_length_less)

declare scan_handshake.simps [simp del]

definition server_transcript ::
  "bytes \<Rightarrow> bytes \<Rightarrow> bytes \<Rightarrow> bytes option \<Rightarrow> transport_parameters \<Rightarrow> bytes \<Rightarrow> bytes \<Rightarrow> transport_parameters \<Rightarrow> bytes" where
  "server_transcript client_scid client_dcid client_key cookie client_parameters server_scid server_key server_parameters =
     initial_transcript client_scid client_dcid client_key cookie client_parameters
     @ server_scid @ server_key @ transcript_bytes server_parameters"

definition verify_peer_key :: "env \<Rightarrow> bytes \<Rightarrow> bool" where
  "verify_peer_key en key = (case en_peer_key_verifier en of None \<Rightarrow> True | Some verifier \<Rightarrow> verifier key)"

definition adopt_parameters :: "zt_config \<Rightarrow> transport_parameters \<Rightarrow> zt_connection \<Rightarrow> zt_connection" where
  "adopt_parameters config p c =
     c\<lparr>cn_peer_max_streams := unat (tp_max_streams p),
       cn_peer_initial_stream_window := unat (tp_initial_stream_window p),
       cn_remote_window := unat (tp_initial_max_data p),
       cn_peer_max_datagram_size := unat (tp_max_datagram_size p),
       cn_idle_timeout := min (cfg_idle_timeout config) (millis (unat (tp_idle_timeout_ms p)))\<rparr>"

definition check_handshake ::
  "env \<Rightarrow> actor \<Rightarrow> bytes \<Rightarrow> handshake_data option \<times> transport_parameters option \<Rightarrow> (bytes \<times> transport_parameters) outcome" where
  "check_handshake en a new_dcid x =
     obind (ok_or (Crypto ''No handshake'') (fst x)) (\<lambda>(pk_bytes, remote_ed_pk, transcript_hash, remote_sig, remote_alpn).
     obind (ok_or (InvalidPacket ''No transport parameters in Handshake'') (snd x)) (\<lambda>remote_parameters.
     guard (remote_alpn \<noteq> en_alpn en) (Crypto ''ALPN negotiation failed'') (
     let c = ac_state a;
         expected_hash = en_sha256 en (server_transcript (cn_scid c) (cn_dcid c) (ac_public_key a) (cn_cookie c)
           (parameters_from_config (en_config en)) new_dcid pk_bytes remote_parameters)
     in
     guard (expected_hash \<noteq> transcript_hash) (Crypto ''Invalid Transcript Hash'') (
     guard (\<not> en_valid_key en remote_ed_pk) (Crypto ''Invalid EdPK'') (
     guard (\<not> en_verify en remote_ed_pk expected_hash remote_sig) (Crypto ''Invalid Sig'') (
     guard (\<not> verify_peer_key en remote_ed_pk) Unauthorized (
     Ok (pk_bytes, remote_parameters))))))))"

definition establish ::
  "env \<Rightarrow> crypto_context \<Rightarrow> nat \<Rightarrow> bytes \<Rightarrow> transport_parameters \<Rightarrow> socket_addr \<Rightarrow> actor \<Rightarrow> actor" where
  "establish en crypto pn new_dcid remote_parameters addr a =
     (let c = adopt_parameters (en_config en) remote_parameters
            ((ac_state a)\<lparr>cn_dcid := new_dcid, cn_crypto := Some crypto, cn_addr := addr\<rparr>);
          c = mark_processed (en_now en) pn (c\<lparr>cn_state := Active\<rparr>)
      in a\<lparr>ac_state := c\<lparr>cn_unacked_packets := unacked_clear (cn_unacked_packets c), cn_bytes_in_flight := 0\<rparr>,
           ac_handshake_waiter := False\<rparr>)"

definition handle_handshake_response :: "env \<Rightarrow> packet_header \<Rightarrow> bytes \<Rightarrow> bytes \<Rightarrow> socket_addr \<Rightarrow> unit step" where
  "handle_handshake_response en header payload aad addr =
     (if ph_version header \<noteq> PROTOCOL_VERSION then aerr (InvalidPacket ''Unsupported version'')
      else
        abind (alift (crypto_initial (en_crypto en) (ph_dcid header) True)) (\<lambda>crypto.
        if length payload < 16 then areturn ()
        else
          let split = length payload - 16;
              pn = unat (ph_packet_number header)
          in
          abind (alift (decrypt_in_place (en_crypto en) crypto pn aad (take split payload) (drop split payload) False)) (\<lambda>plain.
          abind (alift (scan_handshake plain None None)) (\<lambda>found.
          awith (\<lambda>a.
          let new_dcid = ph_scid header in
          abind (alift (check_handshake en a new_dcid found)) (\<lambda>(pk_bytes, remote_parameters).
          case ac_ephemeral_secret a of
            None \<Rightarrow> aerr (Crypto ''Ephemeral secret already consumed'')
          | Some secret \<Rightarrow>
              athen (amodify (\<lambda>a. a\<lparr>ac_ephemeral_secret := None\<rparr>)) (
              abind (alift (from_shared_secret (en_crypto en) (en_diffie_hellman en secret pk_bytes)
                (cn_scid (ac_state a)) new_dcid (ac_psk a) True)) (\<lambda>crypto.
              amodify (establish en crypto pn new_dcid remote_parameters addr)))))))))"

definition handle_retry_packet :: "env \<Rightarrow> bytes \<Rightarrow> unit step" where
  "handle_retry_packet en payload = send_initial_packet en (Some payload)"

section \<open>Incoming datagrams\<close>

definition is_short_header :: "bytes \<Rightarrow> bool" where
  "is_short_header data \<longleftrightarrow> data \<noteq> [] \<and> data ! 0 AND 0x80 = 0"

definition unprotect_packet :: "env \<Rightarrow> zt_connection \<Rightarrow> bytes \<Rightarrow> bytes outcome" where
  "unprotect_packet en c data =
     (if is_short_header data then
        obind (ok_or Unauthorized (cn_crypto c)) (\<lambda>crypto.
        case get_pn_offset data of
          None \<Rightarrow> Ok data
        | Some offset \<Rightarrow> remove_header_protection (en_crypto en) data offset (cx_rx_hp_key crypto))
      else
        case (get_pn_offset data, extract_dcid_fast data) of
          (Some offset, Some dcid) \<Rightarrow>
            if drop_bit 2 (data ! 0) AND 0x0F = 0x0C then Ok data
            else
              obind (crypto_initial (en_crypto en) dcid True) (\<lambda>crypto.
              remove_header_protection (en_crypto en) data offset (cx_rx_hp_key crypto))
        | _ \<Rightarrow> Ok data)"

text \<open>The header, the authenticated header bytes and the sealed payload.\<close>

definition split_packet :: "bytes \<Rightarrow> (packet_header \<times> bytes \<times> bytes) outcome" where
  "split_packet data =
     obind (ok_or (InvalidPacket ''Malformed header offset'') (get_pn_offset data)) (\<lambda>offset.
     let header_len = offset + (unat (data ! 0 AND 0x03) + 1) in
     guard (length data < header_len) (InvalidPacket ''Header truncated'') (
     obind (decode_header (take header_len data)) (\<lambda>(header, _).
     Ok (header, take header_len data, drop header_len data))))"

datatype key_choice = CurrentKey | PreviousKey | NextKey

definition choose_key :: "zt_connection \<Rightarrow> bool \<Rightarrow> bool \<Rightarrow> nat \<Rightarrow> nat \<Rightarrow> key_choice" where
  "choose_key c is_short key_phase pn highest =
     (let expected_kp = (cn_current_key_epoch c mod 2 \<noteq> 0) in
      if is_short \<and> key_phase \<noteq> expected_kp then (if pn \<ge> highest then NextKey else PreviousKey)
      else CurrentKey)"

definition open_packet ::
  "crypto_lib \<Rightarrow> key_choice \<Rightarrow> nat \<Rightarrow> bytes \<Rightarrow> bytes \<Rightarrow> crypto_context \<Rightarrow> (crypto_context \<times> bytes) outcome" where
  "open_packet cl key pn aad payload crypto =
     (let tag_idx = length payload - 16;
          tag = drop tag_idx payload;
          payload = take tag_idx payload
      in case key of
           NextKey \<Rightarrow> trial_decrypt_and_rotate cl crypto pn aad payload tag
         | CurrentKey \<Rightarrow> obind (decrypt_in_place cl crypto pn aad payload tag False) (\<lambda>plain. Ok (crypto, plain))
         | PreviousKey \<Rightarrow> obind (decrypt_in_place cl crypto pn aad payload tag True) (\<lambda>plain. Ok (crypto, plain)))"

definition adopt_context :: "key_choice \<Rightarrow> crypto_context \<Rightarrow> zt_connection \<Rightarrow> (zt_connection \<times> unit) outcome" where
  "adopt_context key crypto c =
     (let c = c\<lparr>cn_crypto := Some crypto\<rparr> in
      if key = NextKey then
        obind (add64 (cn_current_key_epoch c) 1) (\<lambda>epoch.
        Ok (c\<lparr>cn_current_key_epoch := epoch, cn_packets_since_key_update := 0\<rparr>, ()))
      else Ok (c, ()))"

definition activate_server :: "unit step" where
  "activate_server = amodify (\<lambda>a.
     if cn_state (ac_state a) = Handshaking \<and> \<not> ac_is_client a
     then a\<lparr>ac_state := (ac_state a)\<lparr>cn_state := Active\<rparr>\<rparr> else a)"

definition observe_address :: "env \<Rightarrow> socket_addr \<Rightarrow> unit step" where
  "observe_address en addr = awith (\<lambda>a.
     if cn_state (ac_state a) = Active \<and> cn_addr (ac_state a) \<noteq> addr then
       if ac_pending_validation_addr a \<noteq> Some addr then
         abind (ask (en_random en)) (\<lambda>token.
         athen (amodify (\<lambda>a. a\<lparr>ac_pending_validation_addr := Some addr, ac_path_validation_token := Some token,
           ac_path_validation_sent_at := Some (en_now en), ac_path_validation_retries := 0\<rparr>)) (
         aignore (send_frame_immediate en (PathChallenge token) addr)))
       else areturn ()
     else if cn_state (ac_state a) = Handshaking then on_conn (\<lambda>c. c\<lparr>cn_addr := addr\<rparr>)
     else areturn ())"

definition receive_sealed :: "env \<Rightarrow> key_choice \<Rightarrow> nat \<Rightarrow> bytes \<Rightarrow> bytes \<Rightarrow> socket_addr \<Rightarrow> unit step" where
  "receive_sealed en key pn aad payload addr = awith (\<lambda>a.
     abind (alift (ok_or Unauthorized (cn_crypto (ac_state a)))) (\<lambda>crypto.
     if length payload < 16 then areturn ()
     else
       abind (alift (open_packet (en_crypto en) key pn aad payload crypto)) (\<lambda>(crypto, plain).
       athen (conn_call (adopt_context key crypto)) (
       athen activate_server (
       athen (observe_address en addr) (
       athen (on_conn (mark_processed (en_now en) pn)) (
       handle_payload (handle_frame en addr) plain)))))))"

definition resend_handshake :: "env \<Rightarrow> unit step" where
  "resend_handshake en = awith (\<lambda>a.
     case cn_handshake_packet (ac_state a) of
       Some hs \<Rightarrow> aignore (sendmsg_vectored en hs)
     | None \<Rightarrow> areturn ())"

definition highest_processed :: "zt_connection \<Rightarrow> nat" where
  "highest_processed c = (case rw_highest (cn_replay_window c) of None \<Rightarrow> 0 | Some h \<Rightarrow> h)"

definition process_incoming_packet :: "env \<Rightarrow> bytes \<Rightarrow> socket_addr \<Rightarrow> unit step" where
  "process_incoming_packet en data addr =
     athen (on_conn (\<lambda>c. c\<lparr>cn_bytes_received := cn_bytes_received c + length data\<rparr>)) (
     awith (\<lambda>a.
     abind (alift (unprotect_packet en (ac_state a) data)) (\<lambda>data'.
     abind (alift (split_packet data')) (\<lambda>(header, aad, payload).
     if ph_type header = Pt_Initial \<and> \<not> ac_is_client a then resend_handshake en
     else
       let highest = highest_processed (ac_state a);
           header = header\<lparr>ph_packet_number := expand_pn (ph_packet_number header) (ph_pn_len header) (of_nat highest)\<rparr>;
           pn = unat (ph_packet_number header);
           state = cn_state (ac_state a)
       in
       if connection_is_replay (ac_state a) pn then areturn ()
       else
         let key = choose_key (ac_state a) (is_short_header data) (ph_key_phase header) pn highest in
         case ph_type header of
           Pt_Handshake \<Rightarrow>
             if state = Handshaking then handle_handshake_response en header payload aad addr else areturn ()
         | Pt_Retry \<Rightarrow> if state = Handshaking then handle_retry_packet en payload else areturn ()
         | Pt_Initial \<Rightarrow> areturn ()
         | _ \<Rightarrow>
             if state = Active \<or> state = Handshaking \<and> \<not> ac_is_client a
             then receive_sealed en key pn aad payload addr else areturn ()))))"

end
