(* ===== verification/Zt_EventLoop.thy ===== *)
theory Zt_EventLoop
  imports Zt_Incoming
begin

text \<open>
  The event loop of the actor (\<^verbatim>\<open>src/src/transport/actor/event_loop.rs\<close>): the messages of
  \<^verbatim>\<open>src/src/transport/actor/mod.rs\<close>, the six timers, and the statistics snapshot of
  \<^verbatim>\<open>src/src/stats.rs\<close>.  One turn of the loop handles one event; which of the ready events
  \<^verbatim>\<open>tokio::select!\<close> takes is left open, so a run is any sequence of enabled events.  Replies to the
  application are logged.  A panic ends the task without the clean-up behind the loop.
\<close>

section \<open>Messages and events\<close>

datatype actor_message =
    IncomingPacket bytes socket_addr
  | OutgoingData u32 bytes
  | GetMtu
  | MsgCloseStream u32
  | MsgResetStream u32 u64
  | OpenStream stream_type
  | SetHandshakePacket bytes
  | StreamDataRead u32 nat
  | MsgClose
  | MsgCloseWithError u64 bytes
  | SendDatagram bytes
  | GetStats

record connection_stats =
  st_rtt :: nat
  st_rttvar :: nat
  st_cwnd :: nat
  st_bytes_in_flight :: nat
  st_bytes_sent :: nat
  st_bytes_received :: nat
  st_active_streams :: nat
  st_key_epoch :: nat
  st_mtu :: nat
  st_cc_algorithm :: congestion_control_algorithm
  st_packets_lost :: nat
  st_packets_retransmitted :: nat
  st_mtu_probe_successes :: nat
  st_mtu_probe_failures :: nat
  st_mtu_blackhole_recoveries :: nat

datatype reply = SendResult "unit outcome" | MtuReply nat | Opened "u32 outcome" | StatsReply connection_stats

datatype event =
    Message actor_message
  | DelayedAckTimer
  | RtoTimer
  | MtuProbeTimer
  | PacingTimer
  | SocketWritable
  | PathValidationTimer
  | IdleTimer

section \<open>State\<close>

record event_loop =
  el_actor :: actor
  el_rto_deadline :: nat
  el_idle_deadline :: nat
  el_ack_deadline :: nat
  el_mtu_probe_deadline :: nat
  el_pacing_deadline :: nat
  el_path_validation_deadline :: nat
  el_replies :: "reply list"
  el_routed :: bool
  el_running :: bool

abbreviation conn :: "event_loop \<Rightarrow> zt_connection" where
  "conn l \<equiv> ac_state (el_actor l)"

abbreviation sleep_forever :: nat where
  "sleep_forever \<equiv> secs (86400 * 365)"

type_synonym 'a loop_act = "(event_loop, 'a) act"

definition on_actor :: "'a step \<Rightarrow> 'a loop_act" where
  "on_actor m = (\<lambda>l. case m (el_actor l) of (a, r) \<Rightarrow> (l\<lparr>el_actor := a\<rparr>, r))"

definition reply :: "reply \<Rightarrow> unit loop_act" where
  "reply r = amodify (\<lambda>l. l\<lparr>el_replies := el_replies l @ [r]\<rparr>)"

text \<open>How a turn ends: normally, telling whether the packets in flight changed, by \<^verbatim>\<open>continue\<close>, or by \<^verbatim>\<open>break\<close>.\<close>

datatype turn = Turn bool | Continue | Break

section \<open>Handling a message\<close>

definition reset_pacing :: "env \<Rightarrow> unit loop_act" where
  "reset_pacing en =
     abind (on_actor (flush_pacing_queue en)) (\<lambda>wait.
     amodify (\<lambda>l. l\<lparr>el_pacing_deadline :=
       (case wait of Some w \<Rightarrow> en_now en + w | None \<Rightarrow> en_now en + sleep_forever)\<rparr>))"

definition set_idle :: "nat \<Rightarrow> unit loop_act" where
  "set_idle deadline = amodify (\<lambda>l. l\<lparr>el_idle_deadline := deadline\<rparr>)"

definition stats :: "env \<Rightarrow> zt_connection \<Rightarrow> connection_stats" where
  "stats en c =
     \<lparr>st_rtt = cn_rtt c, st_rttvar = cn_rttvar c, st_cwnd = cc_cwnd (cn_cc c),
      st_bytes_in_flight = cn_bytes_in_flight c, st_bytes_sent = cn_bytes_sent c,
      st_bytes_received = cn_bytes_received c, st_active_streams = length (cn_streams c),
      st_key_epoch = cn_current_key_epoch c, st_mtu = cn_mtu c,
      st_cc_algorithm = cfg_cc_algorithm (en_config en), st_packets_lost = cn_packets_lost c,
      st_packets_retransmitted = cn_packets_retransmitted c,
      st_mtu_probe_successes = cn_mtu_probe_successes c, st_mtu_probe_failures = cn_mtu_probe_failures c,
      st_mtu_blackhole_recoveries = cn_mtu_blackhole_recoveries c\<rparr>"

definition handle_incoming :: "env \<Rightarrow> bytes \<Rightarrow> socket_addr \<Rightarrow> turn loop_act" where
  "handle_incoming en data addr =
     athen (aignore (on_actor (process_incoming_packet en data addr))) (
     athen (amodify (\<lambda>l.
       if ac_pending_acks (el_actor l) > 0 \<and> el_ack_deadline l > en_now en + millis 25
       then l\<lparr>el_ack_deadline := en_now en + millis 25\<rparr> else l)) (
     athen (reset_pacing en) (areturn (Turn True))))"

definition open_local_stream :: "env \<Rightarrow> stream_type \<Rightarrow> u32 step" where
  "open_local_stream en stream_type = awith (\<lambda>a.
     let stream_id = of_nat (ac_next_stream_id a) in
     athen (amodify (\<lambda>a. a\<lparr>ac_next_stream_id := ac_next_stream_id a + 2\<rparr>)) (
     athen (on_conn (\<lambda>c. stream_insert stream_id (stream_new stream_type
       (cfg_initial_stream_window (en_config en)) (cn_peer_initial_stream_window c) (en_now en)) c)) (
     areturn stream_id)))"

definition open_stream :: "env \<Rightarrow> stream_type \<Rightarrow> turn loop_act" where
  "open_stream en stream_type =
     (if stream_type = UnidirectionalIn then
        athen (reply (Opened (Err (InvalidPacket ''receive-only streams are created by the peer'')))) (areturn Continue)
      else awith (\<lambda>l.
        let a = el_actor l;
            c = ac_state a;
            local_parity = (if ac_is_client a then 0 else 1);
            opened_count = length (filter (\<lambda>k. unat k mod 2 = local_parity) (map fst (cn_streams c)))
        in
        if opened_count \<ge> cn_peer_max_streams c then
          athen (aignore (on_actor (send_frame_immediate en (StreamsBlocked (of_nat (cn_peer_max_streams c))) (cn_addr c)))) (
          athen (reply (Opened (Err (TooManyStreams (cn_peer_max_streams c))))) (areturn Continue))
        else if ac_next_stream_id a + 2 > u32_max then
          athen (reply (Opened (Err ConnectionIdExhausted))) (areturn Continue)
        else
          abind (on_actor (open_local_stream en stream_type)) (\<lambda>stream_id.
          athen (reply (Opened (Ok stream_id))) (areturn (Turn False)))))"

definition send_datagram :: "env \<Rightarrow> bytes \<Rightarrow> turn loop_act" where
  "send_datagram en data = awith (\<lambda>l.
     let c = conn l;
         max_datagram_payload = min (cn_mtu c - 64) (cn_peer_max_datagram_size c)
     in
     if length data > max_datagram_payload then
       athen (reply (SendResult (Err (InvalidPacket ''Datagram payload exceeds current path limit'')))) (areturn (Turn False))
     else if saturating_add64 (cn_bytes_in_flight c) (length data) > cc_cwnd (cn_cc c) then
       athen (reply (SendResult (Err CongestionWindowFull))) (areturn (Turn False))
     else
       abind (atry (on_actor (send_datagram_payload en data))) (\<lambda>result.
       athen (reset_pacing en) (
       athen (reply (SendResult result)) (areturn (Turn True)))))"

definition stream_data_read :: "env \<Rightarrow> u32 \<Rightarrow> nat \<Rightarrow> turn loop_act" where
  "stream_data_read en stream_id bytes_read =
     athen (aignore (on_actor (forward_stream_data en stream_id bytes_read))) (
     athen (if bytes_read > 0 then
         athen (on_actor (amodify (\<lambda>a. a\<lparr>ac_pending_acks := max (ac_pending_acks a) 1\<rparr>)))
           (aignore (on_actor (flush_acks en)))
       else areturn ()) (
     athen (reset_pacing en) (areturn (Turn (bytes_read > 0)))))"

definition close_connection :: "env \<Rightarrow> unit step \<Rightarrow> turn loop_act" where
  "close_connection en send_close =
     athen (aignore (on_actor send_close)) (
     athen (set_idle (en_now en + secs 5)) (
     athen (reset_pacing en) (areturn (Turn True))))"

definition retire_stream :: "env \<Rightarrow> u32 \<Rightarrow> unit step \<Rightarrow> turn loop_act" where
  "retire_stream en stream_id send_end =
     athen (aignore (on_actor send_end)) (
     athen (on_actor (on_conn (stream_remove stream_id))) (
     athen (reset_pacing en) (areturn (Turn True))))"

definition handle_message :: "env \<Rightarrow> actor_message \<Rightarrow> turn loop_act" where
  "handle_message en msg = awith (\<lambda>l.
     athen (set_idle (en_now en + cn_idle_timeout (conn l))) (
     case msg of
       IncomingPacket data addr \<Rightarrow> handle_incoming en data addr
     | OutgoingData stream_id data \<Rightarrow>
         athen (on_actor (amodify (\<lambda>a. a\<lparr>ac_last_active_stream_id := stream_id\<rparr>))) (
         abind (atry (on_actor (conn_call (process_outgoing_data stream_id data)))) (\<lambda>result.
         athen (reset_pacing en) (
         athen (reply (SendResult result)) (areturn (Turn True)))))
     | GetMtu \<Rightarrow> athen (reply (MtuReply (cn_mtu (conn l)))) (areturn (Turn False))
     | MsgCloseStream stream_id \<Rightarrow> retire_stream en stream_id (send_stream_close en stream_id)
     | MsgResetStream stream_id error_code \<Rightarrow> retire_stream en stream_id (reset_stream en stream_id error_code)
     | OpenStream stream_type \<Rightarrow> open_stream en stream_type
     | SetHandshakePacket hs \<Rightarrow>
         athen (on_actor (on_conn (\<lambda>c. c\<lparr>cn_handshake_packet := Some hs\<rparr>))) (areturn (Turn False))
     | StreamDataRead stream_id bytes_read \<Rightarrow> stream_data_read en stream_id bytes_read
     | MsgClose \<Rightarrow> close_connection en (initiate_close en)
     | MsgCloseWithError error_code reason \<Rightarrow> close_connection en (initiate_close_with_error en error_code reason)
     | SendDatagram data \<Rightarrow> send_datagram en data
     | GetStats \<Rightarrow> athen (reply (StatsReply (stats en (conn l)))) (areturn (Turn False))))"

section \<open>Timers\<close>

definition path_validation_expired :: "env \<Rightarrow> unit step" where
  "path_validation_expired en = awith (\<lambda>a.
     if ac_path_validation_retries a < cfg_max_path_validation_retries (en_config en) then
       (case (ac_pending_validation_addr a, ac_path_validation_token a) of
          (Some addr, Some token) \<Rightarrow>
            athen (amodify (\<lambda>a. a\<lparr>ac_path_validation_retries := ac_path_validation_retries a + 1,
              ac_path_validation_sent_at := Some (en_now en)\<rparr>)) (
            aignore (send_frame_immediate en (PathChallenge token) addr))
        | _ \<Rightarrow> areturn ())
     else amodify (\<lambda>a. a\<lparr>ac_pending_validation_addr := None, ac_path_validation_token := None,
       ac_path_validation_sent_at := None, ac_path_validation_retries := 0\<rparr>))"

definition idle_expired :: "unit step" where
  "idle_expired = on_conn (\<lambda>c. if cn_state c \<noteq> Closing then terminate TrIdleTimeout c else c)"

definition handle_event :: "env \<Rightarrow> event \<Rightarrow> turn loop_act" where
  "handle_event en ev =
     (case ev of
        Message msg \<Rightarrow> handle_message en msg
      | DelayedAckTimer \<Rightarrow> awith (\<lambda>l.
          let pending = ac_pending_acks (el_actor l) > 0 in
          athen (if pending then aignore (on_actor (flush_acks en)) else areturn ()) (
          athen (amodify (\<lambda>l. l\<lparr>el_ack_deadline := en_now en + sleep_forever\<rparr>)) (areturn (Turn pending))))
      | RtoTimer \<Rightarrow>
          abind (atry (on_actor (handle_retransmits en))) (\<lambda>res.
          case res of
            Err _ \<Rightarrow> areturn Break
          | _ \<Rightarrow> athen (reset_pacing en) (areturn (Turn True)))
      | MtuProbeTimer \<Rightarrow>
          athen (aignore (on_actor (send_mtu_probe en))) (
          athen (amodify (\<lambda>l. l\<lparr>el_mtu_probe_deadline := en_now en + cfg_mtu_probe_interval (en_config en)\<rparr>)) (
          areturn (Turn True)))
      | PacingTimer \<Rightarrow> athen (reset_pacing en) (areturn (Turn True))
      | SocketWritable \<Rightarrow>
          athen (on_actor (amodify (\<lambda>a. a\<lparr>ac_socket_blocked := False\<rparr>))) (
          athen (reset_pacing en) (areturn (Turn True)))
      | PathValidationTimer \<Rightarrow> athen (on_actor (path_validation_expired en)) (areturn (Turn False))
      | IdleTimer \<Rightarrow> athen (on_actor idle_expired) (areturn Break))"

section \<open>Turns of the loop\<close>

definition shutdown :: "event_loop \<Rightarrow> event_loop" where
  "shutdown l = l\<lparr>el_actor := (el_actor l)\<lparr>ac_state := signal_all ((conn l)\<lparr>cn_closed := True\<rparr>)\<rparr>,
     el_routed := False, el_running := False\<rparr>"

definition update_rto_timer :: "env \<Rightarrow> event_loop \<Rightarrow> event_loop" where
  "update_rto_timer en l = l\<lparr>el_rto_deadline :=
     (case get_next_rto_deadline (conn l) of Some d \<Rightarrow> d | None \<Rightarrow> en_now en + sleep_forever)\<rparr>"

definition end_turn :: "env \<Rightarrow> bool \<Rightarrow> event_loop \<Rightarrow> event_loop" where
  "end_turn en unacked_changed l =
     (let l = l\<lparr>el_path_validation_deadline :=
           (case ac_path_validation_sent_at (el_actor l) of
              None \<Rightarrow> en_now en + sleep_forever
            | Some sent_at \<Rightarrow> sent_at + max (cn_rtt (conn l)) (millis 50) * 2)\<rparr>
      in if unacked_changed then update_rto_timer en l else l)"

definition loop_turn :: "env \<Rightarrow> event \<Rightarrow> event_loop \<Rightarrow> event_loop" where
  "loop_turn en ev l =
     (if cn_state (conn l) = Closed then shutdown l
      else case handle_event en ev l of
        (l, Ok (Turn unacked_changed)) \<Rightarrow> end_turn en unacked_changed l
      | (l, Ok Continue) \<Rightarrow> l
      | (l, Ok Break) \<Rightarrow> shutdown l
      | (l, Err _) \<Rightarrow> shutdown l
      | (l, Panic) \<Rightarrow> l\<lparr>el_running := False\<rparr>)"

fun enabled :: "env \<Rightarrow> event \<Rightarrow> event_loop \<Rightarrow> bool" where
  "enabled en (Message _) l = True"
| "enabled en DelayedAckTimer l = (el_ack_deadline l \<le> en_now en)"
| "enabled en RtoTimer l = (el_rto_deadline l \<le> en_now en)"
| "enabled en MtuProbeTimer l = (el_mtu_probe_deadline l \<le> en_now en)"
| "enabled en PacingTimer l = (el_pacing_deadline l \<le> en_now en)"
| "enabled en SocketWritable l = ac_socket_blocked (el_actor l)"
| "enabled en PathValidationTimer l = (el_path_validation_deadline l \<le> en_now en)"
| "enabled en IdleTimer l = (el_idle_deadline l \<le> en_now en)"

definition loop_start :: "env \<Rightarrow> actor \<Rightarrow> event_loop" where
  "loop_start en a =
     (let now = en_now en;
          c = ac_state a;
          l = \<lparr>el_actor = a, el_rto_deadline = now + cn_rtt c, el_idle_deadline = now + cn_idle_timeout c,
               el_ack_deadline = now + sleep_forever,
               el_mtu_probe_deadline = now + cfg_mtu_probe_interval (en_config en),
               el_pacing_deadline = now + sleep_forever, el_path_validation_deadline = now + sleep_forever,
               el_replies = [], el_routed = True, el_running = True\<rparr>
      in if ac_is_client a \<and> cn_state c = Handshaking then
           (case on_actor (send_initial_packet en None) l of
              (l, Panic) \<Rightarrow> l\<lparr>el_running := False\<rparr>
            | (l, _) \<Rightarrow> l)
         else l)"

text \<open>
  The runs of an actor: \<open>reaches P l l'\<close> holds when a sequence of enabled events, each handled in an
  environment that satisfies \<open>P\<close>, takes the loop from \<open>l\<close> to \<open>l'\<close>.
\<close>

inductive reaches :: "(env \<Rightarrow> bool) \<Rightarrow> event_loop \<Rightarrow> event_loop \<Rightarrow> bool" for P :: "env \<Rightarrow> bool" and l :: event_loop where
  here: "reaches P l l"
| turn: "reaches P l l' \<Longrightarrow> el_running l' \<Longrightarrow> P en \<Longrightarrow> enabled en ev l' \<Longrightarrow> reaches P l (loop_turn en ev l')"

end
