(* ===== verification/Zt_Steps.thy ===== *)
theory Zt_Steps
  imports Zt_EventLoop
begin

text \<open>
  Following a relation through the actor.  Most of what the actor does leaves most of its state alone;
  a property of runs depends on few effects.  The locales list these effects as their laws, in three
  layers (sending, receiving, running), and prove once for all relations that satisfy them that every
  handler, every turn of the event loop and every run respects the relation.  The properties interpret
  them at their own relations.
\<close>

section \<open>Irrelevant updates\<close>

definition stream_view :: "stream_state \<Rightarrow> stream_receive_buffer \<times> nat \<times> nat \<times> nat" where
  "stream_view s = (ss_receive_buffer s, ss_window_size s, ss_expected_rx_offset s, ss_buffered_bytes s)"

definition streams_view :: "zt_connection \<Rightarrow> (u32 \<times> stream_receive_buffer \<times> nat \<times> nat \<times> nat) list" where
  "streams_view c = map (map_prod id stream_view) (cn_streams c)"

definition conn_quiet :: "zt_connection \<Rightarrow> zt_connection \<Rightarrow> bool" where
  "conn_quiet c c' \<longleftrightarrow> cn_state c' = cn_state c \<and> cn_addr c' = cn_addr c
     \<and> cn_scid c' = cn_scid c \<and> cn_dcid c' = cn_dcid c
     \<and> cn_next_packet_number c' = cn_next_packet_number c \<and> cn_crypto c' = cn_crypto c
     \<and> cn_current_key_epoch c' = cn_current_key_epoch c \<and> cn_bytes_sent c' = cn_bytes_sent c
     \<and> cn_bytes_received c' = cn_bytes_received c \<and> cn_local_max_streams c' = cn_local_max_streams c
     \<and> streams_view c' = streams_view c"

definition conn_inert :: "zt_connection \<Rightarrow> zt_connection \<Rightarrow> bool" where
  "conn_inert c c' \<longleftrightarrow> conn_quiet c c' \<and> cn_unacked_packets c' = cn_unacked_packets c
     \<and> cn_bytes_in_flight c' = cn_bytes_in_flight c"

definition inert :: "actor \<Rightarrow> actor \<Rightarrow> bool" where
  "inert a a' \<longleftrightarrow> conn_inert (ac_state a) (ac_state a') \<and> ac_is_client a' = ac_is_client a \<and> ac_scid a' = ac_scid a
     \<and> ac_wire a' = ac_wire a \<and> ac_next_stream_id a' = ac_next_stream_id a \<and> ac_public_key a' = ac_public_key a
     \<and> ac_pending_validation_addr a' = ac_pending_validation_addr a
     \<and> ac_path_validation_token a' = ac_path_validation_token a"

lemma streams_view_map_entry:
  "(\<And>s. stream_view (f s) = stream_view s) \<Longrightarrow>
   map (map_prod id stream_view) (AList.map_entry k f xs) = map (map_prod id stream_view) xs"
  by (induction xs) auto

lemma conn_inert_stream_update [intro]:
  "(\<And>s. stream_view (f s) = stream_view s) \<Longrightarrow> conn_inert c (stream_update sid f c)"
  by (simp add: conn_inert_def conn_quiet_def streams_view_def stream_update_def streams_view_map_entry)

lemma conn_inert_signal_all: "conn_inert c (signal_all c)"
  by (auto simp: conn_inert_def conn_quiet_def streams_view_def signal_all_def stream_view_def signal_window_opened_def)

lemma conn_inert_terminate: "conn_inert c (terminate r c)"
  by (auto simp: conn_inert_def conn_quiet_def streams_view_def terminate_def stream_view_def)

lemma conn_inert_trans: "conn_inert a b \<Longrightarrow> conn_inert b c \<Longrightarrow> conn_inert a c"
  by (simp add: conn_inert_def conn_quiet_def)

section \<open>Relations and single methods\<close>

context progress
begin

lemma payload_moves:
  assumes "\<And>f. moves R (h f)"
  shows "moves R (handle_payload h src)"
  unfolding moves_def
proof
  fix s
  show "R s (fst (handle_payload h src s))"
  proof (induction src arbitrary: s rule: measure_induct_rule [of length])
    case (less src)
    show ?case
    proof (cases "src = [] \<or> (\<forall>f rest. decode src \<noteq> Ok (f, rest))")
      case True
      then show ?thesis
        by (subst handle_payload.simps) (auto simp: stays split: outcome.splits)
    next
      case False
      then obtain f rest where d: "src \<noteq> []" "decode src = Ok (f, rest)" by blast
      obtain s' r where h: "h f s = (s', r)" by fastforce
      have "R s s'" using assms [of f] h by (rule movesD)
      moreover have "length rest < length src"
        using d(2) by (auto dest!: decode_strict_suffix suffix_length_less)
      ultimately show ?thesis
        using less.IH [of rest s'] d h by (subst handle_payload.simps) (auto intro: continues split: outcome.splits)
    qed
  qed
qed

end

section \<open>Sending\<close>

locale sending = progress R for R :: "actor \<Rightarrow> actor \<Rightarrow> bool" +
  fixes ok :: "env \<Rightarrow> bool"
  assumes inert_step: "inert a a' \<Longrightarrow> R a a'"
    and probe_step: "ok en \<Longrightarrow> moves R (send_mtu_probe en)"
    and acks_step: "ok en \<Longrightarrow> moves R (flush_acks en)"
    and initial_step: "ok en \<Longrightarrow> moves R (send_initial_packet_internal en cookie n)"
    and data_step: "ok en \<Longrightarrow> moves R (send_data_packet en p n)"
    and immediate_step: "ok en \<Longrightarrow> moves R (send_frame_immediate en f addr)"
    and state_step: "st = Closing \<or> st = Closed \<Longrightarrow> R a (a\<lparr>ac_state := (ac_state a)\<lparr>cn_state := st\<rparr>\<rparr>)"
begin

lemma inert_actor: "(\<And>a. inert a (f a)) \<Longrightarrow> moves R (amodify f)"
  by (intro modify_moves inert_step)

lemma inert_conn: "(\<And>c. conn_inert c (f c)) \<Longrightarrow> moves R (on_conn f)"
  unfolding on_conn_def by (rule inert_actor) (simp add: inert_def)

lemma state_moves: "st = Closing \<or> st = Closed \<Longrightarrow> moves R (on_conn (\<lambda>c. c\<lparr>cn_state := st\<rparr>))"
  unfolding on_conn_def by (intro modify_moves state_step)

lemma conn_call_moves:
  "(\<And>a c x. f (ac_state a) = Ok (c, x) \<Longrightarrow> R a (a\<lparr>ac_state := c\<rparr>)) \<Longrightarrow> moves R (conn_call f)"
  unfolding moves_def conn_call_def
  by (auto simp: awith_def abind_def alift_def athen_def on_conn_def amodify_def areturn_def stays split: outcome.splits)

lemma with_call_moves:
  assumes "\<And>a c x. f a (ac_state a) = Ok (c, x) \<Longrightarrow> R a (a\<lparr>ac_state := c\<rparr>)" and "\<And>a x. moves R (g a x)"
  shows "moves R (awith (\<lambda>a. abind (conn_call (f a)) (g a)))"
  unfolding moves_def
proof
  fix a
  show "R a (fst (awith (\<lambda>a. abind (conn_call (f a)) (g a)) a))"
    using assms(1) [of a] assms(2) [of a, unfolded moves_def]
    by (cases "f a (ac_state a)")
       (auto simp: awith_def abind_def conn_call_def alift_def athen_def on_conn_def amodify_def areturn_def stays
         intro: continues)
qed

lemma ask_moves: "moves R (ask answer)"
  by (simp add: moves_def ask_def inert_step inert_def conn_inert_def conn_quiet_def)

lemma payload_with_retries_moves: "ok en \<Longrightarrow> moves R (send_payload_with_retries en p n)"
  unfolding send_payload_with_retries_def by (cases p) (simp_all add: initial_step data_step)

lemma retransmit_moves: "ok en \<Longrightarrow> moves R (retransmit_payload en p n)"
  unfolding retransmit_payload_def
  by (intro bind_moves try_moves payload_with_retries_moves)
     (auto intro!: pure_moves inert_conn simp: conn_inert_def conn_quiet_def streams_view_def split: outcome.splits)

lemma retransmit_all_moves: "ok en \<Longrightarrow> moves R (retransmit_all en ps)"
  unfolding retransmit_all_def by (intro for_moves) (auto intro: ignore_moves retransmit_moves)

lemma send_payload_moves: "ok en \<Longrightarrow> moves R (send_payload en p)" "ok en \<Longrightarrow> moves R (send_datagram_payload en d)"
  by (simp_all add: send_payload_def send_datagram_payload_def retransmit_moves)

lemma stream_end_moves: "ok en \<Longrightarrow> moves R (send_stream_close en sid)" "ok en \<Longrightarrow> moves R (reset_stream en sid e)"
  unfolding send_stream_close_def reset_stream_def by (intro with_moves send_payload_moves, assumption)+

lemma close_moves:
  "ok en \<Longrightarrow> moves R (initiate_close en)" "ok en \<Longrightarrow> moves R (initiate_close_with_error en e r)"
  unfolding initiate_close_def initiate_close_with_error_def
  by (intro then_moves state_moves send_payload_moves; simp)+

lemma paced_send_failed_moves: "moves R (paced_send_failed e)"
  unfolding paced_send_failed_def
  by (intro with_moves if_moves pure_moves then_moves state_moves)
     (auto intro!: pure_moves then_moves inert_conn state_moves simp: conn_inert_def conn_quiet_def streams_view_def split: list.splits)

lemma pacing_loop_moves: "ok en \<Longrightarrow> moves R (pacing_loop en rate q)"
proof (induction q)
  case (Cons x q)
  have pop: "moves R (pop_paced n f)" for n f
    unfolding pop_paced_def by (rule inert_conn) (simp add: conn_inert_def conn_quiet_def streams_view_def)
  obtain p n where "x = (p, n)" by fastforce
  with Cons pop show ?case
    by (auto simp: Let_def intro!: with_moves bind_moves try_moves payload_with_retries_moves pure_moves
      then_moves paced_send_failed_moves split: outcome.splits)
qed (simp add: pure_moves)

lemma flush_pacing_moves: "ok en \<Longrightarrow> moves R (flush_pacing_queue en)"
  unfolding flush_pacing_queue_def Let_def
  by (intro with_moves if_moves pure_moves then_moves inert_conn pacing_loop_moves)
     (simp_all add: conn_inert_def conn_quiet_def streams_view_def refill_tokens_def Let_def split: option.splits)

end

section \<open>Receiving\<close>

fun is_path_response :: "frame \<Rightarrow> bool" where
  "is_path_response (PathResponse _) = True"
| "is_path_response _ = False"

text \<open>The methods that settle packets in flight, and those that change the streams.\<close>

inductive settles :: "zt_connection \<Rightarrow> zt_connection \<Rightarrow> bool" where
  sweep: "settles c (fst (rto_sweep now c))"
| ack: "handle_ack fl now largest win delay ranges c = Ok (c', frs) \<Longrightarrow> settles c c'"

inductive restreams :: "zt_config \<Rightarrow> bool \<Rightarrow> zt_connection \<Rightarrow> zt_connection \<Rightarrow> bool" for config is_client c where
  deliver: "deliver_stream config now tr calls sid n c = Ok (c', r) \<Longrightarrow> restreams config is_client c c'"
| grow: "scale_up_stream config sid w c = Ok (c', u) \<Longrightarrow> restreams config is_client c c'"
| accept: "accept_segment config sid offset data c = Ok (c', v) \<Longrightarrow> restreams config is_client c c'"
| admit: "admit_stream config now is_client sid st c = Ok (c', adm) \<Longrightarrow> restreams config is_client c c'"
| remove: "restreams config is_client c (stream_remove sid c)"

locale receiving = sending +
  assumes settle_step: "settles (ac_state a) c \<Longrightarrow> R a (a\<lparr>ac_state := c\<rparr>)"
    and stream_step: "ok en \<Longrightarrow> restreams (en_config en) (ac_is_client a) (ac_state a) c \<Longrightarrow> R a (a\<lparr>ac_state := c\<rparr>)"
begin

lemma sweep_step: "R a (a\<lparr>ac_state := fst (rto_sweep now (ac_state a))\<rparr>)"
  by (intro settle_step settles.sweep)

lemma ack_step: "handle_ack fl now largest win delay ranges (ac_state a) = Ok (c, frs) \<Longrightarrow> R a (a\<lparr>ac_state := c\<rparr>)"
  by (intro settle_step settles.ack)

lemma deliver_step: "ok en \<Longrightarrow> deliver_stream (en_config en) now tr calls sid n (ac_state a) = Ok (c, r) \<Longrightarrow> R a (a\<lparr>ac_state := c\<rparr>)"
  by (blast intro: stream_step restreams.deliver)

lemma grow_step: "ok en \<Longrightarrow> scale_up_stream (en_config en) sid w (ac_state a) = Ok (c, u) \<Longrightarrow> R a (a\<lparr>ac_state := c\<rparr>)"
  by (blast intro: stream_step restreams.grow)

lemma accept_step: "ok en \<Longrightarrow> accept_segment (en_config en) sid offset data (ac_state a) = Ok (c, v) \<Longrightarrow> R a (a\<lparr>ac_state := c\<rparr>)"
  by (blast intro: stream_step restreams.accept)

lemma admit_step: "ok en \<Longrightarrow> admit_stream (en_config en) now (ac_is_client a) sid st (ac_state a) = Ok (c, adm) \<Longrightarrow>
    R a (a\<lparr>ac_state := c\<rparr>)"
  by (blast intro: stream_step restreams.admit)

lemma remove_step: "ok en \<Longrightarrow> R a (a\<lparr>ac_state := stream_remove sid (ac_state a)\<rparr>)"
  by (blast intro: stream_step restreams.remove)

lemma remove_moves: "ok en \<Longrightarrow> moves R (on_conn (stream_remove sid))"
  unfolding on_conn_def by (intro modify_moves remove_step)

lemma note_losses_moves: "moves R (conn_call (note_losses en n))"
  by (rule conn_call_moves)
     (auto simp: note_losses_def obind_eq_Ok Let_def inert_def conn_inert_def conn_quiet_def streams_view_def intro!: inert_step)

lemma signal_moves: "moves R (on_conn (\<lambda>c. if b then signal_all c else c))"
  by (cases b) (auto intro!: inert_conn conn_inert_signal_all simp: conn_inert_def conn_quiet_def)

lemma sweep_moves: "rto_sweep now (ac_state a) = (c, r) \<Longrightarrow> R a (a\<lparr>ac_state := c\<rparr>)"
  using sweep_step [of a now] by simp

lemma retransmits_moves: "ok en \<Longrightarrow> moves R (handle_retransmits en)"
  unfolding handle_retransmits_def
  by (intro bind_moves conn_call_moves)
     (auto intro!: pure_moves then_moves ignore_moves close_moves signal_moves note_losses_moves retransmit_all_moves
       simp: sweep_moves split: rto_result.splits)

lemma violation_moves: "ok en \<Longrightarrow> moves R (violation en msg)"
  unfolding violation_def by (intro then_moves ignore_moves close_moves pure_moves)

lemma announce_moves: "ok en \<Longrightarrow> moves R (announce_window en sid n)"
  unfolding announce_window_def
  by (intro with_moves)
     (auto intro!: pure_moves bind_moves then_moves retransmit_moves inert_conn conn_inert_stream_update
       simp: stream_view_def split: option.splits)

lemma forward_moves:
  assumes "ok en"
  shows "moves R (forward_stream_data en sid n)"
proof -
  have "moves R (amodify (\<lambda>a. a\<lparr>ac_calls := k\<rparr>))" for k
    by (rule inert_actor) (simp add: inert_def conn_inert_def conn_quiet_def)
  moreover have "moves R (conn_call (scale_up_stream (en_config en) sid w))" for w
    by (rule conn_call_moves) (rule grow_step [OF assms])
  moreover have "moves R (conn_call (deliver_stream (en_config en) now tr calls sid n))" for now tr calls
    by (rule conn_call_moves) (rule deliver_step [OF assms])
  ultimately show ?thesis
    unfolding forward_stream_data_def using assms
    by (intro with_moves bind_moves)
       (auto intro!: pure_moves then_moves announce_moves split: option.splits)
qed

lemma open_peer_stream_moves:
  assumes "ok en"
  shows "moves R (open_peer_stream en sid st)"
  unfolding open_peer_stream_def
proof (rule with_call_moves)
  fix a :: actor and c adm
  assume "admit_stream (en_config en) (en_now en) (ac_is_client a) sid st (ac_state a) = Ok (c, adm)"
  then show "R a (a\<lparr>ac_state := c\<rparr>)" by (rule admit_step [OF assms])
next
  fix adm
  show "moves R (case adm of
       BadParity \<Rightarrow> violation en ''Invalid stream id parity''
     | LimitReached limit \<Rightarrow> aerr (TooManyStreams limit)
     | Admitted \<Rightarrow> abind (ask (en_try_deliver en)) (\<lambda>delivered.
         if delivered then amodify (\<lambda>a. a\<lparr>ac_accepted := ac_accepted a @ [sid]\<rparr>)
         else athen (on_conn (stream_remove sid)) (athen (aignore (initiate_close en)) (aerr (Io OtherIo)))))"
    using assms by (cases adm) (auto simp: inert_def conn_inert_def conn_quiet_def intro!: violation_moves pure_moves bind_moves
      ask_moves then_moves remove_moves ignore_moves close_moves inert_actor)
qed

lemma count_moves: "moves R count_ack" "ok en \<Longrightarrow> moves R (count_and_flush en)"
proof -
  show c: "moves R count_ack"
    unfolding count_ack_def by (rule inert_actor) (simp add: inert_def conn_inert_def conn_quiet_def)
  show "ok en \<Longrightarrow> moves R (count_and_flush en)"
    unfolding count_and_flush_def by (intro then_moves c with_moves if_moves ignore_moves acks_step pure_moves)
qed

lemma segment_moves:
  assumes "ok en"
  shows "moves R (receive_segment en sid offset data)"
  unfolding receive_segment_def
proof (intro bind_moves conn_call_moves)
  show "accept_segment (en_config en) sid offset data (ac_state a) = Ok (c, v) \<Longrightarrow> R a (a\<lparr>ac_state := c\<rparr>)" for a c v
    by (rule accept_step [OF assms])
  show "moves R (case v of Absent \<Rightarrow> areturn () | Violation msg \<Rightarrow> violation en msg | Duplicate \<Rightarrow> count_ack
      | Stored \<Rightarrow> athen (forward_stream_data en sid 0) (count_and_flush en))" for v
    using assms by (cases v) (auto intro: pure_moves violation_moves count_moves then_moves forward_moves)
qed

lemma stream_frame_moves: "ok en \<Longrightarrow> moves R (handle_stream_frame en sid st offset data)"
  unfolding handle_stream_frame_def
  by (intro bind_moves then_moves with_moves if_moves open_peer_stream_moves pure_moves violation_moves segment_moves)

lemma ack_frame_moves: "ok en \<Longrightarrow> moves R (handle_ack_frame en largest win delay ranges)"
  unfolding handle_ack_frame_def Let_def
  by (intro with_moves if_moves violation_moves bind_moves conn_call_moves retransmit_all_moves)
     (auto intro: ack_step)

lemma peer_closed_moves: "moves R (peer_closed r)"
  unfolding peer_closed_def on_conn_def
proof (rule modify_moves)
  fix a :: actor
  let ?c = "(terminate r (ac_state a))\<lparr>cn_state := Closed, cn_closed := True\<rparr>"
  have "R a (a\<lparr>ac_state := (ac_state a)\<lparr>cn_state := Closed\<rparr>\<rparr>)" by (rule state_step) simp
  moreover have "conn_inert ((ac_state a)\<lparr>cn_state := Closed\<rparr>) (signal_all ?c)"
    using conn_inert_terminate [of "ac_state a" r] conn_inert_signal_all [of ?c]
    by (simp add: conn_inert_def conn_quiet_def streams_view_def)
  ultimately show "R a (a\<lparr>ac_state := signal_all ?c\<rparr>)"
    by (blast intro: continues inert_step [unfolded inert_def, of "_\<lparr>ac_state := _\<rparr>" "_\<lparr>ac_state := _\<rparr>", simplified])
qed

lemma stream_close_moves: "ok en \<Longrightarrow> moves R (handle_stream_close en sid n)"
  unfolding handle_stream_close_def
  by (intro with_moves)
     (auto intro!: pure_moves violation_moves then_moves forward_moves inert_conn conn_inert_stream_update
       simp: stream_view_def split: option.splits)

lemma reset_frame_moves:
  assumes "ok en"
  shows "moves R (handle_reset_stream en sid e n)"
proof -
  have "moves R (on_conn (stream_update sid (\<lambda>s. signal_window_opened (s\<lparr>ss_termination := f s\<rparr>))))" for f
    by (intro inert_conn conn_inert_stream_update) (simp add: stream_view_def signal_window_opened_def)
  then show ?thesis
    unfolding handle_reset_stream_def using remove_moves [OF assms] assms
    by (intro with_moves) (auto intro!: violation_moves then_moves split: option.splits)
qed

lemma stop_sending_moves: "ok en \<Longrightarrow> moves R (handle_stop_sending en sid e)"
  unfolding handle_stop_sending_def
  by (intro then_moves stream_end_moves inert_conn conn_inert_stream_update)
     (simp_all add: stream_view_def signal_window_opened_def)

lemma window_frames_inert:
  "conn_inert c (handle_max_stream_data sid n c)" "conn_inert c (handle_max_data n c)"
  "conn_inert c (handle_max_streams n c)"
proof -
  show "conn_inert c (handle_max_stream_data sid n c)"
    unfolding handle_max_stream_data_def
    by (intro conn_inert_stream_update) (simp add: stream_view_def signal_window_opened_def Let_def)
  show "conn_inert c (handle_max_data n c)" "conn_inert c (handle_max_streams n c)"
    using conn_inert_signal_all [of "c\<lparr>cn_remote_window := n - cn_conn_tx_offset c\<rparr>"]
      conn_inert_signal_all [of "c\<lparr>cn_peer_max_streams := n\<rparr>"]
    by (simp_all add: handle_max_data_def handle_max_streams_def conn_inert_def conn_quiet_def streams_view_def Let_def)
qed

lemma frame_moves:
  assumes "ok en" and "\<not> is_path_response f"
  shows "moves R (handle_frame en addr f)"
  using assms unfolding handle_frame_def
  by (cases f)
     (auto intro!: pure_moves stream_frame_moves ack_frame_moves peer_closed_moves stream_close_moves bind_moves ask_moves
       inert_conn window_frames_inert inert_actor ignore_moves immediate_step count_moves reset_frame_moves stop_sending_moves
       simp: inert_def conn_inert_def conn_quiet_def)

end

section \<open>Running\<close>

locale running = receiving +
  assumes response_step: "moves R (handle_path_response data addr)"
    and validate_step: "R a (a\<lparr>ac_pending_validation_addr := x, ac_path_validation_token := y,
      ac_path_validation_sent_at := z, ac_path_validation_retries := n\<rparr>)"
    and activate_step: "cn_state (ac_state a) = Handshaking \<Longrightarrow> \<not> ac_is_client a \<Longrightarrow>
      R a (a\<lparr>ac_state := (ac_state a)\<lparr>cn_state := Active\<rparr>\<rparr>)"
    and establish_step: "ok en \<Longrightarrow> check_handshake en a dcid found = Ok (pk, p) \<Longrightarrow>
      R a (establish en crypto pn dcid p addr (a\<lparr>ac_ephemeral_secret := None\<rparr>))"
    and adopt_step: "adopt_context key crypto (ac_state a) = Ok (c, u) \<Longrightarrow> R a (a\<lparr>ac_state := c\<rparr>)"
    and received_step: "R a (a\<lparr>ac_state := (ac_state a)\<lparr>cn_bytes_received := cn_bytes_received (ac_state a) + n\<rparr>\<rparr>)"
    and address_step: "R a (a\<lparr>ac_state := (ac_state a)\<lparr>cn_addr := addr\<rparr>\<rparr>)"
    and resend_step: "ok en \<Longrightarrow> moves R (resend_handshake en)"
    and open_step: "ok en \<Longrightarrow> moves R (open_local_stream en st)"
begin

lemma any_frame_moves: "ok en \<Longrightarrow> moves R (handle_frame en addr f)"
  using frame_moves [of en f addr] response_step by (cases f) (auto simp: handle_frame_def)

lemma mark_moves: "moves R (on_conn (mark_processed now pn))"
  by (rule inert_conn) (simp add: conn_inert_def conn_quiet_def streams_view_def mark_processed_def Let_def split: option.splits)

lemma observe_moves:
  assumes "ok en"
  shows "moves R (observe_address en addr)"
proof -
  have "moves R (on_conn (\<lambda>c. c\<lparr>cn_addr := addr\<rparr>))"
    unfolding on_conn_def by (intro modify_moves address_step)
  then show ?thesis
    unfolding observe_address_def using assms
    by (intro with_moves if_moves bind_moves ask_moves then_moves ignore_moves immediate_step pure_moves modify_moves validate_step)
qed

lemma activate_moves: "moves R activate_server"
  unfolding activate_server_def by (intro modify_moves) (simp add: stays activate_step)

lemma sealed_moves:
  assumes "ok en"
  shows "moves R (receive_sealed en key pn aad payload addr)"
proof -
  have "moves R (conn_call (adopt_context key crypto))" for crypto
    by (rule conn_call_moves) (rule adopt_step)
  with assms show ?thesis
    unfolding receive_sealed_def
    by (intro with_moves bind_moves pure_moves if_moves)
       (auto intro!: then_moves activate_moves observe_moves mark_moves payload_moves any_frame_moves)
qed

lemma with_lift_moves:
  assumes "\<And>a x. r a = Ok x \<Longrightarrow> R a (fst (g a x a))"
  shows "moves R (awith (\<lambda>a. abind (alift (r a)) (g a)))"
  unfolding moves_def
proof
  fix a
  show "R a (fst (awith (\<lambda>a. abind (alift (r a)) (g a)) a))"
    using assms [of a] by (cases "r a") (simp_all add: awith_def abind_def alift_def stays)
qed

lemma accepted_response_moves:
  assumes "ok en" and "check_handshake en a dcid x = Ok (pk, p)"
  shows "R a (fst ((case ac_ephemeral_secret a of
       None \<Rightarrow> aerr e
     | Some secret \<Rightarrow> athen (amodify (\<lambda>a. a\<lparr>ac_ephemeral_secret := None\<rparr>)) (
         abind (alift (keys secret)) (\<lambda>crypto. amodify (establish en crypto pn dcid p addr)))) a))"
proof -
  have "R a (a\<lparr>ac_ephemeral_secret := None\<rparr>)"
    by (rule inert_step) (simp add: inert_def conn_inert_def conn_quiet_def)
  then show ?thesis
    using establish_step [OF assms]
    by (auto simp: athen_def abind_def amodify_def alift_def aerr_def stays split: option.split outcome.split)
qed

lemma response_moves: "ok en \<Longrightarrow> moves R (handle_handshake_response en h p aad addr)"
  unfolding handle_handshake_response_def Let_def
  by (intro if_moves pure_moves bind_moves with_lift_moves) (auto intro: accepted_response_moves)

lemma incoming_moves:
  assumes "ok en"
  shows "moves R (process_incoming_packet en data addr)"
proof -
  have "moves R (on_conn (\<lambda>c. c\<lparr>cn_bytes_received := cn_bytes_received c + n\<rparr>))" for n
    unfolding on_conn_def by (intro modify_moves received_step)
  moreover have "moves R (handle_retry_packet en p)" for p
    using assms by (simp add: handle_retry_packet_def send_initial_packet_def initial_step)
  ultimately show ?thesis
    unfolding process_incoming_packet_def Let_def using assms
    by (intro then_moves with_moves bind_moves pure_moves)
       (auto intro!: resend_step pure_moves response_moves sealed_moves split: packet_type.splits)
qed

lemma expired_moves: "ok en \<Longrightarrow> moves R (path_validation_expired en)" "moves R idle_expired"
proof -
  show "ok en \<Longrightarrow> moves R (path_validation_expired en)"
    unfolding path_validation_expired_def
    by (intro with_moves)
       (auto intro!: pure_moves then_moves ignore_moves immediate_step modify_moves validate_step inert_step
         simp: inert_def conn_inert_def conn_quiet_def split: option.splits)
  show "moves R idle_expired"
    unfolding idle_expired_def
    by (rule inert_conn) (use conn_inert_terminate in \<open>auto simp: conn_inert_def conn_quiet_def\<close>)
qed

end

text \<open>The same relation between states of the event loop.\<close>

definition by_actor :: "(actor \<Rightarrow> actor \<Rightarrow> bool) \<Rightarrow> event_loop \<Rightarrow> event_loop \<Rightarrow> bool" where
  "by_actor R l l' \<longleftrightarrow> R (el_actor l) (el_actor l')"

sublocale running \<subseteq> turns: progress "by_actor R"
  by unfold_locales (auto simp: by_actor_def intro: stays continues)

context running
begin

lemma on_actor_moves: "moves R m \<Longrightarrow> moves (by_actor R) (on_actor m)"
  by (auto simp: moves_def on_actor_def by_actor_def split: prod.split) (metis fst_conv)

lemma same_actor: "el_actor l' = el_actor l \<Longrightarrow> by_actor R l l'"
  by (simp add: by_actor_def stays)

lemma pacing_moves: "ok en \<Longrightarrow> moves (by_actor R) (reset_pacing en)"
  unfolding reset_pacing_def
  by (intro turns.bind_moves on_actor_moves flush_pacing_moves turns.modify_moves same_actor) simp_all

lemma reply_moves: "moves (by_actor R) (reply r)" "moves (by_actor R) (set_idle n)"
  unfolding reply_def set_idle_def by (intro turns.modify_moves same_actor; simp)+

lemmas turn_moves = turns.combine on_actor_moves pacing_moves reply_moves

lemma open_stream_moves: "ok en \<Longrightarrow> moves (by_actor R) (open_stream en st)"
  unfolding open_stream_def Let_def
  by (intro turn_moves immediate_step open_step)

lemma send_datagram_moves: "ok en \<Longrightarrow> moves (by_actor R) (send_datagram en d)"
  unfolding send_datagram_def Let_def by (intro turn_moves send_payload_moves)

lemma data_read_moves: "ok en \<Longrightarrow> moves (by_actor R) (stream_data_read en sid n)"
  unfolding stream_data_read_def
  by (intro turn_moves forward_moves acks_step inert_actor) (simp_all add: inert_def conn_inert_def conn_quiet_def)

lemma close_turn_moves:
  "ok en \<Longrightarrow> moves R m \<Longrightarrow> moves (by_actor R) (close_connection en m)"
  "ok en \<Longrightarrow> moves R m \<Longrightarrow> moves (by_actor R) (retire_stream en sid m)"
  unfolding close_connection_def retire_stream_def by (intro turn_moves remove_moves; assumption)+

lemma incoming_turn_moves: "ok en \<Longrightarrow> moves (by_actor R) (handle_incoming en data addr)"
  unfolding handle_incoming_def
  by (intro turn_moves incoming_moves same_actor) simp_all

lemma outgoing_inert: "process_outgoing_data sid d c = Ok (c', u) \<Longrightarrow> conn_inert c c'"
  using conn_inert_stream_update [of "\<lambda>s. s\<lparr>ss_next_tx_offset := n, ss_tx_window := ss_tx_window s - length d\<rparr>" c sid for n]
  by (auto simp: process_outgoing_data_def Let_def guard_def obind_eq_Ok conn_inert_def conn_quiet_def streams_view_def stream_view_def
    split: option.splits if_splits)

lemma outgoing_moves: "moves R (conn_call (process_outgoing_data sid d))"
  by (rule conn_call_moves) (auto intro!: inert_step dest!: outgoing_inert simp: inert_def)

lemma message_moves:
  assumes "ok en"
  shows "moves (by_actor R) (handle_message en msg)"
proof -
  have "moves R (amodify (\<lambda>a. a\<lparr>ac_last_active_stream_id := sid\<rparr>))" for sid
    by (rule inert_actor) (simp add: inert_def conn_inert_def conn_quiet_def)
  moreover have "moves R (on_conn (\<lambda>c. c\<lparr>cn_handshake_packet := Some hs\<rparr>))" for hs
    by (rule inert_conn) (simp add: conn_inert_def conn_quiet_def streams_view_def)
  ultimately show ?thesis
    unfolding handle_message_def using assms
    by (intro turns.with_moves turns.then_moves reply_moves; cases msg)
       (auto intro!: incoming_turn_moves turns.then_moves turns.bind_moves turns.try_moves turns.pure_moves on_actor_moves
         pacing_moves reply_moves outgoing_moves close_turn_moves stream_end_moves open_stream_moves data_read_moves
         close_moves send_datagram_moves)
qed

lemma event_moves:
  assumes "ok en"
  shows "moves (by_actor R) (handle_event en ev)"
proof -
  have "moves R (amodify (\<lambda>a. a\<lparr>ac_socket_blocked := False\<rparr>))"
    by (rule inert_actor) (simp add: inert_def conn_inert_def conn_quiet_def)
  with assms show ?thesis
    unfolding handle_event_def Let_def
    by (cases ev)
       (auto intro!: message_moves turn_moves same_actor acks_step retransmits_moves probe_step expired_moves
         split: outcome.splits)
qed

lemma shutdown_moves: "by_actor R l (shutdown l)"
proof -
  have "conn_inert (conn l) (signal_all ((conn l)\<lparr>cn_closed := True\<rparr>))"
    using conn_inert_signal_all [of "(conn l)\<lparr>cn_closed := True\<rparr>"] by (simp add: conn_inert_def conn_quiet_def streams_view_def)
  then show ?thesis
    unfolding by_actor_def shutdown_def by (intro inert_step) (simp add: inert_def)
qed

lemma turn_respects:
  assumes "ok en"
  shows "R (el_actor l) (el_actor (loop_turn en ev l))"
proof -
  have sd: "R (el_actor l) (el_actor (shutdown l))" for l
    using shutdown_moves [of l] by (simp add: by_actor_def)
  obtain l' r where h: "handle_event en ev l = (l', r)" by fastforce
  have "R (el_actor l) (el_actor l')"
    using movesD [OF event_moves [OF assms] h] by (simp add: by_actor_def)
  then show ?thesis
    using h sd continues [OF _ sd]
    by (auto simp: loop_turn_def end_turn_def update_rto_timer_def Let_def split: outcome.splits turn.splits)
qed

lemma run_respects:
  assumes "reaches ok l l'"
  shows "R (el_actor l) (el_actor l')"
  using assms by induction (auto intro: stays continues turn_respects)

lemma start_respects: "ok en \<Longrightarrow> R a (el_actor (loop_start en a))"
  using initial_step [of en None 0, unfolded moves_def, rule_format, of a]
  by (auto simp: loop_start_def Let_def on_actor_def send_initial_packet_def stays split: outcome.splits prod.splits)

end

end
