(* ===== verification/Zt_Runs.thy ===== *)
theory Zt_Runs
  imports Zt_Steps
begin

text \<open>
  Properties of every run of the actor, by interpreting the locales of \<^verbatim>\<open>Zt_Steps\<close>: the limit on what
  an unvalidated client can make a server send.
\<close>

section \<open>Acknowledgements and timeouts only touch packets in flight\<close>

lemma conn_quiet_refl: "conn_quiet c c"
  by (simp add: conn_quiet_def)

lemma conn_quiet_trans: "conn_quiet c d \<Longrightarrow> conn_quiet d e \<Longrightarrow> conn_quiet c e"
  by (simp add: conn_quiet_def)

lemma probe_success_quiet: "conn_quiet c (record_mtu_probe_success t c)"
  by (simp add: conn_quiet_def streams_view_def record_mtu_probe_success_def Let_def)

lemma probe_failure_quiet: "conn_quiet c (record_mtu_probe_failure t c)"
  by (simp add: conn_quiet_def streams_view_def record_mtu_probe_failure_def)

lemma blackhole_quiet: "conn_quiet c (fst (recover_mtu_blackhole c))"
  by (simp add: conn_quiet_def streams_view_def recover_mtu_blackhole_def Let_def)

lemma update_rtt_quiet: "conn_quiet c (update_rtt d s c)"
  by (auto simp: conn_quiet_def streams_view_def update_rtt_def Let_def split: option.splits)

lemma fold_quiet:
  assumes "\<And>x s. conn_quiet (g s) (g (f x s))"
  shows "conn_quiet (g s) (g (fold f xs s))"
  by (induction xs arbitrary: s) (auto intro: conn_quiet_refl conn_quiet_trans assms)

lemma settle_quiet: "ap_conn (settle_acked now up a) = ap_conn a"
  by (simp add: settle_acked_def)

lemma take_quiet: "take_unacked pn a = (a', r) \<Longrightarrow> conn_quiet (ap_conn a) (ap_conn a')"
  by (auto simp: take_unacked_def conn_quiet_def streams_view_def split: prod.splits)

lemma sack_packet_quiet: "conn_quiet (ap_conn a) (ap_conn (sack_packet now pn a))"
proof -
  obtain a' r where t: "take_unacked pn a = (a', r)" by fastforce
  have "conn_quiet c (record_mtu_probe_success n (c\<lparr>cn_mtu_probes := m\<rparr>))" for c n m
    using probe_success_quiet [of "c\<lparr>cn_mtu_probes := m\<rparr>" n] by (simp add: conn_quiet_def streams_view_def)
  moreover have "conn_quiet c (c\<lparr>cn_mtu_probes := m\<rparr>)" for c m by (simp add: conn_quiet_def streams_view_def)
  ultimately show ?thesis
    using take_quiet [OF t]
    by (auto simp: sack_packet_def t settle_quiet Let_def intro: conn_quiet_trans split: option.splits)
qed

lemma cumulative_quiet: "conn_quiet (ap_conn a) (ap_conn (cumulative_ack now largest a))"
proof -
  have "conn_quiet (ap_conn a) (ap_conn (cumulative_packet now pn a))" for pn a
    using take_quiet by (auto simp: cumulative_packet_def settle_quiet split: prod.splits option.splits)
  then show ?thesis
    unfolding cumulative_ack_def Let_def by (rule fold_quiet [of ap_conn])
qed

lemma sack_range_quiet: "sack_range now r a = Ok a' \<Longrightarrow> conn_quiet (ap_conn a) (ap_conn a')"
  using fold_quiet [of ap_conn "sack_packet now", OF sack_packet_quiet]
  by (auto simp: sack_range_def Let_def case_prod_beta obind_eq_Ok conn_quiet_refl simp del: upt_Suc split: if_splits)

lemma sack_ranges_quiet: "osteps (sack_range now) rs a = Ok a' \<Longrightarrow> conn_quiet (ap_conn a) (ap_conn a')"
  by (induction rs arbitrary: a) (auto simp: obind_eq_Ok conn_quiet_refl intro: conn_quiet_trans sack_range_quiet)

lemma lose_packet_quiet: "conn_quiet (fst x) (fst (lose_packet pn x))"
proof -
  have "conn_quiet c (record_mtu_probe_failure t (c\<lparr>cn_unacked_packets := w, cn_bytes_in_flight := n, cn_mtu_probes := m\<rparr>))"
    for c w n m t
    using probe_failure_quiet [of "c\<lparr>cn_unacked_packets := w, cn_bytes_in_flight := n, cn_mtu_probes := m\<rparr>" t]
    by (simp add: conn_quiet_def streams_view_def)
  then show ?thesis
    by (cases x) (auto simp: lose_packet_def Let_def conn_quiet_def streams_view_def
      split: prod.splits option.splits unacked_payload.splits)
qed

lemma handle_ack_quiet:
  assumes "handle_ack fl now largest win delay ranges c = Ok (c', frs)"
  shows "conn_quiet c c'"
proof -
  obtain a1 where a1: "osteps (sack_range now) ranges
    \<lparr>ap_conn = c, ap_bytes_acked = 0, ap_in_flight_acked = 0, ap_sample_rtt = None\<rparr> = Ok a1"
    using assms unfolding handle_ack_def obind_eq_Ok by blast
  define a where "a = cumulative_ack now largest a1"
  have a: "conn_quiet c (ap_conn a)"
    using sack_ranges_quiet [OF a1] cumulative_quiet [of a1]
    unfolding a_def by (metis ack_progress.select_convs(1) conn_quiet_trans)
  have fin: "conn_quiet (fst x) c'" if "finish_ack fl now win delay a x = Ok (c', frs)" for x
  proof -
    have "conn_quiet d (signal_all e)" if "conn_quiet d e" for d e
      using that conn_inert_signal_all [of e] by (auto simp: conn_inert_def intro: conn_quiet_trans)
    moreover have "conn_quiet d ((update_rtt n s (d\<lparr>cn_cc := cc, cn_bytes_in_flight := m\<rparr>))\<lparr>cn_cc := cc', cn_remote_window := w\<rparr>)"
      for d n s cc m cc' w
      using update_rtt_quiet [of "d\<lparr>cn_cc := cc, cn_bytes_in_flight := m\<rparr>" n s] by (simp add: conn_quiet_def streams_view_def)
    moreover have "conn_quiet d ((update_rtt n s (d\<lparr>cn_bytes_in_flight := m\<rparr>))\<lparr>cn_cc := cc', cn_remote_window := w\<rparr>)"
      for d n s m cc' w
      using update_rtt_quiet [of "d\<lparr>cn_bytes_in_flight := m\<rparr>" n s] by (simp add: conn_quiet_def streams_view_def)
    ultimately show ?thesis
      using that by (cases x) (auto simp: finish_ack_def Let_def outcome_Ok_iffs split: if_splits)
  qed
  obtain lost n where f: "finish_ack fl now win delay a (fold lose_packet lost ((ap_conn a)\<lparr>cn_packets_lost := n\<rparr>, [], False)) = Ok (c', frs)"
    using assms unfolding handle_ack_def Let_def a1 obind_Ok a_def [symmetric] obind_eq_Ok by blast
  have "conn_quiet ((ap_conn a)\<lparr>cn_packets_lost := n\<rparr>) c'"
    using fold_quiet [of fst lose_packet, OF lose_packet_quiet, of "((ap_conn a)\<lparr>cn_packets_lost := n\<rparr>, [], False)" lost]
      fin [OF f] by (auto intro: conn_quiet_trans)
  with a show ?thesis by (simp add: conn_quiet_def streams_view_def)
qed

lemma drop_packet_quiet: "conn_quiet (fst x) (fst (drop_packet ps pn x))"
  by (cases x) (auto simp: drop_packet_def Let_def conn_quiet_def streams_view_def split: prod.splits option.splits)

lemma sweep_quiet: "conn_quiet c (fst (rto_sweep now c))"
proof -
  have retire: "conn_quiet d (fst (retire_packets rs d))" for rs d
  proof -
    define e where "e = fold record_mtu_probe_failure (rs_failed_probe_targets rs) d"
    define e' where "e' = (if rs_blackhole_detected rs \<and> cn_mtu e > cn_base_mtu e then fst (recover_mtu_blackhole e) else e)"
    have "conn_quiet d e"
      unfolding e_def using fold_quiet [of id record_mtu_probe_failure, simplified, OF probe_failure_quiet] .
    moreover have "conn_quiet e e'" by (simp add: e'_def blackhole_quiet conn_quiet_refl)
    moreover have "conn_quiet e' (fst (retire_packets rs d))"
      using fold_quiet [of fst "drop_packet (rs_to_retransmit rs)", OF drop_packet_quiet, of "(e', [])"]
      unfolding retire_packets_def Let_def e_def [symmetric] e'_def [symmetric] by simp
    ultimately show ?thesis by (blast intro: conn_quiet_trans)
  qed
  have "conn_quiet c (c\<lparr>cn_unacked_packets := w\<rparr>)" for w by (simp add: conn_quiet_def streams_view_def)
  then show ?thesis
    using retire by (auto simp: rto_sweep_def Let_def split: prod.split intro: conn_quiet_trans) (metis conn_quiet_trans fst_conv)
qed

section \<open>Relations that do not see how packets are built\<close>

definition unseen :: "actor \<Rightarrow> actor \<Rightarrow> bool" where
  "unseen a a' \<longleftrightarrow> ac_is_client a' = ac_is_client a \<and> ac_scid a' = ac_scid a \<and> ac_wire a' = ac_wire a
     \<and> ac_next_stream_id a' = ac_next_stream_id a \<and> ac_public_key a' = ac_public_key a
     \<and> cn_state (ac_state a') = cn_state (ac_state a)
     \<and> cn_scid (ac_state a') = cn_scid (ac_state a) \<and> cn_dcid (ac_state a') = cn_dcid (ac_state a)
     \<and> cn_bytes_sent (ac_state a') = cn_bytes_sent (ac_state a)
     \<and> cn_bytes_received (ac_state a') = cn_bytes_received (ac_state a)
     \<and> cn_local_max_streams (ac_state a') = cn_local_max_streams (ac_state a)
     \<and> streams_view (ac_state a') = streams_view (ac_state a)"

locale bystander = progress R for R :: "actor \<Rightarrow> actor \<Rightarrow> bool" +
  assumes unseen_step: "unseen a a' \<Longrightarrow> R a a'"
    and message_step: "moves R (sendmsg_vectored en data)"
begin

lemma unseen_conn: "(\<And>a. unseen a (a\<lparr>ac_state := f (ac_state a)\<rparr>)) \<Longrightarrow> moves R (on_conn f)"
  unfolding on_conn_def by (intro modify_moves unseen_step)

lemma number_moves: "moves R next_packet_number"
  unfolding moves_def next_packet_number_def conn_call_def
  by (auto simp: awith_def abind_def alift_def athen_def on_conn_def amodify_def areturn_def stays
      get_next_packet_number_def outcome_Ok_iffs Let_def unseen_def streams_view_def intro!: unseen_step split: outcome.split)

lemma bookkeeping_moves:
  "moves R (refresh_local_window en)" "moves R (on_conn (track_sent pn up))" "moves R (on_conn (\<lambda>c. c\<lparr>cn_addr := addr\<rparr>))"
  unfolding refresh_local_window_def track_sent_def
  by (intro unseen_conn; simp add: unseen_def streams_view_def)+

lemma note_moves: "moves R (note_packet_sent en)"
  unfolding note_packet_sent_def Let_def
  by (intro with_moves if_moves pure_moves)
     (auto intro!: pure_moves bind_moves unseen_conn simp: unseen_def streams_view_def split: option.splits)

lemma senders_move:
  "moves R (send_mtu_probe en)" "moves R (flush_acks en)" "moves R (send_initial_packet_internal en cookie n)"
  "moves R (send_data_packet en p n)" "moves R (send_frame_immediate en f addr)" "moves R (resend_handshake en)"
  unfolding send_mtu_probe_def flush_acks_def send_initial_packet_internal_def send_data_packet_def
    send_frame_immediate_def resend_handshake_def Let_def
  by (auto intro!: combine number_moves bookkeeping_moves note_moves message_step unseen_conn unseen_step
    simp: unseen_def streams_view_def split: outcome.splits option.splits)

end

section \<open>The amplification limit\<close>

definition wire_bytes :: "actor \<Rightarrow> nat" where
  "wire_bytes a = sum_list (map (length \<circ> snd) (ac_wire a))"

definition amplification_ok :: "actor \<Rightarrow> bool" where
  "amplification_ok a \<longleftrightarrow> cn_bytes_sent (ac_state a) = wire_bytes a
     \<and> (\<not> ac_is_client a \<and> cn_state (ac_state a) = Handshaking \<longrightarrow>
          wire_bytes a \<le> 3 * max (cn_bytes_received (ac_state a)) 1)"

lemma sendmsg_amplification: "moves (keeps amplification_ok) (sendmsg_vectored en data)"
  unfolding moves_def
  by (auto simp: keeps_def amplification_ok_def wire_bytes_def sendmsg_vectored_def amplification_limit_reached_def awith_def abind_def athen_def
    try_send_to_def on_conn_def amodify_def areturn_def aerr_def Let_def split: option.split)

interpretation amp_senders: bystander "keeps amplification_ok"
proof (intro bystander.intro keeps_progress bystander_axioms.intro)
  show "unseen a a' \<Longrightarrow> keeps amplification_ok a a'" for a a'
    by (simp add: unseen_def keeps_def amplification_ok_def wire_bytes_def)
qed (rule sendmsg_amplification)

lemma quiet_unseen: "conn_quiet (ac_state a) c \<Longrightarrow> unseen a (a\<lparr>ac_state := c\<rparr>)"
  by (simp add: conn_quiet_def unseen_def)

lemma inert_unseen: "inert a a' \<Longrightarrow> unseen a a'"
  by (simp add: inert_def conn_inert_def conn_quiet_def unseen_def)

text \<open>The methods on streams change nothing of the connection but its streams.\<close>

definition streams_only :: "zt_connection \<Rightarrow> zt_connection \<Rightarrow> bool" where
  "streams_only c c' \<longleftrightarrow> (\<exists>xs. c' = c\<lparr>cn_streams := xs\<rparr>)"

lemma streams_only_steps:
  "streams_only c (stream_update sid f c)" "streams_only c (stream_insert sid s c)" "streams_only c (stream_remove sid c)"
  "streams_only c c"
  by (auto simp: streams_only_def stream_update_def stream_insert_def stream_remove_def intro: exI [of _ "cn_streams c"])

lemma streams_only_trans: "streams_only c d \<Longrightarrow> streams_only d e \<Longrightarrow> streams_only c e"
  by (auto simp: streams_only_def)

lemma accept_segment_cases:
  assumes "accept_segment config sid offset data c = Ok (c', v)"
  obtains (unchanged) "c' = c" "v \<noteq> Stored"
  | (noted) s where "stream_get sid c = Some s" "v \<noteq> Stored"
      "c' = stream_update sid (\<lambda>s. s\<lparr>ss_highest_rx_offset := max (ss_highest_rx_offset s) (offset + length data)\<rparr>) c"
  | (stored) s b n where "stream_get sid c = Some s" "v = Stored"
      "allocated_size (ss_receive_buffer s) = 0 \<Longrightarrow>
         saturating_add64 (total_allocated_buffer_size c) (ss_window_size s) \<le> cfg_max_connection_buffer config"
      "\<not> beyond_final s (offset + length data)" "sb_read_head (ss_receive_buffer s) < offset + length data"
      "offset + length data \<le> saturating_add64 (ss_expected_rx_offset s) (ss_window_size s)"
      "store_segment offset data (ss_receive_buffer s) = Ok (b, Some n)"
      "c' = stream_update sid (\<lambda>s. s\<lparr>ss_receive_buffer := b, ss_buffered_bytes := saturating_add64 (ss_buffered_bytes s) n\<rparr>)
         (stream_update sid (\<lambda>s. s\<lparr>ss_highest_rx_offset := max (ss_highest_rx_offset s) (offset + length data)\<rparr>) c)"
proof (cases "stream_get sid c")
  case None
  then show ?thesis using assms unchanged by (simp add: accept_segment_def)
next
  case (Some s)
  show ?thesis
  proof (cases "checked_add64 offset (length data)")
    case None
    then show ?thesis using assms Some unchanged by (auto simp: accept_segment_def outcome_Ok_iffs split: if_splits)
  next
    case e: (Some e)
    then have "e = offset + length data" by (simp add: checked_add64_def split: if_splits)
    then show ?thesis
      using assms Some e unchanged noted [of s] stored [of s]
      by (auto simp: accept_segment_def outcome_Ok_iffs Let_def not_less split: if_splits option.splits)
  qed
qed

lemma stream_methods_streams_only:
  "deliver_stream config now tr calls sid n c = Ok (c', r) \<Longrightarrow> streams_only c c'"
  "scale_up_stream config sid w c = Ok (c', u) \<Longrightarrow> streams_only c c'"
  "admit_stream config now cl sid st c = Ok (c', adm) \<Longrightarrow> streams_only c c'"
  "accept_segment config sid offset data c = Ok (c', v) \<Longrightarrow> streams_only c c'"
proof -
  show "deliver_stream config now tr calls sid n c = Ok (c', r) \<Longrightarrow> streams_only c c'"
    "scale_up_stream config sid w c = Ok (c', u) \<Longrightarrow> streams_only c c'"
    "admit_stream config now cl sid st c = Ok (c', adm) \<Longrightarrow> streams_only c c'"
    by (auto simp: deliver_stream_def scale_up_stream_def admit_stream_def Let_def outcome_Ok_iffs
      intro: streams_only_steps split: option.splits if_splits)
  show "accept_segment config sid offset data c = Ok (c', v) \<Longrightarrow> streams_only c c'"
    by (elim accept_segment_cases) (auto intro: streams_only_steps streams_only_trans)
qed

lemma restreams_streams_only: "restreams config is_client c c' \<Longrightarrow> streams_only c c'"
  by (auto elim!: restreams.cases intro: stream_methods_streams_only streams_only_steps)

lemma settles_quiet: "settles c c' \<Longrightarrow> conn_quiet c c'"
  by (auto elim!: settles.cases intro: sweep_quiet handle_ack_quiet)

lemma streams_only_sel:
  "streams_only c c' \<Longrightarrow> cn_state c' = cn_state c \<and> cn_addr c' = cn_addr c \<and> cn_bytes_sent c' = cn_bytes_sent c
     \<and> cn_bytes_received c' = cn_bytes_received c \<and> cn_next_packet_number c' = cn_next_packet_number c
     \<and> cn_unacked_packets c' = cn_unacked_packets c \<and> cn_bytes_in_flight c' = cn_bytes_in_flight c
     \<and> cn_local_max_streams c' = cn_local_max_streams c \<and> cn_crypto c' = cn_crypto c
     \<and> cn_scid c' = cn_scid c \<and> cn_dcid c' = cn_dcid c"
  by (auto simp: streams_only_def)

lemma same_traffic:
  assumes "ac_is_client a' = ac_is_client a" and "ac_wire a' = ac_wire a"
    and "cn_bytes_sent (ac_state a') = cn_bytes_sent (ac_state a)"
    and "cn_bytes_received (ac_state a) \<le> cn_bytes_received (ac_state a')"
    and "cn_state (ac_state a') = Handshaking \<Longrightarrow> cn_state (ac_state a) = Handshaking"
  shows "keeps amplification_ok a a'"
  using assms by (auto simp: keeps_def amplification_ok_def wire_bytes_def)

lemma streams_only_traffic: "streams_only (ac_state a) c \<Longrightarrow> keeps amplification_ok a (a\<lparr>ac_state := c\<rparr>)"
  by (rule same_traffic) (auto dest: streams_only_sel)

text \<open>Whether the actor is a client and the id it is routed by never change.\<close>

definition same_role :: "actor \<Rightarrow> actor \<Rightarrow> bool" where
  "same_role a a' \<longleftrightarrow> ac_is_client a' = ac_is_client a \<and> ac_scid a' = ac_scid a"

lemma role_progress: "progress same_role"
  by unfold_locales (auto simp: same_role_def)

interpretation role_senders: bystander same_role
  by (intro bystander.intro role_progress bystander_axioms.intro)
     (auto simp: same_role_def unseen_def moves_def sendmsg_vectored_def amplification_limit_reached_def awith_def abind_def athen_def
    try_send_to_def on_conn_def amodify_def areturn_def aerr_def Let_def split: option.split)

interpretation role: running same_role "\<lambda>_. True"
  by (intro running.intro receiving.intro sending.intro role_progress sending_axioms.intro receiving_axioms.intro
    running_axioms.intro role_senders.senders_move)
     (auto simp: same_role_def inert_def handle_path_response_def establish_def open_local_stream_def on_conn_def
       moves_def awith_def amodify_def athen_def abind_def areturn_def Let_def)

interpretation amp: running "keeps amplification_ok" "\<lambda>_. True"
proof (intro running.intro receiving.intro sending.intro keeps_progress sending_axioms.intro receiving_axioms.intro
    running_axioms.intro amp_senders.senders_move)
  show "keeps amplification_ok a a'" if "inert a a'" for a a'
    by (rule amp_senders.unseen_step) (rule inert_unseen [OF that])
  show "keeps amplification_ok a (a\<lparr>ac_state := c\<rparr>)" if "settles (ac_state a) c" for a c
    by (rule amp_senders.unseen_step) (rule quiet_unseen [OF settles_quiet [OF that]])
  show "keeps amplification_ok a (a\<lparr>ac_state := c\<rparr>)" if "restreams (en_config en) (ac_is_client a) (ac_state a) c" for en a c
    by (rule streams_only_traffic) (rule restreams_streams_only [OF that])
  show "moves (keeps amplification_ok) (handle_path_response data addr)" for data addr
    unfolding handle_path_response_def by (rule amp_senders.modify_moves, rule same_traffic) (auto split: if_splits)
  show "moves (keeps amplification_ok) (open_local_stream en st)" for en st
    unfolding open_local_stream_def on_conn_def Let_def
    by (intro amp_senders.combine same_traffic) (simp_all add: stream_insert_def)
qed (auto intro!: same_traffic simp: establish_def adopt_context_def adopt_parameters_def mark_processed_def Let_def
  outcome_Ok_iffs split: if_splits option.splits)

lemma reaches_mono: "reaches P l l' \<Longrightarrow> (\<And>en. P en \<Longrightarrow> Q en) \<Longrightarrow> reaches Q l l'"
  by (induction rule: reaches.induct) (auto intro: reaches.intros)

lemma reaches_any: "reaches P l l' \<Longrightarrow> reaches (\<lambda>_. True) l l'"
  by (rule reaches_mono) simp_all

section \<open>Examples\<close>

definition example_env :: "nat \<Rightarrow> env" where
  "example_env now =
     \<lparr>en_config = default_config, en_alpn = [7], en_peer_key_verifier = None, en_crypto = plain_lib,
      en_f64 = \<lparr>fl_powi = \<lambda>x n. x, fl_cbrt = \<lambda>x. x\<rparr>, en_sha256 = (\<lambda>bs. take 32 (bs @ replicate 32 0)),
      en_sign = (\<lambda>k m. replicate 64 0), en_valid_key = (\<lambda>k. True), en_verify = (\<lambda>k m s. True),
      en_diffie_hellman = (\<lambda>k p. replicate 32 0), en_now = now, en_try_send = (\<lambda>n. None),
      en_try_reserve = (\<lambda>n. True), en_try_deliver = (\<lambda>n. True), en_random = (\<lambda>n. replicate 8 5)\<rparr>"

definition example_addr :: socket_addr where
  "example_addr = SocketAddr (V4 [127, 0, 0, 1]) 443"

definition example_server :: actor where
  "example_server = actor_new (connection_new example_addr [2] [1] default_config) [9] None None [9] None False [2] False"

lemmas example_defs = example_env_def example_addr_def example_server_def actor_new_def connection_new_def default_config_def Let_def

section \<open>Properties\<close>

text \<open>
  C3: the amplification limit.  Whatever packets arrive, whatever the application asks for, whichever
  timers fire and however the socket answers: while the connection of a server is in the handshaking state,
  which it leaves when a packet proves the client's address or when it is closed, the bytes its actor has put
  on the wire are at most three times the bytes received, counting at least one byte as received.
\<close>

theorem amplification_limited:
  assumes "\<not> ac_is_client a" and "ac_wire a = []" and "cn_bytes_sent (ac_state a) = 0"
    and "reaches (\<lambda>_. True) (loop_start en a) l" and "cn_state (conn l) = Handshaking"
  shows "sum_list (map (length \<circ> snd) (ac_wire (el_actor l))) \<le> 3 * max (cn_bytes_received (conn l)) 1"
proof -
  have "amplification_ok a" using assms(2,3) by (simp add: amplification_ok_def wire_bytes_def)
  moreover have "keeps amplification_ok a (el_actor (loop_start en a))" by (rule amp.start_respects) simp
  moreover have "keeps amplification_ok (el_actor (loop_start en a)) (el_actor l)" by (rule amp.run_respects [OF assms(4)])
  ultimately have "amplification_ok (el_actor l)" by (simp add: keeps_def)
  moreover have "ac_is_client (el_actor l) = ac_is_client a"
    using role.start_respects [of a en] role.run_respects [OF assms(4)] by (simp add: same_role_def)
  ultimately show ?thesis using assms(1,5) by (simp add: amplification_ok_def wire_bytes_def)
qed

theorem amplification_limited_witness:
  "\<exists>l. reaches (\<lambda>_. True) (loop_start (example_env 0) example_server) l
     \<and> cn_handshake_packet (conn l) = Some [1, 2, 3]
     \<and> sum_list (map (length \<circ> snd) (ac_wire (el_actor l))) \<le> 3 * max (cn_bytes_received (conn l)) 1"
proof -
  let ?start = "loop_start (example_env 0) example_server"
  let ?l = "loop_turn (example_env 5) (Message (SetHandshakePacket [1, 2, 3])) ?start"
  have s: "\<not> ac_is_client example_server" "ac_wire example_server = []" "cn_bytes_sent (ac_state example_server) = 0"
    by (simp_all add: example_defs)
  have l0: "el_actor ?start = example_server" "el_running ?start" by (simp_all add: loop_start_def example_defs)
  have st: "cn_state (ac_state example_server) = Handshaking" by (simp add: example_defs)
  have c: "cn_state (conn ?l) = Handshaking" "cn_handshake_packet (conn ?l) = Some [1, 2, 3]"
    using st by (simp_all add: loop_turn_def l0 handle_event_def handle_message_def run_simps set_idle_def on_actor_def
      on_conn_def end_turn_def Let_def)
  have r: "reaches (\<lambda>_. True) ?start ?l"
    by (rule reaches.turn [OF reaches.here l0(2)]) simp_all
  show ?thesis using amplification_limited [OF s r c(1)] r c(2) by blast
qed

end
