(* ===== verification/Zt_Limits.thy ===== *)
theory Zt_Limits
  imports Zt_Runs
begin

text \<open>
  What a peer can make a connection hold.  The receive buffers of all streams stay within the configured
  total and the streams the peer has opened within the announced number, through every run of the actor.
\<close>

section \<open>Sizes of receive buffers\<close>

definition sized :: "nat \<Rightarrow> stream_receive_buffer \<Rightarrow> bool" where
  "sized window b \<longleftrightarrow> sb_capacity b = window \<and> (allocated_size b = 0 \<or> allocated_size b = window)"

lemma copy_ring_length: "copy_ring cap buffer i data = Ok buffer' \<Longrightarrow> length buffer' = length buffer"
proof (induction cap buffer i data arbitrary: buffer' rule: copy_ring.induct)
  case (1 cap buffer i data)
  let ?n = "min (length data) (cap - i)"
  show ?case
  proof (cases "data = [] \<or> ?n = 0")
    case True
    with "1.prems" copy_ring.simps [of cap buffer i data] show ?thesis by (auto simp: Let_def split: if_splits)
  next
    case False
    then obtain mid where m: "copy_into buffer i (take ?n data) = Ok mid" "copy_ring cap mid 0 (drop ?n data) = Ok buffer'"
      using "1.prems" copy_ring.simps [of cap buffer i data] by (auto simp: Let_def split: outcome.splits if_splits)
    with False show ?thesis using "1.IH" [OF _ refl _ m] length_copy_into [OF m(1)] by simp
  qed
qed

lemma buffer_write_sized:
  assumes "buffer_write offset data b = Ok (b', r)" and "sized window b"
  shows "sized window b' \<and> (allocated_size b \<noteq> 0 \<longrightarrow> allocated_size b' = allocated_size b)"
  using assms
  by (auto simp: buffer_write_def sized_def allocated_size_def Let_def outcome_Ok_iffs case_prod_beta
    split: option.splits if_splits dest!: copy_ring_length)

lemma store_segment_sized:
  assumes "store_segment offset data b = Ok (b', r)" and "sized window b"
  shows "sized window b' \<and> (allocated_size b \<noteq> 0 \<longrightarrow> allocated_size b' = allocated_size b)"
  using assms buffer_write_sized
  by (auto simp: store_segment_def Let_def split: option.splits if_splits)

lemma read_contiguous_sized:
  "read_contiguous b = Ok (b', r) \<Longrightarrow> sb_capacity b' = sb_capacity b \<and> allocated_size b' = allocated_size b"
  by (auto simp: read_contiguous_def allocated_size_def Let_def outcome_Ok_iffs split: list.splits if_splits)

lemma Ok_obindE: "obind m f = Ok x \<Longrightarrow> (\<And>y. m = Ok y \<Longrightarrow> f y = Ok x \<Longrightarrow> P) \<Longrightarrow> P"
  by (auto simp: obind_eq_Ok)

lemma resize_shape:
  assumes "resize window b = Ok b'"
  shows "sb_capacity b' = window \<and> (b' = b \<or> sb_buffer b = [] \<and> sb_buffer b' = []
     \<or> sb_buffer b \<noteq> [] \<and> length (sb_buffer b') = window)"
proof (cases "window = sb_capacity b \<or> sb_buffer b = []")
  case True
  with assms have "b' = (if window = sb_capacity b then b else b\<lparr>sb_capacity := window\<rparr>)"
    by (elim disjE) (simp_all add: resize_def split: if_split_asm)
  with True show ?thesis by auto
next
  case False
  have "length (sb_buffer b') = window" "sb_capacity b' = window"
    using assms False unfolding resize_def Let_def
    by (auto elim!: Ok_obindE split: if_split_asm dest!: length_copy_into)
  with False show ?thesis by simp
qed

lemma resize_sized:
  assumes "resize window' b = Ok b'" and "sized window b" and "window \<le> window'"
  shows "sized window' b' \<and> allocated_size b' \<le> allocated_size b + (window' - window)"
  using resize_shape [OF assms(1)] assms(2,3) by (auto simp: sized_def allocated_size_def)

definition stream_sized :: "stream_state \<Rightarrow> bool" where
  "stream_sized s \<longleftrightarrow> sized (ss_window_size s) (ss_receive_buffer s)"

definition memory :: "stream_state \<Rightarrow> nat" where
  "memory s = allocated_size (ss_receive_buffer s)"

lemma forward_chunks_sized:
  "forward_chunks tr calls s = Ok (s', calls') \<Longrightarrow> ss_window_size s' = ss_window_size s
     \<and> sb_capacity (ss_receive_buffer s') = sb_capacity (ss_receive_buffer s) \<and> memory s' = memory s"
proof (induction tr calls s rule: forward_chunks.induct)
  case (1 tr calls s)
  show ?case
  proof (cases "ss_app_tx s \<and> tr calls \<and> (\<exists>b chunk. read_contiguous (ss_receive_buffer s) = Ok (b, Some chunk))")
    case True
    then obtain b chunk where r: "ss_app_tx s" "tr calls" "read_contiguous (ss_receive_buffer s) = Ok (b, Some chunk)" by blast
    let ?s = "s\<lparr>ss_receive_buffer := b, ss_delivered := ss_delivered s @ [chunk]\<rparr>"
    have "forward_chunks tr (calls + 1) ?s = Ok (s', calls')"
      using "1.prems" r by (subst (asm) forward_chunks.simps) simp
    then show ?thesis using "1.IH" [of "(b, Some chunk)" b "Some chunk" chunk] r read_contiguous_sized [OF r(3)]
      by (simp add: memory_def)
  next
    case False
    with "1.prems" show ?thesis
      by (subst (asm) forward_chunks.simps)
         (auto simp: memory_def split: if_splits outcome.splits option.splits dest!: read_contiguous_sized)
  qed
qed

lemma tune_window_keeps:
  "tune_window config now rtt n s = Ok (s', x) \<Longrightarrow>
     ss_window_size s' = ss_window_size s \<and> ss_receive_buffer s' = ss_receive_buffer s"
  by (auto simp: tune_window_def Let_def obind_eq_Ok split: if_splits)

lemma forward_step_sized:
  assumes "forward_step config now tr calls rtt n s = Ok (s', x)" and "stream_sized s"
  shows "stream_sized s' \<and> memory s' = memory s"
proof -
  obtain mid k y where f: "forward_chunks tr calls (consume_read n s) = Ok (mid, k)"
    and t: "tune_window config now rtt n (close_if_complete mid) = Ok (s', y)"
    using assms(1) by (auto simp: forward_step_def obind_eq_Ok)
  have "ss_window_size s' = ss_window_size mid" "ss_receive_buffer s' = ss_receive_buffer mid"
    using tune_window_keeps [OF t] by (simp_all add: close_if_complete_def split: option.splits)
  then show ?thesis
    using forward_chunks_sized [OF f] assms(2) by (simp add: stream_sized_def sized_def memory_def consume_read_def)
qed

section \<open>All streams of a connection\<close>

definition receive_memory :: "zt_connection \<Rightarrow> nat" where
  "receive_memory c = sum_list (map (memory \<circ> snd) (cn_streams c))"

definition streams_sized :: "zt_connection \<Rightarrow> bool" where
  "streams_sized c \<longleftrightarrow> (\<forall>s\<in>snd ` set (cn_streams c). stream_sized s)"

lemma foldl_saturating: "x \<le> u64_max \<Longrightarrow> foldl saturating_add64 x xs = min (x + sum_list xs) u64_max"
  by (induction xs arbitrary: x) (auto simp: saturating_add64_def)

lemma total_allocated: "total_allocated_buffer_size c = min (receive_memory c) u64_max"
  by (simp add: total_allocated_buffer_size_def foldl_saturating receive_memory_def memory_def comp_def)

lemma room_for:
  "saturating_add64 (total_allocated_buffer_size c) n \<le> limit \<Longrightarrow> limit < u64_max \<Longrightarrow> receive_memory c + n \<le> limit"
  by (auto simp: saturating_add64_def total_allocated)

lemma stream_get_update: "stream_get sid (stream_update sid f c) = map_option f (stream_get sid c)"
  by (simp add: stream_get_def stream_update_def map_of_map_entry split: option.split)

lemma memory_update:
  "stream_get sid c = Some s \<Longrightarrow> receive_memory (stream_update sid f c) + memory s = receive_memory c + memory (f s)"
proof -
  have "map_of xs sid = Some s \<Longrightarrow>
      sum_list (map (memory \<circ> snd) (AList.map_entry sid f xs)) + memory s = sum_list (map (memory \<circ> snd) xs) + memory (f s)" for xs
    by (induction xs) (auto split: if_splits)
  then show "stream_get sid c = Some s \<Longrightarrow> ?thesis"
    by (simp add: receive_memory_def stream_get_def stream_update_def)
qed

lemma set_map_entry:
  "x \<in> set (AList.map_entry k f xs) \<Longrightarrow> x \<in> set xs \<or> (\<exists>v. map_of xs k = Some v \<and> x = (k, f v))"
  by (induction xs) (auto split: if_split_asm)

lemma sized_get: "streams_sized c \<Longrightarrow> stream_get sid c = Some s \<Longrightarrow> stream_sized s"
  by (force simp: streams_sized_def stream_get_def dest: map_of_SomeD)

lemma sized_update:
  "streams_sized c \<Longrightarrow> (\<And>s. stream_get sid c = Some s \<Longrightarrow> stream_sized (f s)) \<Longrightarrow> streams_sized (stream_update sid f c)"
  by (auto simp: streams_sized_def stream_get_def stream_update_def dest!: set_map_entry)

lemma insert_new:
  assumes "streams_sized c"
  shows "streams_sized (stream_insert sid (stream_new st w tx now) c)"
    and "receive_memory (stream_insert sid (stream_new st w tx now) c) \<le> receive_memory c"
proof -
  let ?n = "stream_new st w tx now"
  have n: "stream_sized ?n" "memory ?n = 0" by (simp_all add: stream_new_def stream_sized_def sized_def buffer_new_def allocated_size_def memory_def)
  have "(\<forall>s\<in>snd ` set xs. stream_sized s) \<Longrightarrow> (\<forall>s\<in>snd ` set (AList.update sid ?n xs). stream_sized s)" for xs
    by (induction xs) (auto simp: n)
  then show "streams_sized (stream_insert sid ?n c)" using assms by (simp add: streams_sized_def stream_insert_def)
  have "sum_list (map (memory \<circ> snd) (AList.update sid ?n xs)) \<le> sum_list (map (memory \<circ> snd) xs)" for xs
    by (induction xs) (auto simp: n)
  then show "receive_memory (stream_insert sid ?n c) \<le> receive_memory c" by (simp add: receive_memory_def stream_insert_def)
qed

lemma remove_sized:
  "streams_sized c \<Longrightarrow> streams_sized (stream_remove sid c)" "receive_memory (stream_remove sid c) \<le> receive_memory c"
proof -
  show "streams_sized c \<Longrightarrow> streams_sized (stream_remove sid c)"
    by (auto simp: streams_sized_def stream_remove_def AList.delete_eq)
  have "sum_list (map (memory \<circ> snd) (AList.delete sid xs)) \<le> sum_list (map (memory \<circ> snd) xs)" for xs
    by (induction xs) auto
  then show "receive_memory (stream_remove sid c) \<le> receive_memory c" by (simp add: receive_memory_def stream_remove_def)
qed

section \<open>The limits and the methods on streams\<close>

definition memory_ok :: "zt_config \<Rightarrow> zt_connection \<Rightarrow> bool" where
  "memory_ok config c \<longleftrightarrow> streams_sized c \<and> receive_memory c \<le> cfg_max_connection_buffer config"

lemma deliver_memory:
  assumes "deliver_stream config now tr calls sid n c = Ok (c', r)" and "memory_ok limits c"
  shows "memory_ok limits c'"
proof (cases "stream_get sid c")
  case (Some s)
  then obtain s' x where f: "forward_step config now tr calls (cn_rtt c) (min n (ss_buffered_bytes s)) s = Ok (s', x)"
    and c': "c' = stream_update sid (\<lambda>_. s') c"
    using assms(1) by (auto simp: deliver_stream_def Let_def obind_eq_Ok)
  have "stream_sized s" using assms(2) Some by (auto simp: memory_ok_def intro: sized_get)
  note s' = forward_step_sized [OF f this]
  then show ?thesis
    using assms(2) memory_update [OF Some, of "\<lambda>_. s'"] by (auto simp: memory_ok_def c' intro: sized_update)
qed (use assms in \<open>simp add: deliver_stream_def\<close>)

lemma grow_memory:
  assumes "scale_up_stream config sid w c = Ok (c', u)" and "memory_ok config c"
    and "cfg_max_connection_buffer config < u64_max"
  shows "memory_ok config c'"
proof (cases "c' = c")
  case False
  then obtain s b where g: "stream_get sid c = Some s" and r: "resize w (ss_receive_buffer s) = Ok b"
    and room: "saturating_add64 (total_allocated_buffer_size c) (w - ss_window_size s) \<le> cfg_max_connection_buffer config"
    and c': "c' = stream_update sid (\<lambda>s. s\<lparr>ss_receive_buffer := b, ss_window_size := w\<rparr>) c"
    using assms(1) by (auto simp: scale_up_stream_def Let_def obind_eq_Ok split: option.splits if_splits)
  have s: "stream_sized s" using assms(2) g by (auto simp: memory_ok_def intro: sized_get)
  have "sized w b \<and> allocated_size b \<le> allocated_size (ss_receive_buffer s) + (w - ss_window_size s)"
    using resize_shape [OF r] s by (auto simp: sized_def stream_sized_def allocated_size_def)
  then show ?thesis
    using room_for [OF room assms(3)] memory_update [OF g, of "\<lambda>s. s\<lparr>ss_receive_buffer := b, ss_window_size := w\<rparr>"] assms(2)
    by (auto simp: memory_ok_def c' memory_def stream_sized_def intro!: sized_update)
qed (use assms in simp)

lemma accept_memory:
  assumes "accept_segment config sid offset data c = Ok (c', v)" and "memory_ok config c"
    and "cfg_max_connection_buffer config < u64_max"
  shows "memory_ok config c'"
  using assms(1)
proof (cases rule: accept_segment_cases)
  case (noted s)
  then show ?thesis
    using assms(2) memory_update [OF noted(1), of "\<lambda>s. s\<lparr>ss_highest_rx_offset := max (ss_highest_rx_offset s) (offset + length data)\<rparr>"]
    by (auto simp: memory_ok_def memory_def stream_sized_def intro!: sized_update dest: sized_get)
next
  case (stored s b n)
  let ?f = "\<lambda>s. s\<lparr>ss_highest_rx_offset := max (ss_highest_rx_offset s) (offset + length data)\<rparr>"
  let ?g = "\<lambda>s. s\<lparr>ss_receive_buffer := b, ss_buffered_bytes := saturating_add64 (ss_buffered_bytes s) n\<rparr>"
  have s: "stream_sized s" using assms(2) stored(1) by (auto simp: memory_ok_def intro: sized_get)
  have b: "sized (ss_window_size s) b" "memory s \<noteq> 0 \<Longrightarrow> allocated_size b = memory s"
    using store_segment_sized [OF stored(7)] s by (auto simp: stream_sized_def memory_def)
  have g: "stream_get sid (stream_update sid ?f c) = Some (?f s)" by (simp add: stream_get_update stored(1))
  have "receive_memory c' + memory s = receive_memory c + allocated_size b"
    using memory_update [OF stored(1), of ?f] memory_update [OF g, of ?g] stored(8) by (simp add: memory_def)
  moreover have "memory s = 0 \<Longrightarrow> receive_memory c + ss_window_size s \<le> cfg_max_connection_buffer config"
    using stored(3) assms(3) by (intro room_for) (simp_all add: memory_def)
  moreover have "allocated_size b \<le> ss_window_size s" using b(1) by (auto simp: sized_def)
  ultimately have "receive_memory c' \<le> cfg_max_connection_buffer config"
    using assms(2) b(2) by (cases "memory s = 0") (auto simp: memory_ok_def)
  moreover have "streams_sized (stream_update sid ?f c)"
    using assms(2) by (auto simp: memory_ok_def stream_sized_def intro!: sized_update dest: sized_get)
  then have "streams_sized c'"
    unfolding stored(8) by (rule sized_update) (use b(1) g in \<open>auto simp: stream_sized_def\<close>)
  ultimately show ?thesis by (simp add: memory_ok_def)
qed (use assms in simp)

lemma restreams_memory:
  assumes "restreams config is_client c c'" and "memory_ok config c" and "cfg_max_connection_buffer config < u64_max"
  shows "memory_ok config c'"
  using assms
proof cases
  case (admit now sid st adm)
  then show ?thesis
    using assms(2) insert_new by (fastforce simp: admit_stream_def memory_ok_def Let_def split: if_splits intro: order_trans)
next
  case (remove sid)
  then show ?thesis using assms(2) remove_sized(1) [of c sid] remove_sized(2) [of sid c] by (simp add: memory_ok_def)
qed (auto intro: deliver_memory grow_memory accept_memory assms)

section \<open>Streams opened by the peer\<close>

definition peer_streams_ok :: "bool \<Rightarrow> zt_connection \<Rightarrow> bool" where
  "peer_streams_ok is_client c \<longleftrightarrow> length (peer_stream_ids is_client c) \<le> cn_local_max_streams c"

lemma peer_ids_same_keys:
  "map fst (cn_streams c') = map fst (cn_streams c) \<Longrightarrow> peer_stream_ids is_client c' = peer_stream_ids is_client c"
  by (simp add: peer_stream_ids_def)

lemma keys_map_entry: "map fst (AList.map_entry k f xs) = map fst xs"
  by (induction xs) auto

lemma peer_ids_update: "peer_stream_ids is_client (stream_update sid f c) = peer_stream_ids is_client c"
  by (rule peer_ids_same_keys) (simp add: stream_update_def keys_map_entry)

lemma length_filter_keys_update: "length (filter P (map fst (AList.update k v xs))) \<le> length (filter P (map fst xs)) + (if P k then 1 else 0)"
  by (induction xs) auto

lemma peer_ids_insert:
  "length (peer_stream_ids is_client (stream_insert sid s c)) \<le> length (peer_stream_ids is_client c)
     + (if unat sid mod 2 = (if is_client then 1 else 0) then 1 else 0)"
  using length_filter_keys_update [of "\<lambda>k. unat k mod 2 = (if is_client then 1 else 0)" sid s "cn_streams c"]
  by (simp add: peer_stream_ids_def stream_insert_def)

lemma peer_ids_remove: "length (peer_stream_ids is_client (stream_remove sid c)) \<le> length (peer_stream_ids is_client c)"
proof -
  have "length (filter P (map fst (AList.delete sid xs))) \<le> length (filter P (map fst xs))" for P and xs :: "(u32 \<times> stream_state) list"
    by (induction xs) auto
  then show ?thesis by (simp add: peer_stream_ids_def stream_remove_def)
qed

lemma restreams_peer_streams:
  assumes "restreams config is_client c c'" and "peer_streams_ok is_client c"
  shows "peer_streams_ok is_client c'"
  using assms(1)
proof cases
  case (deliver now tr calls sid n r)
  then have "peer_stream_ids is_client c' = peer_stream_ids is_client c"
    by (auto simp: deliver_stream_def Let_def obind_eq_Ok peer_ids_update split: option.splits)
  then show ?thesis using assms streams_only_sel [OF restreams_streams_only] by (simp add: peer_streams_ok_def)
next
  case (grow sid w u)
  then have "peer_stream_ids is_client c' = peer_stream_ids is_client c"
    by (auto simp: scale_up_stream_def Let_def obind_eq_Ok peer_ids_update split: option.splits if_splits)
  then show ?thesis using assms streams_only_sel [OF restreams_streams_only] by (simp add: peer_streams_ok_def)
next
  case (accept sid offset data v)
  then have "peer_stream_ids is_client c' = peer_stream_ids is_client c"
    by (elim accept_segment_cases) (simp_all add: peer_ids_update)
  then show ?thesis using assms streams_only_sel [OF restreams_streams_only] by (simp add: peer_streams_ok_def)
next
  case (admit now sid st adm)
  then show ?thesis
    using assms(2) peer_ids_insert [of is_client sid "stream_new st (cfg_initial_stream_window config) (cn_peer_initial_stream_window c) now" c]
    by (auto simp: admit_stream_def peer_streams_ok_def Let_def stream_insert_def split: if_splits)
next
  case (remove sid)
  then show ?thesis
    using assms(2) peer_ids_remove [of is_client sid c] by (simp add: peer_streams_ok_def stream_remove_def)
qed

section \<open>Every run\<close>

text \<open>The ids of streams the actor opens itself have the other parity than those of its peer.\<close>

definition bounded :: "zt_config \<Rightarrow> actor \<Rightarrow> bool" where
  "bounded config a \<longleftrightarrow> cfg_max_connection_buffer config < u64_max \<and> memory_ok config (ac_state a)
     \<and> peer_streams_ok (ac_is_client a) (ac_state a)
     \<and> cn_local_max_streams (ac_state a) = cfg_max_concurrent_streams config
     \<and> ac_next_stream_id a mod 2 = (if ac_is_client a then 0 else 1)"

lemma memory_view:
  "streams_view c' = streams_view c \<Longrightarrow> memory_ok config c' = memory_ok config c"
  "streams_view c' = streams_view c \<Longrightarrow> peer_stream_ids is_client c' = peer_stream_ids is_client c"
proof -
  assume v: "streams_view c' = streams_view c"
  have m: "receive_memory d = sum_list (map (allocated_size \<circ> fst \<circ> snd) (streams_view d))" for d
    by (simp add: receive_memory_def memory_def streams_view_def stream_view_def comp_def)
  have "streams_sized d \<longleftrightarrow> (\<forall>(sid, b, w, n)\<in>set (streams_view d). sized w b)" for d
    by (auto simp: streams_sized_def stream_sized_def streams_view_def stream_view_def)
  with m v show "memory_ok config c' = memory_ok config c" by (simp add: memory_ok_def)
  have "map fst (cn_streams d) = map fst (streams_view d)" for d
    by (simp add: streams_view_def comp_def)
  with v show "peer_stream_ids is_client c' = peer_stream_ids is_client c" by (simp add: peer_stream_ids_def)
qed

lemma same_view_bounded:
  assumes "streams_view (ac_state a') = streams_view (ac_state a)" and "cn_local_max_streams (ac_state a') = cn_local_max_streams (ac_state a)"
    and "ac_is_client a' = ac_is_client a" and "ac_next_stream_id a' = ac_next_stream_id a"
  shows "keeps (bounded config) a a'"
  using assms(2-4) memory_view [OF assms(1)] by (simp add: keeps_def bounded_def peer_streams_ok_def)

lemma sendmsg_bounded: "moves (keeps (bounded config)) (sendmsg_vectored en data)"
  unfolding moves_def
  by (auto intro!: same_view_bounded simp: sendmsg_vectored_def amplification_limit_reached_def awith_def abind_def athen_def
    try_send_to_def on_conn_def amodify_def areturn_def aerr_def Let_def streams_view_def split: option.split)

interpretation bounded_senders: bystander "keeps (bounded config)" for config
  by (intro bystander.intro keeps_progress bystander_axioms.intro sendmsg_bounded) (simp add: same_view_bounded unseen_def)

lemma own_id_parity: "unat (of_nat n :: u32) mod 2 = n mod 2"
  by (simp add: unat_of_nat mod_mod_cancel)

lemma open_local_bounded: "moves (keeps (bounded config)) (open_local_stream en st)"
  unfolding moves_def
proof
  fix a :: actor
  let ?sid = "of_nat (ac_next_stream_id a) :: u32"
  let ?s = "stream_new st (cfg_initial_stream_window (en_config en)) (cn_peer_initial_stream_window (ac_state a)) (en_now en)"
  have "fst (open_local_stream en st a)
      = a\<lparr>ac_next_stream_id := ac_next_stream_id a + 2, ac_state := stream_insert ?sid ?s (ac_state a)\<rparr>"
    by (simp add: open_local_stream_def run_simps on_conn_def Let_def)
  then show "keeps (bounded config) a (fst (open_local_stream en st a))"
    using insert_new [of "ac_state a" ?sid st "cfg_initial_stream_window (en_config en)"
        "cn_peer_initial_stream_window (ac_state a)" "en_now en"] peer_ids_insert [of "ac_is_client a" ?sid ?s "ac_state a"]
    by (auto simp: keeps_def bounded_def memory_ok_def peer_streams_ok_def own_id_parity stream_insert_def intro: order_trans split: if_splits)
qed

interpretation limited: running "keeps (bounded config)" "\<lambda>en. en_config en = config" for config
proof (intro running.intro receiving.intro sending.intro keeps_progress sending_axioms.intro receiving_axioms.intro
    running_axioms.intro bounded_senders.senders_move open_local_bounded)
  let ?R = "keeps (bounded config)"
  show "?R a a'" if "inert a a'" for a a'
    by (rule bounded_senders.unseen_step, rule inert_unseen [OF that])
  show "?R a (a\<lparr>ac_state := c\<rparr>)" if "settles (ac_state a) c" for a c
    by (rule bounded_senders.unseen_step, rule quiet_unseen [OF settles_quiet [OF that]])
  show "?R a (a\<lparr>ac_state := c\<rparr>)" if "en_config en = config" "restreams (en_config en) (ac_is_client a) (ac_state a) c" for en a c
    using that restreams_memory [OF that(2)] restreams_peer_streams [OF that(2)] streams_only_sel [OF restreams_streams_only [OF that(2)]] by (auto simp: keeps_def bounded_def)
  show "moves ?R (handle_path_response data addr)" for data addr
    unfolding handle_path_response_def
    by (rule bounded_senders.modify_moves, rule same_view_bounded) (auto simp: streams_view_def)
qed (auto intro!: same_view_bounded simp: establish_def adopt_context_def adopt_parameters_def mark_processed_def Let_def
  streams_view_def outcome_Ok_iffs split: if_splits option.splits)

section \<open>Properties\<close>

text \<open>
  C9: a peer cannot make a connection hold more than was agreed.  In every run of an actor, whatever packets
  arrive and however the streams are used, the receive buffers of all streams together never take more than
  the configured buffer of the connection, and the streams the peer has opened are never more than the
  configured number.
\<close>

theorem peer_cannot_exhaust_memory:
  assumes "cn_streams (ac_state a) = []" and "cn_local_max_streams (ac_state a) = cfg_max_concurrent_streams config"
    and "ac_next_stream_id a = (if ac_is_client a then 2 else 1)"
    and "cfg_max_connection_buffer config < u64_max" and "en_config en = config"
    and "reaches (\<lambda>en. en_config en = config) (loop_start en a) l"
  shows "sum_list (map (allocated_size \<circ> ss_receive_buffer \<circ> snd) (cn_streams (conn l))) \<le> cfg_max_connection_buffer config
    \<and> length (peer_stream_ids (ac_is_client a) (conn l)) \<le> cfg_max_concurrent_streams config"
proof -
  have "bounded config a"
    using assms(1-4) by (auto simp: bounded_def memory_ok_def streams_sized_def receive_memory_def peer_streams_ok_def peer_stream_ids_def)
  then have "bounded config (el_actor l)"
    using limited.start_respects [OF assms(5), of a] limited.run_respects [OF assms(6)] by (simp add: keeps_def)
  moreover have "ac_is_client (el_actor l) = ac_is_client a"
    using role.start_respects [of a en] role.run_respects [OF reaches_any [OF assms(6)]] by (simp add: same_role_def)
  ultimately show ?thesis
    by (simp add: bounded_def memory_ok_def receive_memory_def memory_def [abs_def] comp_def peer_streams_ok_def)
qed

theorem peer_cannot_exhaust_memory_witness:
  "\<exists>l. map fst (cn_streams (conn l)) = [1]
     \<and> sum_list (map (allocated_size \<circ> ss_receive_buffer \<circ> snd) (cn_streams (conn l))) \<le> cfg_max_connection_buffer default_config
     \<and> length (peer_stream_ids False (conn l)) \<le> cfg_max_concurrent_streams default_config"
proof -
  let ?start = "loop_start (example_env 0) example_server"
  let ?l = "loop_turn (example_env 5) (Message (OpenStream Bidirectional)) ?start"
  have s: "cn_streams (ac_state example_server) = []" "cn_local_max_streams (ac_state example_server) = cfg_max_concurrent_streams default_config"
    "ac_next_stream_id example_server = 1" "\<not> ac_is_client example_server" "cn_state (ac_state example_server) \<noteq> Closed"
    "0 < cn_peer_max_streams (ac_state example_server)"
    by (simp_all add: example_defs default_config_def)
  have cfg: "en_config (example_env t) = default_config" "cfg_max_connection_buffer default_config < u64_max" for t
    by (simp_all add: example_env_def default_config_def)
  have l0: "el_actor ?start = example_server" "el_running ?start" by (simp_all add: loop_start_def example_defs)
  have c: "map fst (cn_streams (conn ?l)) = [1]"
    using s by (simp add: loop_turn_def l0 handle_event_def handle_message_def open_stream_def open_local_stream_def run_simps set_idle_def
      on_actor_def on_conn_def reply_def stream_insert_def end_turn_def Let_def)
  have r: "reaches (\<lambda>en. en_config en = default_config) ?start ?l"
    by (rule reaches.turn [OF reaches.here l0(2)]) (simp_all add: cfg)
  from peer_cannot_exhaust_memory [OF s(1,2) _ cfg(2) cfg(1) r] show ?thesis
    using s(3,4) c by (intro exI [of _ ?l]) simp
qed

end
