(* ===== verification/Zt_Seal.thy ===== *)
theory Zt_Seal
  imports Zt_Runs
begin

text \<open>
  A sealed packet on its way from the sender (\<^verbatim>\<open>packet_sender.rs\<close>) through header protection and the
  header decoder to the frame handlers of the receiver (\<^verbatim>\<open>incoming_handler.rs\<close>).
\<close>

section \<open>The layout of a sealed packet\<close>

lemma decoded_first_byte:
  assumes "decode_header (b # src) = Ok (h, rest)"
  shows "ph_pn_len h = unat (b AND 0x03) + 1" and "ph_is_long h \<longleftrightarrow> b AND 0x80 \<noteq> 0"
proof -
  have "ph_pn_len h = unat (b AND 0x03) + 1 \<and> (ph_is_long h \<longleftrightarrow> b AND 0x80 \<noteq> 0)"
  proof (cases "b AND 0x80 = 0")
    case False
    then have "decode_long_header (long_type (drop_bit 2 b AND 0x0F)) (unat (b AND 0x03) + 1) src = Ok (h, rest)"
      using assms by (simp add: decode_header_def get_u8_def)
    from decode_long_layout [OF this False] show ?thesis using False by simp
  next
    case True
    then have "decode_short_header (short_type (drop_bit 2 b AND 0x0F)) (b AND 0x40 \<noteq> 0) (unat (b AND 0x03) + 1) src
        = Ok (h, rest)"
      using assms by (simp add: decode_header_def get_u8_def)
    from decode_short_layout [OF this True] show ?thesis using True by simp
  qed
  then show "ph_pn_len h = unat (b AND 0x03) + 1" and "ph_is_long h \<longleftrightarrow> b AND 0x80 \<noteq> 0" by blast+
qed

lemma encode_header_nonempty: "encode_header h \<noteq> []"
  by (simp add: encode_header_def Let_def)

lemma encoded_layout:
  assumes "wf_header h" and "p = encode_header h @ body"
  shows "get_pn_offset p = Some (length (encode_header h) - ph_pn_len h)"
    and "ph_pn_len h \<le> length (encode_header h)"
    and "extract_dcid_fast p = Some (ph_dcid h)"
    and "unat (p ! 0 AND 0x03) + 1 = ph_pn_len h"
    and "p ! 0 AND 0x80 = 0 \<longleftrightarrow> \<not> ph_is_long h"
proof -
  let ?h = "h\<lparr>ph_packet_number := take_bit (8 * ph_pn_len h) (ph_packet_number h)\<rparr>"
  have d: "decode_header p = Ok (?h, body)" unfolding assms(2) by (rule decode_encode_header [OF assms(1)])
  from decode_header_layout [OF d] obtain off where off: "get_pn_offset p = Some off"
    "off + ph_pn_len h \<le> length p" "body = drop (off + ph_pn_len h) p" and dcid: "extract_dcid_fast p = Some (ph_dcid h)"
    by auto
  have "length body = length p - (off + ph_pn_len h)" using off(3) by simp
  then have len: "off + ph_pn_len h = length (encode_header h)" using off(2) by (simp add: assms(2))
  then show "get_pn_offset p = Some (length (encode_header h) - ph_pn_len h)" "ph_pn_len h \<le> length (encode_header h)"
    using off(1) by auto
  show "extract_dcid_fast p = Some (ph_dcid h)" by (rule dcid)
  have "p \<noteq> []" using assms(2) encode_header_nonempty [of h] by simp
  then obtain b src where p: "p = b # src" by (cases p) auto
  from decoded_first_byte [OF d [unfolded p]]
  show "unat (p ! 0 AND 0x03) + 1 = ph_pn_len h" and "p ! 0 AND 0x80 = 0 \<longleftrightarrow> \<not> ph_is_long h" unfolding p by simp_all
qed

lemma split_encoded:
  assumes "wf_header h"
  shows "split_packet (encode_header h @ body)
    = Ok (h\<lparr>ph_packet_number := take_bit (8 * ph_pn_len h) (ph_packet_number h)\<rparr>, encode_header h, body)"
proof -
  note l = encoded_layout [OF assms, of "encode_header h @ body" body, OF refl]
  have "unat ((encode_header h @ body) ! 0 AND 0x03) = ph_pn_len h - 1" using l(4) by simp
  then show ?thesis
    using l(1,2) assms decode_encode_header [OF assms, of "[]"] by (simp add: split_packet_def Let_def wf_header_def)
qed

text \<open>Sealing, seen from the receiver: with the sender's header key the layout and the sealed bytes come back.\<close>

lemma seal_packetE:
  assumes "wf_header h" and "seal_packet cl crypto pn (encode_header h) payload = Ok packet"
  obtains ciphertext tag off where "encrypt_in_place cl crypto pn (encode_header h) payload = Ok (ciphertext, tag)"
    and "get_pn_offset packet = Some off" and "extract_dcid_fast packet = Some (ph_dcid h)"
    and "packet \<noteq> []" and "packet ! 0 AND 0x80 = 0 \<longleftrightarrow> \<not> ph_is_long h"
    and "remove_header_protection cl packet off (cx_tx_hp_key crypto) = Ok (encode_header h @ ciphertext @ tag)"
    and "apply_header_protection cl (encode_header h @ ciphertext @ tag) off (cx_tx_hp_key crypto) = Ok packet"
proof -
  obtain ciphertext tag where enc: "encrypt_in_place cl crypto pn (encode_header h) payload = Ok (ciphertext, tag)"
    and p: "(case get_pn_offset (encode_header h @ ciphertext @ tag) of None \<Rightarrow> Ok (encode_header h @ ciphertext @ tag)
      | Some off \<Rightarrow> apply_header_protection cl (encode_header h @ ciphertext @ tag) off (cx_tx_hp_key crypto)) = Ok packet"
    using assms(2) by (auto simp: seal_packet_def Let_def obind_eq_Ok)
  let ?p = "encode_header h @ ciphertext @ tag"
  note l = encoded_layout [OF assms(1), of ?p "ciphertext @ tag", OF refl]
  define off where "off = length (encode_header h) - ph_pn_len h"
  have off: "get_pn_offset ?p = Some off" using l(1) off_def by simp
  have ap: "apply_header_protection cl ?p off (cx_tx_hp_key crypto) = Ok packet" using p off by simp
  have "0 < off" using off by (auto simp: get_pn_offset_def Let_def split: if_splits)
  note pr = protected_layout [OF off ap] unprotect_protected [OF \<open>0 < off\<close> ap]
  have "length packet = length ?p" using pr(1) by blast
  then have "packet \<noteq> []" using encode_header_nonempty [of h] by auto
  with pr l show ?thesis by (intro that [OF enc _ _ _ _ _ ap]) auto
qed

section \<open>Both ends of a key schedule\<close>

lemma hp_mirror: "cx_rx_hp_key (context_at cl s (\<not> r) e') = cx_tx_hp_key (context_at cl s r e)"
  by (cases r) (simp_all add: context_at_def derive_hp_keys_def Let_def)

text \<open>What the documentation of the cipher promises about lengths.\<close>

definition aead_lengths :: "crypto_lib \<Rightarrow> bool" where
  "aead_lengths cl \<longleftrightarrow> (\<forall>key nonce aad payload ciphertext tag.
     cl_aead_encrypt cl key nonce aad payload = Some (ciphertext, tag) \<longrightarrow>
     length ciphertext = length payload \<and> length tag = 16)"

lemma encrypted_lengths:
  assumes "aead_lengths cl" and "encrypt_in_place cl crypto pn aad payload = Ok (ciphertext, tag)"
  shows "length ciphertext = length payload \<and> length tag = 16"
  using assms by (auto simp: aead_lengths_def encrypt_in_place_def Let_def ok_or_eq_Ok)

text \<open>
  And about capacity.  With keys and nonces of the right length the cipher seals payloads up to its
  limit, and the key stream of one nonce has \<open>2\<^sup>3\<^sup>2 - 1\<close> blocks of 64 bytes; key derivation gives as many bytes as
  are asked for, up to 255 digests.
\<close>

definition crypto_available :: "crypto_lib \<Rightarrow> bool" where
  "crypto_available cl \<longleftrightarrow>
     (\<forall>key nonce aad payload. length key = 32 \<longrightarrow> length nonce = 12 \<longrightarrow> length aad < two64 \<longrightarrow> length payload \<le> 64 * (2 ^ 32 - 1) \<longrightarrow>
        cl_aead_encrypt cl key nonce aad payload \<noteq> None)
   \<and> (\<forall>key nonce position n. length key = 32 \<longrightarrow> length nonce = 12 \<longrightarrow> position + n \<le> 64 * (2 ^ 32 - 1) \<longrightarrow>
        cl_chacha20 cl key nonce position n \<noteq> None)
   \<and> (\<forall>prk info n. n \<le> 255 * 32 \<longrightarrow> length (cl_hkdf_expand cl prk info n) = n)"

text \<open>
  The first four bytes of the sample in a sealed packet select the block of the key stream that masks its
  header.  All ones select the one block past the end, where the key stream panics.
\<close>

definition sample_counter :: "bytes \<Rightarrow> nat" where
  "sample_counter packet =
     (case get_pn_offset packet of None \<Rightarrow> 0 | Some off \<Rightarrow> from_le32 (take 4 (take 16 (drop (off + 4) packet))))"

definition maskable :: "crypto_lib \<Rightarrow> crypto_context \<Rightarrow> nat \<Rightarrow> bytes \<Rightarrow> bytes \<Rightarrow> bool" where
  "maskable cl crypto pn aad payload \<longleftrightarrow>
     (case encrypt_in_place cl crypto pn aad payload of
        Ok (ciphertext, tag) \<Rightarrow> sample_counter (aad @ ciphertext @ tag) < 2 ^ 32 - 1
      | _ \<Rightarrow> True)"

lemma seal_packet_runs:
  assumes "wf_header h" and "aead_lengths cl" and enc: "encrypt_in_place cl crypto pn (encode_header h) payload = Ok (ct, tag)"
    and "\<And>nonce. length nonce = 12 \<Longrightarrow>
      cl_chacha20 cl (cx_tx_hp_key crypto) nonce (sample_counter (encode_header h @ ct @ tag) * 64) 5 \<noteq> None"
    and "4 \<le> length payload + ph_pn_len h"
  shows "\<exists>packet. seal_packet cl crypto pn (encode_header h) payload = Ok packet"
proof -
  define p where "p = encode_header h @ ct @ tag"
  let ?off = "length (encode_header h) - ph_pn_len h"
  let ?sample = "take 16 (drop (?off + 4) p)"
  note l = encoded_layout [OF assms(1) p_def]
  have len: "?off + 20 \<le> length p" using l(2) encrypted_lengths [OF assms(2) enc] assms(5) by (simp add: p_def)
  then have "length (drop 4 ?sample) = 12" by simp
  from assms(4) [OF this] obtain mask
    where "cl_chacha20 cl (cx_tx_hp_key crypto) (drop 4 ?sample) (from_le32 (take 4 ?sample) * 64) 5 = Some mask"
    using l(1) by (auto simp: sample_counter_def p_def [symmetric])
  then obtain packet where "apply_header_protection cl p ?off (cx_tx_hp_key crypto) = Ok packet"
    using len by (simp add: apply_header_protection_def slice_def Let_def)
  then show ?thesis using enc l(1) by (simp add: seal_packet_def p_def Let_def)
qed

lemma context_at_lengths:
  assumes "crypto_available cl"
  shows "length (cx_tx_cipher (context_at cl s r e)) = 32" "length (cx_tx_iv (context_at cl s r e)) = 12"
    "length (cx_tx_hp_key (context_at cl s r e)) = 32"
proof -
  have "length (cl_hkdf_expand cl prk info n) = n" if "n \<le> 255 * 32" for prk info n
    using assms that by (simp add: crypto_available_def)
  then show "length (cx_tx_cipher (context_at cl s r e)) = 32" "length (cx_tx_iv (context_at cl s r e)) = 12"
    "length (cx_tx_hp_key (context_at cl s r e)) = 32"
    by (simp_all add: context_at_def schedule_def derive_epoch_keys_def derive_hp_keys_def Let_def)
qed

lemma encode_header_length: "wf_header h \<Longrightarrow> length (encode_header h) < 600"
  by (auto simp: encode_header_def wf_header_def put_pn_def clamp_pn_len_def Let_def)

lemma seal_packet_total:
  assumes "wf_header h" and "aead_lengths cl" and av: "crypto_available cl" and "length payload < 2 ^ 32"
    and "maskable cl (context_at cl s r e) pn (encode_header h) payload" and "4 \<le> length payload + ph_pn_len h"
  shows "\<exists>packet. seal_packet cl (context_at cl s r e) pn (encode_header h) payload = Ok packet"
proof -
  let ?c = "context_at cl s r e"
  note lengths = context_at_lengths [OF av, of s r e]
  have "length (generate_nonce ?c pn True False) = 12"
    using lengths(2) by (simp add: generate_nonce_def make_nonce_xor_pn)
  then have "cl_aead_encrypt cl (cx_tx_cipher ?c) (generate_nonce ?c pn True False) (encode_header h) payload \<noteq> None"
    using av lengths(1) assms(4) encode_header_length [OF assms(1)] unfolding crypto_available_def by simp
  then obtain ct tag where enc: "encrypt_in_place cl ?c pn (encode_header h) payload = Ok (ct, tag)"
    by (auto simp: encrypt_in_place_def ok_or_eq_Ok Let_def)
  have "sample_counter (encode_header h @ ct @ tag) < 2 ^ 32 - 1" using assms(5) by (simp add: maskable_def enc)
  then have "cl_chacha20 cl (cx_tx_hp_key ?c) nonce (sample_counter (encode_header h @ ct @ tag) * 64) 5 \<noteq> None"
    if "length nonce = 12" for nonce
    using av lengths(3) that unfolding crypto_available_def by simp
  then show ?thesis by (rule seal_packet_runs [OF assms(1,2) enc _ assms(6)])
qed

lemma truncate_pn_len_bounds: "truncate_pn pn la = Ok (t, len) \<Longrightarrow> 1 \<le> len \<and> len \<le> 4"
  by (auto simp: truncate_pn_def Let_def split: if_splits)

lemma short_header_fields:
  assumes "short_header p_type pn c = Ok h" and "p_type \<in> {Pt_Data, Pt_Close, Pt_MtuProbe}" and "length (cn_dcid c) < 256"
  shows "wf_header h" and "\<not> ph_is_long h" and "ph_type h = p_type" and "ph_packet_number h = of_nat pn"
    and "ph_key_phase h = current_key_phase c" and "ph_dcid h = cn_dcid c"
    and "\<exists>t. truncate_pn (of_nat pn) (of_nat (lowest_unacked pn c - 1)) = Ok (t, ph_pn_len h)"
  using assms
  by (auto simp: short_header_def pn_len_for_def obind_eq_Ok wf_header_def dest: truncate_pn_len_bounds)

section \<open>From one actor to the other\<close>

text \<open>
  Which epochs a receiver at epoch \<open>e'\<close> whose highest packet is \<open>highest\<close> can open: its own, the next
  one if the packet is the newest, the previous one if it is not.
\<close>

definition openable :: "nat \<Rightarrow> nat \<Rightarrow> nat \<Rightarrow> nat \<Rightarrow> bool" where
  "openable e e' pn highest \<longleftrightarrow> e' = e \<or> e = Suc e' \<and> highest \<le> pn \<or> e' = Suc e \<and> pn < highest"

lemma phase_opens:
  assumes "aead_sound cl" and "aead_lengths cl" and "max e e' + 2 < two64"
    and enc: "encrypt_in_place cl (context_at cl s r e) pn aad payload = Ok (ciphertext, tag)"
    and "openable e e' pn highest" and "cn_current_key_epoch c = e'"
  shows "open_packet cl (choose_key c True (e mod 2 \<noteq> 0) pn highest) pn aad (ciphertext @ tag) (context_at cl s (\<not> r) e')
      = Ok (context_at cl s (\<not> r) (max e e'), payload)"
    and "choose_key c True (e mod 2 \<noteq> 0) pn highest = NextKey \<longleftrightarrow> e = Suc e'"
proof -
  have len: "length ciphertext = length payload" "length tag = 16" using encrypted_lengths [OF assms(2) enc] by auto
  have "e + 2 < two64" using assms(3) by simp
  note o = context_opens [OF assms(1) this enc]
  have key: "choose_key c True (e mod 2 \<noteq> 0) pn highest = (if e' = e then CurrentKey else if e = Suc e' then NextKey else PreviousKey)"
    using assms(5,6) by (auto simp: choose_key_def Let_def openable_def mod_Suc)
  then show "choose_key c True (e mod 2 \<noteq> 0) pn highest = NextKey \<longleftrightarrow> e = Suc e'" by simp
  consider "e' = e" | "e = Suc e'" | "e' = Suc e" using assms(5) by (auto simp: openable_def)
  then show "open_packet cl (choose_key c True (e mod 2 \<noteq> 0) pn highest) pn aad (ciphertext @ tag) (context_at cl s (\<not> r) e')
      = Ok (context_at cl s (\<not> r) (max e e'), payload)"
  proof cases
    case 1
    then show ?thesis unfolding key using len o(1) by (simp add: open_packet_def)
  next
    case 2
    then show ?thesis unfolding key using len o(3) [OF 2] by (simp add: open_packet_def)
  next
    case 3
    then show ?thesis unfolding key using len o(2) by (simp add: open_packet_def)
  qed
qed

text \<open>
  The sender's truncation is long enough for this receiver: fewer than \<open>2 ^ 31\<close> packets are outstanding,
  the receiver has seen the last packet below them, and at most 126 packets beyond this one.
\<close>

definition in_reach :: "nat \<Rightarrow> nat \<Rightarrow> nat \<Rightarrow> bool" where
  "in_reach pn low highest \<longleftrightarrow>
     pn < two64 \<and> highest < two64 \<and> pn - (low - 1) < 2 ^ 31 \<and> low \<le> pn \<and> low - 1 \<le> highest \<and> highest < pn + 127"

lemma received_number:
  assumes "truncate_pn (of_nat pn) (of_nat (low - 1)) = Ok (t, len)" and "in_reach pn low highest"
  shows "expand_pn (take_bit (8 * len) (of_nat pn)) len (of_nat highest) = of_nat pn"
proof (rule expand_truncated [OF assms(1)])
  have u: "unat (of_nat pn :: u64) = pn" "unat (of_nat (low - 1) :: u64) = low - 1" "unat (of_nat highest :: u64) = highest"
    using assms(2) by (simp_all add: in_reach_def unat_of_nat)
  show "unat (of_nat pn :: u64) - unat (of_nat (low - 1) :: u64) < 2 ^ 31"
    and "(of_nat (low - 1) :: u64) \<le> of_nat highest" and "unat (of_nat highest :: u64) < unat (of_nat pn :: u64) + 127"
    using assms(2) unfolding u word_le_nat_alt in_reach_def by simp_all
  show "unat (take_bit (8 * len) (of_nat pn :: u64)) = unat (of_nat pn :: u64) mod 2 ^ (8 * len)"
    by (simp only: unsigned_take_bit_eq take_bit_nat_def)
qed

lemma unprotect_short:
  assumes "packet \<noteq> []" and "packet ! 0 AND 0x80 = 0" and "get_pn_offset packet = Some off"
    and "cn_crypto c = Some ctx" and "remove_header_protection (en_crypto en) packet off (cx_rx_hp_key ctx) = Ok p"
  shows "unprotect_packet en c packet = Ok p" and "is_short_header packet"
  using assms by (simp_all add: unprotect_packet_def is_short_header_def)

text \<open>The receiver has counted the datagram; then it stands at the payload with its keys chosen.\<close>

definition received :: "nat \<Rightarrow> actor \<Rightarrow> actor" where
  "received len a = a\<lparr>ac_state := (ac_state a)\<lparr>cn_bytes_received := cn_bytes_received (ac_state a) + len\<rparr>\<rparr>"

lemma received_fields [simp]:
  "cn_state (ac_state (received len a)) = cn_state (ac_state a)" "ac_is_client (received len a) = ac_is_client a"
  "highest_processed (ac_state (received len a)) = highest_processed (ac_state a)"
  "connection_is_replay (ac_state (received len a)) = connection_is_replay (ac_state a)"
  "cn_crypto (ac_state (received len a)) = cn_crypto (ac_state a)"
  "cn_current_key_epoch (ac_state (received len a)) = cn_current_key_epoch (ac_state a)"
  "choose_key (ac_state (received len a)) = choose_key (ac_state a)"
  by (auto simp: received_def highest_processed_def connection_is_replay_def choose_key_def fun_eq_iff)

lemma process_to_sealed:
  assumes en: "en_crypto en = cl" and "length (cn_dcid c) < 256"
    and "short_header p_type pn c = Ok h" and "p_type \<in> {Pt_Data, Pt_MtuProbe}"
    and "seal_packet cl crypto pn (encode_header h) payload = Ok packet"
    and a: "cn_crypto (ac_state a) = Some ctx" "cx_rx_hp_key ctx = cx_tx_hp_key crypto"
      "cn_state (ac_state a) = Active \<or> cn_state (ac_state a) = Handshaking \<and> \<not> ac_is_client a"
      "\<not> connection_is_replay (ac_state a) pn"
    and reach: "in_reach pn (lowest_unacked pn c) (highest_processed (ac_state a))"
  obtains ct tag where "encrypt_in_place cl crypto pn (encode_header h) payload = Ok (ct, tag)"
    and "process_incoming_packet en packet addr a =
      receive_sealed en (choose_key (ac_state a) True (current_key_phase c) pn (highest_processed (ac_state a))) pn
        (encode_header h) (ct @ tag) addr (received (length packet) a)"
proof -
  have t: "p_type \<in> {Pt_Data, Pt_Close, Pt_MtuProbe}" using assms(4) by auto
  note h = short_header_fields [OF assms(3) t assms(2)]
  let ?a = "received (length packet) a"
  obtain ct tag off where enc: "encrypt_in_place cl crypto pn (encode_header h) payload = Ok (ct, tag)"
    and off: "get_pn_offset packet = Some off" and ne: "packet \<noteq> []" and sh: "packet ! 0 AND 0x80 = 0 \<longleftrightarrow> \<not> ph_is_long h"
    and rm: "remove_header_protection cl packet off (cx_tx_hp_key crypto) = Ok (encode_header h @ ct @ tag)"
    using seal_packetE [OF h(1) assms(5)] by metis
  have un: "unprotect_packet en (ac_state ?a) packet = Ok (encode_header h @ ct @ tag)" and short: "is_short_header packet"
    using unprotect_short [OF ne _ off, of "ac_state ?a" ctx en] sh h(2) a(1,2) rm by (simp_all add: en)
  obtain t' where tr: "truncate_pn (of_nat pn) (of_nat (lowest_unacked pn c - 1)) = Ok (t', ph_pn_len h)" using h(7) by blast
  note ex = received_number [OF tr reach]
  have upn: "unat (of_nat pn :: u64) = pn" using reach by (simp add: in_reach_def unat_of_nat)
  have "process_incoming_packet en packet addr a =
      receive_sealed en (choose_key (ac_state a) True (current_key_phase c) pn (highest_processed (ac_state a))) pn
        (encode_header h) (ct @ tag) addr ?a"
    using assms(4) a(3,4) ex
    unfolding process_incoming_packet_def on_conn_def run_simps received_def [symmetric] un split_encoded [OF h(1)]
    by (auto simp: run_simps Let_def upn short h)
  then show ?thesis by (rule that [OF enc])
qed

text \<open>The state a receiver is in once a packet of epoch \<open>e\<close> has opened.\<close>

definition opened_at :: "crypto_context \<Rightarrow> nat \<Rightarrow> nat \<Rightarrow> nat \<Rightarrow> actor \<Rightarrow> actor" where
  "opened_at ctx e e' len a = a\<lparr>ac_state := (ac_state a)\<lparr>cn_bytes_received := cn_bytes_received (ac_state a) + len,
     cn_crypto := Some ctx, cn_current_key_epoch := max e e',
     cn_packets_since_key_update := (if e = Suc e' then 0 else cn_packets_since_key_update (ac_state a))\<rparr>\<rparr>"

lemma process_sealed:
  assumes en: "en_crypto en = cl" and "aead_sound cl" and "aead_lengths cl" and "max e e' + 2 < two64"
    and "cn_current_key_epoch c = e" and "length (cn_dcid c) < 256"
    and "short_header p_type pn c = Ok h" and "p_type \<in> {Pt_Data, Pt_MtuProbe}"
    and "seal_packet cl (context_at cl s r e) pn (encode_header h) payload = Ok packet"
    and a: "cn_crypto (ac_state a) = Some (context_at cl s (\<not> r) e')" "cn_current_key_epoch (ac_state a) = e'"
    and "cn_state (ac_state a) = Active \<or> cn_state (ac_state a) = Handshaking \<and> \<not> ac_is_client a"
      "\<not> connection_is_replay (ac_state a) pn"
      "in_reach pn (lowest_unacked pn c) (highest_processed (ac_state a))"
    and "openable e e' pn (highest_processed (ac_state a))"
  shows "process_incoming_packet en packet addr a =
    athen activate_server (athen (observe_address en addr) (athen (on_conn (mark_processed (en_now en) pn))
      (handle_payload (handle_frame en addr) payload))) (opened_at (context_at cl s (\<not> r) (max e e')) e e' (length packet) a)"
proof -
  let ?ctx = "context_at cl s (\<not> r) (max e e')" and ?a = "received (length packet) a"
  obtain ct tag where enc: "encrypt_in_place cl (context_at cl s r e) pn (encode_header h) payload = Ok (ct, tag)"
    and p: "process_incoming_packet en packet addr a =
      receive_sealed en (choose_key (ac_state a) True (current_key_phase c) pn (highest_processed (ac_state a))) pn
        (encode_header h) (ct @ tag) addr ?a"
    using process_to_sealed [OF en assms(6-9) a(1) hp_mirror assms(12-14)] by metis
  have kp: "current_key_phase c \<longleftrightarrow> e mod 2 \<noteq> 0" using assms(5) by (simp add: current_key_phase_def)
  note op = phase_opens [OF assms(2-4) enc assms(15) a(2)]
  let ?key = "choose_key (ac_state a) True (e mod 2 \<noteq> 0) pn (highest_processed (ac_state a))"
  have "process_incoming_packet en packet addr a = athen (conn_call (adopt_context ?key ?ctx)) (athen activate_server
      (athen (observe_address en addr) (athen (on_conn (mark_processed (en_now en) pn))
      (handle_payload (handle_frame en addr) payload)))) ?a"
    using op a encrypted_lengths [OF assms(3) enc] unfolding p kp by (simp add: receive_sealed_def run_simps en)
  moreover have "conn_call (adopt_context ?key ?ctx) ?a = (opened_at ?ctx e e' (length packet) a, Ok ())"
    using op(2) assms(4,15) a(2)
    by (auto simp: adopt_context_def conn_call_def on_conn_def run_simps Let_def add64_def received_def opened_at_def openable_def)
  ultimately show ?thesis by (simp add: run_simps)
qed

text \<open>
  The other order: a receiver that is one epoch ahead tries the epoch after its own on every packet
  that is newer than those it has seen, and the peer's packets are not sealed with those keys.
\<close>

lemma process_stale_epoch:
  assumes en: "en_crypto en = cl" and "aead_lengths cl"
    and "cn_current_key_epoch c = e" and "length (cn_dcid c) < 256"
    and "short_header Pt_Data pn c = Ok h"
    and "seal_packet cl (context_at cl s r e) pn (encode_header h) payload = Ok packet"
    and foreign: "\<And>ciphertext tag. encrypt_in_place cl (context_at cl s r e) pn (encode_header h) payload = Ok (ciphertext, tag) \<Longrightarrow>
      cl_aead_decrypt cl (ek_rx_cipher (schedule cl s (\<not> r) (e + 2)))
        (make_nonce_from_iv (ek_rx_iv (schedule cl s (\<not> r) (e + 2))) pn) (encode_header h) ciphertext tag = None"
    and a: "cn_crypto (ac_state a) = Some (context_at cl s (\<not> r) (e + 1))" "cn_current_key_epoch (ac_state a) = e + 1"
    and "cn_state (ac_state a) = Active" "\<not> connection_is_replay (ac_state a) pn"
    and "in_reach pn (lowest_unacked pn c) (highest_processed (ac_state a))"
    and newest: "highest_processed (ac_state a) \<le> pn"
  shows "process_incoming_packet en packet addr a = (received (length packet) a, Err (Crypto ''Trial decryption failed''))"
proof -
  obtain ct tag where enc: "encrypt_in_place cl (context_at cl s r e) pn (encode_header h) payload = Ok (ct, tag)"
    and p: "process_incoming_packet en packet addr a =
      receive_sealed en (choose_key (ac_state a) True (current_key_phase c) pn (highest_processed (ac_state a))) pn
        (encode_header h) (ct @ tag) addr (received (length packet) a)"
    using process_to_sealed [OF en assms(4,5) _ assms(6) a(1) hp_mirror _ assms(11,12), simplified] assms(10) by metis
  have key: "choose_key (ac_state a) True (current_key_phase c) pn (highest_processed (ac_state a)) = NextKey"
    using assms(3) a(2) newest by (simp add: choose_key_def current_key_phase_def Let_def mod_Suc)
  have "trial_decrypt_and_rotate cl (context_at cl s (\<not> r) (e + 1)) pn (encode_header h) ct tag
      = Err (Crypto ''Trial decryption failed'')"
    using foreign [OF enc] by (simp add: trial_decrypt_and_rotate_def context_at_def Let_def)
  then show ?thesis
    using a encrypted_lengths [OF assms(2) enc] unfolding p key
    by (simp add: receive_sealed_def run_simps en open_packet_def)
qed

section \<open>Examples\<close>

text \<open>A cipher whose tag is the key, so that packets of other epochs do not open.\<close>

definition keyed_lib :: crypto_lib where
  "keyed_lib = plain_lib\<lparr>cl_hkdf_expand := \<lambda>prk info n. take n (info @ replicate n 0),
     cl_aead_encrypt := \<lambda>key nonce aad payload. Some (payload, take 16 (key @ replicate 16 0)),
     cl_aead_decrypt := \<lambda>key nonce aad payload tag. if tag = take 16 (key @ replicate 16 0) then Some payload else None\<rparr>"

lemma keyed_lib_simps:
  "cl_hkdf_expand keyed_lib prk info n = take n (info @ replicate n 0)"
  "cl_chacha20 keyed_lib key nonce position n = Some (replicate n 0x57)"
  "cl_aead_encrypt keyed_lib key nonce aad payload = Some (payload, take 16 (key @ replicate 16 0))"
  "cl_aead_decrypt keyed_lib key nonce aad payload tag = (if tag = take 16 (key @ replicate 16 0) then Some payload else None)"
  by (simp_all add: keyed_lib_def plain_lib_def)

lemma keyed_lib_documented: "aead_sound keyed_lib" "aead_lengths keyed_lib"
  by (auto simp: aead_sound_def aead_lengths_def keyed_lib_simps min_def)

definition example_sender :: zt_connection where
  "example_sender = (connection_new example_addr [1] [2] default_config)\<lparr>cn_state := Active, cn_current_key_epoch := 1\<rparr>"

definition example_header :: packet_header where
  "example_header = \<lparr>ph_type = Pt_Data, ph_is_long = False, ph_version = 0, ph_dcid = cn_dcid example_sender, ph_scid = [],
     ph_packet_number = 0, ph_key_phase = True, ph_pn_len = 1\<rparr>"

definition example_receiver :: "nat \<Rightarrow> actor" where
  "example_receiver e = example_server\<lparr>ac_state := (ac_state example_server)\<lparr>cn_state := Active,
     cn_crypto := Some (context_at keyed_lib [] False e), cn_current_key_epoch := e\<rparr>\<rparr>"

lemma example_header: "short_header Pt_Data 0 example_sender = Ok example_header"
  by (simp add: short_header_def pn_len_for_def lowest_unacked_def truncate_pn_def saturating_sub_def leading_zeros_def
      bit_len.simps example_header_def current_key_phase_def example_sender_def connection_new_def Let_def
      unacked_keys_def unacked_iter_def unacked_new_def)

lemma example_sealed: "\<exists>packet. seal_packet keyed_lib crypto 0 (encode_header example_header)
    (concat (map encode [Ping, Padding 2])) = Ok packet"
proof (rule seal_packet_runs)
  show "wf_header example_header"
    by (simp add: wf_header_def example_header_def example_sender_def connection_new_def Let_def)
  show "encrypt_in_place keyed_lib crypto 0 (encode_header example_header) (concat (map encode [Ping, Padding 2]))
      = Ok (concat (map encode [Ping, Padding 2]), take 16 (cx_tx_cipher crypto @ replicate 16 0))"
    by (simp add: encrypt_in_place_def keyed_lib_simps)
qed (simp_all add: keyed_lib_documented, simp_all add: keyed_lib_simps example_header_def)

lemma example_ends:
  "cn_current_key_epoch example_sender = 1" "length (cn_dcid example_sender) < 256"
  "cn_crypto (ac_state (example_receiver e)) = Some (context_at keyed_lib [] False e)"
  "cn_current_key_epoch (ac_state (example_receiver e)) = e" "cn_state (ac_state (example_receiver e)) = Active"
  "\<not> connection_is_replay (ac_state (example_receiver e)) 0" "highest_processed (ac_state (example_receiver e)) = 0"
  "in_reach 0 (lowest_unacked 0 example_sender) 0" "cn_addr (ac_state (example_receiver e)) = example_addr"
  "ac_pending_acks (example_receiver e) = 0"
  by (simp_all add: example_sender_def example_receiver_def example_server_def actor_new_def connection_new_def Let_def
      connection_is_replay_def is_replay_def highest_processed_def replay_new_def in_reach_def lowest_unacked_def
      unacked_keys_def unacked_iter_def unacked_new_def)

section \<open>Properties\<close>

text \<open>
  C2: a packet one side seals is processed by the other.  Whatever frames the sender packs into a data
  packet, the receiver removes the header protection, recovers the packet number, opens the payload, and
  hands exactly those frames in that order to its frame handlers, after marking the number as processed.
  This holds when the number is within reach of the receiver's newest, and when the receiver's keys are
  at the epoch of the sender, or one behind and the packet is not older than its newest (it then follows
  the key update), or one ahead and the packet is older than its newest (it then uses the keys it kept).
\<close>

theorem sealed_packet_reaches_handlers:
  assumes "en_crypto en = cl" and "aead_sound cl" and "aead_lengths cl" and "max e e' + 2 < two64"
    and "cn_current_key_epoch c = e" and "length (cn_dcid c) < 256"
    and "short_header Pt_Data pn c = Ok h" and "wf_payload fs"
    and "seal_packet cl (context_at cl s r e) pn (encode_header h) (concat (map encode fs)) = Ok packet"
    and "cn_crypto (ac_state a) = Some (context_at cl s (\<not> r) e')" "cn_current_key_epoch (ac_state a) = e'"
    and "cn_state (ac_state a) = Active \<or> cn_state (ac_state a) = Handshaking \<and> \<not> ac_is_client a"
    and "\<not> connection_is_replay (ac_state a) pn"
    and "in_reach pn (lowest_unacked pn c) (highest_processed (ac_state a))"
    and "openable e e' pn (highest_processed (ac_state a))"
  shows "process_incoming_packet en packet addr a =
    athen activate_server (athen (observe_address en addr) (athen (on_conn (mark_processed (en_now en) pn))
      (run_handlers (handle_frame en addr) fs))) (opened_at (context_at cl s (\<not> r) (max e e')) e e' (length packet) a)"
proof -
  have "handle_payload (handle_frame en addr) (concat (map encode fs)) = run_handlers (handle_frame en addr) fs"
    using handle_payload_frames [OF assms(8)] by (rule ext)
  then show ?thesis
    using process_sealed [OF assms(1-7) _ assms(9-15), of addr] by simp
qed

theorem sealed_packet_reaches_handlers_witness:
  "\<exists>packet. seal_packet keyed_lib (context_at keyed_lib [] True 1) 0 (encode_header example_header)
      (concat (map encode [Ping, Padding 2])) = Ok packet
    \<and> ac_pending_acks (fst (process_incoming_packet ((example_env 9)\<lparr>en_crypto := keyed_lib\<rparr>) packet example_addr (example_receiver 0))) = 1"
proof -
  let ?en = "(example_env 9)\<lparr>en_crypto := keyed_lib\<rparr>"
  obtain packet where p: "seal_packet keyed_lib (context_at keyed_lib [] True 1) 0 (encode_header example_header)
      (concat (map encode [Ping, Padding 2])) = Ok packet" using example_sealed by blast
  have "process_incoming_packet ?en packet example_addr (example_receiver 0) =
    athen activate_server (athen (observe_address ?en example_addr) (athen (on_conn (mark_processed (en_now ?en) 0))
      (run_handlers (handle_frame ?en example_addr) [Ping, Padding 2])))
      (opened_at (context_at keyed_lib [] (\<not> True) (max 1 0)) 1 0 (length packet) (example_receiver 0))"
    by (rule sealed_packet_reaches_handlers [OF _ keyed_lib_documented _ example_ends(1,2) example_header _ p])
       (simp_all add: example_ends openable_def)
  then show ?thesis
    using p by (intro exI [of _ packet]) (simp add: run_simps activate_server_def observe_address_def on_conn_def opened_at_def
      example_ends handle_frame_def count_and_flush_def count_ack_def)
qed

text \<open>
  C35: a key update cuts off the peer.  A receiver that has moved to the next epoch on its own account
  (after sending a configured number of packets, acknowledgements included) rejects every packet its
  peer still seals under the previous epoch unless the packet is older than the newest one received:
  the packet is tried with the keys of the epoch after the receiver's own, fails, and leaves no trace but
  the byte counter.  It is not acknowledged, and neither are its retransmissions, which get ever newer
  numbers, until the receiver happens to send a packet of the new epoch itself.
\<close>

theorem key_update_cuts_off_peer:
  assumes "en_crypto en = cl" and "aead_lengths cl"
    and "cn_current_key_epoch c = e" and "length (cn_dcid c) < 256"
    and "short_header Pt_Data pn c = Ok h"
    and "seal_packet cl (context_at cl s r e) pn (encode_header h) payload = Ok packet"
    and "\<And>ciphertext tag. encrypt_in_place cl (context_at cl s r e) pn (encode_header h) payload = Ok (ciphertext, tag) \<Longrightarrow>
      cl_aead_decrypt cl (ek_rx_cipher (schedule cl s (\<not> r) (e + 2)))
        (make_nonce_from_iv (ek_rx_iv (schedule cl s (\<not> r) (e + 2))) pn) (encode_header h) ciphertext tag = None"
    and "cn_crypto (ac_state a) = Some (context_at cl s (\<not> r) (e + 1))" and "cn_current_key_epoch (ac_state a) = e + 1"
    and "cn_state (ac_state a) = Active" and "\<not> connection_is_replay (ac_state a) pn"
    and "in_reach pn (lowest_unacked pn c) (highest_processed (ac_state a))"
    and "highest_processed (ac_state a) \<le> pn"
  shows "process_incoming_packet en packet addr a = (received (length packet) a, Err (Crypto ''Trial decryption failed''))"
  by (rule process_stale_epoch [OF assms])

theorem key_update_cuts_off_peer_witness:
  "\<exists>packet. seal_packet keyed_lib (context_at keyed_lib [] True 1) 0 (encode_header example_header)
      (concat (map encode [Ping, Padding 2])) = Ok packet
    \<and> process_incoming_packet ((example_env 9)\<lparr>en_crypto := keyed_lib\<rparr>) packet example_addr (example_receiver 2)
      = (received (length packet) (example_receiver 2), Err (Crypto ''Trial decryption failed''))"
proof -
  let ?en = "(example_env 9)\<lparr>en_crypto := keyed_lib\<rparr>"
  obtain packet where p: "seal_packet keyed_lib (context_at keyed_lib [] True 1) 0 (encode_header example_header)
      (concat (map encode [Ping, Padding 2])) = Ok packet" using example_sealed by blast
  have "process_incoming_packet ?en packet example_addr (example_receiver 2)
      = (received (length packet) (example_receiver 2), Err (Crypto ''Trial decryption failed''))"
  proof (rule key_update_cuts_off_peer [OF _ keyed_lib_documented(2) example_ends(1,2) example_header p])
    fix ct tag
    assume "encrypt_in_place keyed_lib (context_at keyed_lib [] True 1) 0 (encode_header example_header)
      (concat (map encode [Ping, Padding 2])) = Ok (ct, tag)"
    then show "cl_aead_decrypt keyed_lib (ek_rx_cipher (schedule keyed_lib [] (\<not> True) (1 + 2)))
      (make_nonce_from_iv (ek_rx_iv (schedule keyed_lib [] (\<not> True) (1 + 2))) 0) (encode_header example_header) ct tag = None"
      by (auto simp: encrypt_in_place_def keyed_lib_simps context_at_def schedule_def derive_epoch_keys_def mk_label_def
        decimal.simps ascii_def Let_def)
  qed (simp_all add: example_ends numeral_2_eq_2)
  with p show ?thesis by blast
qed

end
