(* ===== verification/Zt_Handshake.thy ===== *)
theory Zt_Handshake
  imports Zt_Seal Zt_Cookie
begin

text \<open>
  The server's half of the handshake (\<^verbatim>\<open>src/src/transport/handshake.rs\<close>), the endpoint it runs on
  (\<^verbatim>\<open>src/src/transport/endpoint.rs\<close>), and what both halves together establish.

  The endpoint record holds what the endpoint changes: the routing table (connection id to task), the
  filter of used cookies, the queue of accepted connections, the spawned actor tasks with their
  mailboxes, and the datagrams it sent itself.  What one handled Initial packet draws from outside is
  the record \<open>server_env\<close>: the environment of the actors, the keyed hash of the cookies, the wall clock
  in milliseconds, a fresh X25519 key pair, the random connection ids it tries, whether this packet is
  the one in 128 that cleans the filter, whether the accept queue has room, and the socket's answer.
\<close>

section \<open>The endpoint\<close>

record task =
  tk_loop :: event_loop
  tk_mailbox :: "actor_message list"

record endpoint =
  ep_psk :: "bytes option"
  ep_cookie_key :: bytes
  ep_ed_signing_key :: bytes
  ep_ed_public_key :: bytes
  ep_handshake_replay_filter :: "(bytes \<times> u64) list"
  ep_routing_table :: "(bytes \<times> nat) list"
  ep_accept_queue :: "bytes list"
  ep_tasks :: "task list"
  ep_wire :: "(socket_addr \<times> bytes) list"

record server_env =
  sv_env :: env
  sv_hmac :: "bytes \<Rightarrow> bytes \<Rightarrow> bytes"
  sv_clock :: u64
  sv_keypair :: "bytes \<times> bytes"
  sv_scid :: "nat \<Rightarrow> bytes"
  sv_clean_filter :: bool
  sv_accept_room :: bool
  sv_try_send :: "io_kind option"

type_synonym 'a endpoint_act = "(endpoint, 'a) act"

definition endpoint_send :: "server_env \<Rightarrow> socket_addr \<Rightarrow> bytes \<Rightarrow> unit endpoint_act" where
  "endpoint_send sv addr data = amodify (\<lambda>e.
     if sv_try_send sv = None then e\<lparr>ep_wire := ep_wire e @ [(addr, data)]\<rparr> else e)"

section \<open>Reading the Initial packet\<close>

text \<open>\<open>None\<close> is a packet dropped without an error.\<close>

definition unprotect_initial :: "env \<Rightarrow> bytes \<Rightarrow> bytes outcome" where
  "unprotect_initial en data =
     (case (get_pn_offset data, extract_dcid_fast data) of
        (Some offset, Some dcid) \<Rightarrow>
          obind (crypto_initial (en_crypto en) dcid False) (\<lambda>crypto.
          remove_header_protection (en_crypto en) data offset (cx_rx_hp_key crypto))
      | _ \<Rightarrow> Ok data)"

definition decrypt_initial :: "env \<Rightarrow> packet_header \<Rightarrow> bytes \<Rightarrow> bytes \<Rightarrow> (packet_header \<times> bytes) option outcome" where
  "decrypt_initial en header aad payload =
     (if \<not> ph_is_long header \<or> ph_type header \<noteq> Pt_Initial then Ok None
      else if ph_version header \<noteq> PROTOCOL_VERSION then Ok None
      else if length payload < 16 then Ok None
      else
        let split = length payload - 16 in
        obind (crypto_initial (en_crypto en) (ph_dcid header) False) (\<lambda>crypto.
        case decrypt_in_place (en_crypto en) crypto (unat (ph_packet_number header)) aad
               (take split payload) (drop split payload) False of
          Ok plain \<Rightarrow> Ok (Some (header, plain))
        | Err _ \<Rightarrow> Ok None
        | Panic \<Rightarrow> Panic))"

definition open_initial :: "env \<Rightarrow> bytes \<Rightarrow> (packet_header \<times> bytes) option outcome" where
  "open_initial en data =
     (if length data < 1200 then Ok None
      else
        obind (unprotect_initial en data) (\<lambda>original_data.
        case decode_header original_data of
          Err _ \<Rightarrow> Ok None
        | Panic \<Rightarrow> Panic
        | Ok (header, payload) \<Rightarrow>
            decrypt_initial en header (take (length original_data - length payload) original_data) payload))"

function scan_initial ::
  "bytes \<Rightarrow> handshake_data option \<Rightarrow> bytes option \<Rightarrow> transport_parameters option \<Rightarrow>
   (handshake_data option \<times> bytes option \<times> transport_parameters option) outcome" where
  "scan_initial src handshake cookie_data parameters =
     (if src = [] then Ok (handshake, cookie_data, parameters)
      else case decode src of
        Err _ \<Rightarrow> Ok (handshake, cookie_data, parameters)
      | Panic \<Rightarrow> Panic
      | Ok (frame, rest) \<Rightarrow>
          (case frame of
             Handshake public_key ed_public_key transcript_hash signature alpn \<Rightarrow>
               scan_initial rest (Some (public_key, ed_public_key, transcript_hash, signature, alpn)) cookie_data parameters
           | Cookie c \<Rightarrow> scan_initial rest handshake (Some c) parameters
           | TransportParameters p \<Rightarrow>
               obind (validate_parameters p) (\<lambda>p.
               if parameters \<noteq> None then Err (InvalidPacket ''duplicate transport parameters'')
               else scan_initial rest handshake cookie_data (Some p))
           | _ \<Rightarrow> scan_initial rest handshake cookie_data parameters))"
  by pat_completeness auto
termination
  by (relation "measure (\<lambda>(src, _, _, _). length src)") (auto dest!: decode_strict_suffix suffix_length_less)

declare scan_initial.simps [simp del]

section \<open>Retry and replay\<close>

definition is_cookie_valid :: "server_env \<Rightarrow> bytes \<Rightarrow> socket_addr \<Rightarrow> bytes \<Rightarrow> bytes option \<Rightarrow> bool outcome" where
  "is_cookie_valid sv cookie_key addr scid cookie_data =
     (case cookie_data of
        None \<Rightarrow> Ok False
      | Some c \<Rightarrow> verify_retry_cookie (sv_hmac sv) cookie_key addr scid c (sv_clock sv)
                    (of_nat (cfg_cookie_max_age_ms (en_config (sv_env sv)))))"

definition send_retry :: "server_env \<Rightarrow> socket_addr \<Rightarrow> bytes \<Rightarrow> u64 \<Rightarrow> bytes \<Rightarrow> unit endpoint_act" where
  "send_retry sv addr client_scid pn cookie_bytes =
     (let retry_header = \<lparr>ph_type = Pt_Retry, ph_is_long = True, ph_version = PROTOCOL_VERSION, ph_dcid = client_scid,
            ph_scid = [], ph_packet_number = pn, ph_key_phase = False, ph_pn_len = 1\<rparr>
      in endpoint_send sv addr (encode_header retry_header @ cookie_bytes))"

definition replay_cookie_hmac :: "bytes option \<Rightarrow> bytes option" where
  "replay_cookie_hmac cookie_data =
     (case cookie_data of Some cookie \<Rightarrow> if length cookie = 40 then Some (drop 8 cookie) else None | None \<Rightarrow> None)"

definition clean_replay_filter :: "server_env \<Rightarrow> endpoint \<Rightarrow> endpoint" where
  "clean_replay_filter sv e =
     (if sv_clean_filter sv
      then e\<lparr>ep_handshake_replay_filter := filter (\<lambda>(_, timestamp).
             unat (sv_clock sv) - unat timestamp \<le> cfg_cookie_max_age_ms (en_config (sv_env sv))) (ep_handshake_replay_filter e)\<rparr>
      else e)"

definition cookie_used :: "bytes option \<Rightarrow> endpoint \<Rightarrow> bool" where
  "cookie_used hmac e = (case hmac of Some h \<Rightarrow> h \<in> fst ` set (ep_handshake_replay_filter e) | None \<Rightarrow> False)"

definition consume_cookie :: "server_env \<Rightarrow> bytes option \<Rightarrow> bool endpoint_act" where
  "consume_cookie sv hmac = awith (\<lambda>e.
     case hmac of
       None \<Rightarrow> areturn True
     | Some h \<Rightarrow>
         if cookie_used hmac e then areturn False
         else athen (amodify (\<lambda>e. e\<lparr>ep_handshake_replay_filter := AList.update h (sv_clock sv) (ep_handshake_replay_filter e)\<rparr>))
                (areturn True))"

section \<open>Authenticating the client\<close>

definition authenticate_client ::
  "env \<Rightarrow> packet_header \<Rightarrow> handshake_data \<Rightarrow> bytes option \<Rightarrow> transport_parameters \<Rightarrow> unit outcome" where
  "authenticate_client en header handshake cookie_data remote_parameters =
     (let (pk_bytes, remote_ed_pk, remote_transcript_hash, remote_sig, _) = handshake;
          expected_hash = en_sha256 en
            (initial_transcript (ph_scid header) (ph_dcid header) pk_bytes cookie_data remote_parameters)
      in guard (\<not> en_valid_key en remote_ed_pk) (Crypto ''Invalid Ed25519 Public Key'') (
         guard (expected_hash \<noteq> remote_transcript_hash) (Crypto ''Invalid Transcript Hash'') (
         guard (\<not> en_verify en remote_ed_pk expected_hash remote_sig) (Crypto ''Invalid Handshake Signature'') (
         guard (\<not> verify_peer_key en remote_ed_pk) Unauthorized (Ok ())))))"

section \<open>Accepting the client\<close>

definition choose_scid :: "server_env \<Rightarrow> (bytes \<times> nat) list \<Rightarrow> bytes option" where
  "choose_scid sv routing_table = find (\<lambda>scid. scid \<notin> fst ` set routing_table) (map (sv_scid sv) [0..<10])"

definition server_connection ::
  "env \<Rightarrow> socket_addr \<Rightarrow> bytes \<Rightarrow> packet_header \<Rightarrow> transport_parameters \<Rightarrow> nat \<Rightarrow> bytes \<Rightarrow> bytes option \<Rightarrow> (zt_connection \<times> nat) outcome" where
  "server_connection en addr scid header remote_parameters len shared psk =
     (let c = adopt_parameters (en_config en) remote_parameters (connection_new addr scid (ph_scid header) (en_config en));
          c = c\<lparr>cn_bytes_received := len\<rparr>
      in obind (get_next_packet_number c) (\<lambda>(c, handshake_pn).
         let c = (mark_processed (en_now en) (unat (ph_packet_number header)) c)\<lparr>cn_state := Handshaking\<rparr> in
         obind (from_shared_secret (en_crypto en) shared (cn_scid c) (cn_dcid c) psk False) (\<lambda>crypto.
         Ok (c\<lparr>cn_crypto := Some crypto\<rparr>, handshake_pn))))"

definition response_frames ::
  "env \<Rightarrow> endpoint \<Rightarrow> packet_header \<Rightarrow> bytes \<Rightarrow> bytes option \<Rightarrow> transport_parameters \<Rightarrow> bytes \<Rightarrow> bytes \<Rightarrow> bytes" where
  "response_frames en e header pk_bytes cookie_data remote_parameters scid ephemeral_public =
     (let local_parameters = parameters_from_config (en_config en);
          transcript_hash = en_sha256 en (server_transcript (ph_scid header) (ph_dcid header) pk_bytes cookie_data
            remote_parameters scid ephemeral_public local_parameters)
      in encode (Handshake ephemeral_public (ep_ed_public_key e) transcript_hash
           (en_sign en (ep_ed_signing_key e) transcript_hash) (en_alpn en))
         @ encode (TransportParameters local_parameters))"

text \<open>Failures to seal the response are ignored: the tag stays zero, the header unprotected.\<close>

definition seal_response :: "crypto_lib \<Rightarrow> crypto_context \<Rightarrow> nat \<Rightarrow> bytes \<Rightarrow> bytes \<Rightarrow> bytes outcome" where
  "seal_response cl crypto pn aad payload =
     obind (case encrypt_in_place cl crypto pn aad payload of
         Ok (payload, tag) \<Rightarrow> Ok (aad @ payload @ tag)
       | Err _ \<Rightarrow> Ok (aad @ payload @ replicate 16 0)
       | Panic \<Rightarrow> Panic) (\<lambda>packet.
     case get_pn_offset packet of
       None \<Rightarrow> Ok packet
     | Some offset \<Rightarrow>
         (case apply_header_protection cl packet offset (cx_tx_hp_key crypto) of
            Ok packet \<Rightarrow> Ok packet
          | Err _ \<Rightarrow> Ok packet
          | Panic \<Rightarrow> Panic))"

definition handshake_response ::
  "env \<Rightarrow> endpoint \<Rightarrow> packet_header \<Rightarrow> bytes \<Rightarrow> bytes option \<Rightarrow> transport_parameters \<Rightarrow> bytes \<Rightarrow> bytes \<Rightarrow> nat \<Rightarrow> bytes outcome" where
  "handshake_response en e header pk_bytes cookie_data remote_parameters scid ephemeral_public handshake_pn =
     (let hs_header = \<lparr>ph_type = Pt_Handshake, ph_is_long = True, ph_version = PROTOCOL_VERSION, ph_dcid = ph_scid header,
            ph_scid = scid, ph_packet_number = of_nat handshake_pn, ph_key_phase = False, ph_pn_len = 1\<rparr>
      in obind (crypto_initial (en_crypto en) (ph_dcid hs_header) False) (\<lambda>crypto.
         seal_response (en_crypto en) crypto handshake_pn (encode_header hs_header)
           (response_frames en e header pk_bytes cookie_data remote_parameters scid ephemeral_public)))"

text \<open>
  The new actor is registered, handed to the accept queue (or forgotten if that is full), spawned, and
  the response packet is sent and also left in its mailbox for repetitions.
\<close>

definition register :: "bytes \<Rightarrow> nat \<Rightarrow> endpoint \<Rightarrow> endpoint" where
  "register scid t e = e\<lparr>ep_routing_table := AList.update scid t (ep_routing_table e)\<rparr>"

definition unregister :: "bytes \<Rightarrow> endpoint \<Rightarrow> endpoint" where
  "unregister scid e = e\<lparr>ep_routing_table := AList.delete scid (ep_routing_table e)\<rparr>"

definition spawn :: "env \<Rightarrow> actor \<Rightarrow> endpoint \<Rightarrow> endpoint" where
  "spawn en a e = e\<lparr>ep_tasks := ep_tasks e @ [\<lparr>tk_loop = loop_start en a, tk_mailbox = []\<rparr>]\<rparr>"

definition post :: "nat \<Rightarrow> actor_message \<Rightarrow> endpoint \<Rightarrow> endpoint" where
  "post t msg e = e\<lparr>ep_tasks := (ep_tasks e)[t := (ep_tasks e ! t)\<lparr>tk_mailbox := tk_mailbox (ep_tasks e ! t) @ [msg]\<rparr>]\<rparr>"

definition accept_client ::
  "server_env \<Rightarrow> nat \<Rightarrow> socket_addr \<Rightarrow> packet_header \<Rightarrow> bytes \<Rightarrow> bytes option \<Rightarrow> transport_parameters \<Rightarrow> unit endpoint_act" where
  "accept_client sv len addr header pk_bytes cookie_data remote_parameters = awith (\<lambda>e.
     let en = sv_env sv;
         (ephemeral_secret, ephemeral_public) = sv_keypair sv;
         shared = en_diffie_hellman en ephemeral_secret pk_bytes
     in
     abind (alift (ok_or ConnectionIdExhausted (choose_scid sv (ep_routing_table e)))) (\<lambda>scid.
     abind (alift (server_connection en addr scid header remote_parameters len shared (ep_psk e))) (\<lambda>(new_conn, handshake_pn).
     let actor = actor_new new_conn (ep_ed_public_key e) None None (ep_ed_public_key e) (ep_psk e) False scid False;
         t = length (ep_tasks e)
     in
     athen (amodify (register scid t)) (
     if \<not> sv_accept_room sv then amodify (unregister scid)
     else
       athen (amodify (\<lambda>e. e\<lparr>ep_accept_queue := ep_accept_queue e @ [scid]\<rparr>)) (
       athen (amodify (spawn en actor)) (
       abind (alift (handshake_response en e header pk_bytes cookie_data remote_parameters scid ephemeral_public handshake_pn)) (\<lambda>hs_bytes.
       athen (amodify (post t (SetHandshakePacket hs_bytes))) (
       endpoint_send sv addr hs_bytes))))))))"

text \<open>A request that could be read: retried without a valid cookie, dropped with a used one, else authenticated.\<close>

definition answer_initial ::
  "server_env \<Rightarrow> nat \<Rightarrow> socket_addr \<Rightarrow> packet_header \<Rightarrow> handshake_data \<Rightarrow> bytes option \<Rightarrow> transport_parameters \<Rightarrow> unit endpoint_act" where
  "answer_initial sv len addr header handshake cookie_data remote_parameters = awith (\<lambda>e.
     let en = sv_env sv in
     abind (alift (is_cookie_valid sv (ep_cookie_key e) addr (ph_scid header) cookie_data)) (\<lambda>valid.
     if \<not> valid then
       abind (alift (make_retry_cookie (sv_hmac sv) (ep_cookie_key e) addr (ph_scid header) (sv_clock sv))) (\<lambda>new_cookie.
       send_retry sv addr (ph_scid header) (ph_packet_number header) new_cookie)
     else
       let (pk_bytes, _, _, _, remote_alpn) = handshake;
           hmac = replay_cookie_hmac cookie_data
       in
       if remote_alpn \<noteq> en_alpn en then aerr (InvalidPacket ''ALPN negotiation failed'')
       else
         athen (amodify (clean_replay_filter sv)) (
         awith (\<lambda>e.
         if cookie_used hmac e then areturn ()
         else
           abind (alift (authenticate_client en header handshake cookie_data remote_parameters)) (\<lambda>_.
           abind (consume_cookie sv hmac) (\<lambda>fresh.
           if \<not> fresh then areturn ()
           else accept_client sv len addr header pk_bytes cookie_data remote_parameters))))))"

definition handle_handshake :: "server_env \<Rightarrow> bytes \<Rightarrow> socket_addr \<Rightarrow> unit endpoint_act" where
  "handle_handshake sv data addr =
     abind (alift (open_initial (sv_env sv) data)) (\<lambda>opened.
     case opened of
       None \<Rightarrow> areturn ()
     | Some (header, payload) \<Rightarrow>
         abind (alift (scan_initial payload None None None)) (\<lambda>(found, cookie_data, parameters).
         abind (alift (ok_or (InvalidPacket ''No handshake frame in Initial'') found)) (\<lambda>handshake.
         abind (alift (ok_or (InvalidPacket ''No transport parameters in Initial'') parameters)) (\<lambda>remote_parameters.
         answer_initial sv (length data) addr header handshake cookie_data remote_parameters))))"

end
