(* ===== verification/Zt_Agreement.thy ===== *)
theory Zt_Agreement
  imports Zt_Handshake
begin

text \<open>
  Client and server together: the packets of the two halves of the handshake fit each other, both sides
  end with mirrored keys, and what the server does with repeated or unproven requests.
\<close>

section \<open>The client's Initial packet\<close>

lemma sendmsg_result:
  assumes "sendmsg_vectored en data a = (b, r)"
  obtains calls wire blocked sent where "r \<noteq> Panic"
    and "b = a\<lparr>ac_calls := calls, ac_wire := wire, ac_socket_blocked := blocked,
           ac_state := (ac_state a)\<lparr>cn_bytes_sent := sent\<rparr>\<rparr>"
proof -
  have "r \<noteq> Panic \<and> (\<exists>calls wire blocked sent. b = a\<lparr>ac_calls := calls, ac_wire := wire, ac_socket_blocked := blocked,
           ac_state := (ac_state a)\<lparr>cn_bytes_sent := sent\<rparr>\<rparr>)"
    using assms
    by (cases a; cases "ac_state a")
       (auto simp: sendmsg_vectored_def try_send_to_def on_conn_def awith_def abind_def athen_def amodify_def aerr_def
         areturn_def Let_def split: if_splits option.splits prod.splits)
  then show ?thesis using that by blast
qed

lemma sendmsg_accepted:
  assumes "ac_is_client a" and "en_try_send en (ac_calls a) = None"
  shows "sendmsg_vectored en data a = (a\<lparr>ac_calls := ac_calls a + 1, ac_wire := ac_wire a @ [(cn_addr (ac_state a), data)],
    ac_state := (ac_state a)\<lparr>cn_bytes_sent := cn_bytes_sent (ac_state a) + length data\<rparr>\<rparr>, Ok ())"
  using assms by (simp add: sendmsg_vectored_def amplification_limit_reached_def try_send_to_def on_conn_def run_simps abind_def Let_def)

definition initial_header :: "zt_connection \<Rightarrow> nat \<Rightarrow> nat \<Rightarrow> packet_header" where
  "initial_header c pn pn_len =
     \<lparr>ph_type = Pt_Initial, ph_is_long = True, ph_version = PROTOCOL_VERSION, ph_dcid = cn_dcid c,
      ph_scid = cn_scid c, ph_packet_number = of_nat pn, ph_key_phase = False, ph_pn_len = pn_len\<rparr>"

definition padded_initial :: "env \<Rightarrow> actor \<Rightarrow> bytes \<Rightarrow> bytes option \<Rightarrow> nat \<Rightarrow> bytes" where
  "padded_initial en a signing_key cookie header_len =
     (let payload = initial_frames en a signing_key cookie; pad_len = 1200 - (header_len + length payload + 16)
      in if pad_len > 0 then payload @ encode (Padding pad_len) else payload)"

lemma crypto_initial_context:
  "crypto_initial cl dcid is_client = Ok (context_at cl (derive_initial_secret cl dcid) is_client 0)"
  by (simp add: crypto_initial_def context_at_0)

lemma send_initial_run:
  fixes a :: actor
  assumes "ac_ed_signing_key a = Some sk" and "cn_state (ac_state a) = Handshaking"
    and pn: "cn_next_packet_number (ac_state a) = pn" "pn + 1 < two64" "pn_len_for pn (ac_state a) = Ok pn_len"
    and "seal_packet (en_crypto en) (context_at (en_crypto en) (derive_initial_secret (en_crypto en) (cn_dcid (ac_state a))) True 0) pn
      (encode_header (initial_header (ac_state a) pn pn_len))
      (padded_initial en a sk cookie (length (encode_header (initial_header (ac_state a) pn pn_len)))) = Ok packet"
    and client: "ac_is_client a" "en_try_send en (ac_calls a) = None"
  obtains a' where "send_initial_packet en cookie a = (a', Ok ())" and "cn_handshake_packet (ac_state a') = Some packet"
    and "cn_cookie (ac_state a') = (case cookie of None \<Rightarrow> cn_cookie (ac_state a) | Some ck \<Rightarrow> Some ck)" and "cn_state (ac_state a') = Handshaking"
    and "cn_scid (ac_state a') = cn_scid (ac_state a)" and "cn_dcid (ac_state a') = cn_dcid (ac_state a)"
    and "cn_replay_window (ac_state a') = cn_replay_window (ac_state a)" and "ac_public_key a' = ac_public_key a"
    and "ac_ephemeral_secret a' = ac_ephemeral_secret a" and "ac_psk a' = ac_psk a" and "ac_is_client a' = ac_is_client a"
    and "ac_wire a' = ac_wire a @ [(cn_addr (ac_state a), packet)]" and "cn_unpaced_queue (ac_state a') = cn_unpaced_queue (ac_state a)"
    and "cn_bytes_in_flight (ac_state a') = cn_bytes_in_flight (ac_state a) + length packet"
proof -
  define a0 where "a0 = a\<lparr>ac_state := (ac_state a)\<lparr>cn_next_packet_number := pn + 1\<rparr>\<rparr>"
  define a1 where "a1 = a0\<lparr>ac_state := (ac_state a0)\<lparr>cn_cookie := (case cookie of None \<Rightarrow> cn_cookie (ac_state a) | Some ck \<Rightarrow> Some ck), cn_handshake_packet := Some packet\<rparr>\<rparr>"
  have ck: "(case cookie of None \<Rightarrow> areturn () | Some ck \<Rightarrow> on_conn (\<lambda>c. c\<lparr>cn_cookie := Some ck\<rparr>)) a0 =
      (a0\<lparr>ac_state := (ac_state a0)\<lparr>cn_cookie := (case cookie of None \<Rightarrow> cn_cookie (ac_state a) | Some ck \<Rightarrow> Some ck)\<rparr>\<rparr>, Ok ())"
    by (cases cookie) (simp_all add: run_simps on_conn_def a0_def)
  obtain b r where send: "sendmsg_vectored en packet a1 = (b, r)" by fastforce
  obtain calls wire blocked sent where "r \<noteq> Panic"
    and b: "b = a1\<lparr>ac_calls := calls, ac_wire := wire, ac_socket_blocked := blocked, ac_state := (ac_state a1)\<lparr>cn_bytes_sent := sent\<rparr>\<rparr>"
    by (rule sendmsg_result [OF send])
  define up where "up = \<lparr>up_payload = UpInitial cookie, up_sent_at = en_now en, up_retries = 0, up_is_mtu_probe = False,
    up_sent_bytes = length packet\<rparr>"
  have n: "next_packet_number a = (a0, Ok pn)"
    using pn(1,2) by (simp add: next_packet_number_def conn_call_def get_next_packet_number_def checked_add64_def
      run_simps on_conn_def a0_def Let_def)
  have c0: "pn_len_for pn (ac_state a0) = Ok pn_len" "cn_dcid (ac_state a0) = cn_dcid (ac_state a)" "cn_scid (ac_state a0) = cn_scid (ac_state a)"
    "ac_ed_signing_key a0 = Some sk" using pn(3) assms(1) by (simp_all add: a0_def pn_len_for_def lowest_unacked_def)
  have fr: "initial_frames en a0 sk cookie = initial_frames en a sk cookie" by (simp add: a0_def initial_frames_def)
  have "aignore (sendmsg_vectored en packet) a1 = (b, Ok ())" using send \<open>r \<noteq> Panic\<close> by (cases r) (simp_all add: run_simps)
  moreover have "cn_state (track_sent pn up (ac_state b)) = Handshaking"
    using assms(2) by (simp add: b a1_def a0_def track_sent_def)
  ultimately have run: "send_initial_packet en cookie a = (b\<lparr>ac_state := track_sent pn up (ac_state b)\<rparr>, Ok ())"
    using assms(6) unfolding send_initial_packet_def send_initial_packet_internal_def run_bind(1) [of next_packet_number a, OF n]
    by (simp add: run_simps ck c0 Let_def crypto_initial_context initial_header_def padded_initial_def on_conn_def fr
      a1_def [symmetric] up_def [symmetric] note_packet_sent_def)
  have "ac_wire b = ac_wire a1 @ [(cn_addr (ac_state a1), packet)]"
    using send sendmsg_accepted [of a1 en packet] client by (simp add: a1_def a0_def)
  then have "wire = ac_wire a @ [(cn_addr (ac_state a), packet)]" by (simp add: b a1_def a0_def)
  then show ?thesis
    by (intro that [OF run]) (use assms(2) in \<open>simp_all add: b a1_def a0_def track_sent_def up_def\<close>)
qed

section \<open>The server reads it\<close>

lemma sealed_length:
  assumes "wf_header h" and "aead_lengths cl" and "seal_packet cl crypto pn (encode_header h) payload = Ok packet"
  shows "length packet = length (encode_header h) + length payload + 16"
proof -
  obtain ct tag off where enc: "encrypt_in_place cl crypto pn (encode_header h) payload = Ok (ct, tag)"
    and "apply_header_protection cl (encode_header h @ ct @ tag) off (cx_tx_hp_key crypto) = Ok packet"
    by (rule seal_packetE [OF assms(1,3)])
  then have "length packet = length (encode_header h @ ct @ tag)" by (auto elim!: apply_header_protectionE)
  then show ?thesis using encrypted_lengths [OF assms(2) enc] by simp
qed

lemma open_initial_sealed:
  assumes en: "en_crypto en = cl" and "aead_sound cl" and "aead_lengths cl"
    and h: "wf_header h" "ph_is_long h" "ph_type h = Pt_Initial" "ph_version h = PROTOCOL_VERSION"
      "take_bit (8 * ph_pn_len h) (ph_packet_number h) = ph_packet_number h"
    and seal: "seal_packet cl (context_at cl (derive_initial_secret cl (ph_dcid h)) True 0) (unat (ph_packet_number h))
      (encode_header h) payload = Ok packet"
    and "1200 \<le> length packet"
  shows "open_initial en packet = Ok (Some (h, payload))"
proof -
  let ?s = "derive_initial_secret cl (ph_dcid h)"
  obtain ct tag off where enc: "encrypt_in_place cl (context_at cl ?s True 0) (unat (ph_packet_number h)) (encode_header h) payload = Ok (ct, tag)"
    and lay: "get_pn_offset packet = Some off" "extract_dcid_fast packet = Some (ph_dcid h)"
    and rm: "remove_header_protection cl packet off (cx_tx_hp_key (context_at cl ?s True 0)) = Ok (encode_header h @ ct @ tag)"
    by (rule seal_packetE [OF h(1) seal])
  have len: "length ct = length payload" "length tag = 16" using encrypted_lengths [OF assms(3) enc] by auto
  have dec: "decrypt_in_place cl (context_at cl ?s False 0) (unat (ph_packet_number h)) (encode_header h) ct tag False = Ok payload"
    using context_opens(1) [OF assms(2) _ enc] by simp
  have rx: "cx_rx_hp_key (context_at cl ?s False 0) = cx_tx_hp_key (context_at cl ?s True 0)"
    using hp_mirror [of cl ?s True 0 0] by simp
  have d: "decode_header (encode_header h @ ct @ tag) = Ok (h, ct @ tag)"
    using decode_encode_header [OF h(1), of "ct @ tag"] h(5) by simp
  show ?thesis
    using assms(10) h(2-4) len dec by (simp add: open_initial_def unprotect_initial_def decrypt_initial_def lay crypto_initial_context en rx rm d)
qed

text \<open>The frames of the Initial packet, and of the server's answer, in the order they are sent.\<close>

lemma scan_initial_frame:
  assumes "wf_frame f" and "delimited f rest"
  shows "scan_initial (encode f @ rest) hs ck tp =
    (case f of
       Handshake pk ed th sig alpn \<Rightarrow> scan_initial rest (Some (pk, ed, th, sig, alpn)) ck tp
     | Cookie c \<Rightarrow> scan_initial rest hs (Some c) tp
     | TransportParameters p \<Rightarrow> obind (validate_parameters p) (\<lambda>p.
         if tp \<noteq> None then Err (InvalidPacket ''duplicate transport parameters'') else scan_initial rest hs ck (Some p))
     | _ \<Rightarrow> scan_initial rest hs ck tp)"
  using decode_encode_frame [OF assms] encode_head [OF assms(1)]
  by (subst scan_initial.simps) (auto split: frame.splits)

lemma scan_handshake_frame:
  assumes "wf_frame f" and "delimited f rest"
  shows "scan_handshake (encode f @ rest) hs tp =
    (case f of
       Handshake pk ed th sig alpn \<Rightarrow> scan_handshake rest (Some (pk, ed, th, sig, alpn)) tp
     | TransportParameters p \<Rightarrow>
         if tp \<noteq> None then Err (InvalidPacket ''duplicate transport parameters'')
         else obind (validate_parameters p) (\<lambda>p. scan_handshake rest hs (Some p))
     | _ \<Rightarrow> scan_handshake rest hs tp)"
  using decode_encode_frame [OF assms] encode_head [OF assms(1)]
  by (subst scan_handshake.simps) (auto split: frame.splits)

text \<open>
  What the documentation of the primitives promises: what is sealed opens, authenticated encryption and the
  key stream do not fail within their limits, digests have 32 bytes and signatures 64.
\<close>

definition primitives_ok :: "env \<Rightarrow> bool" where
  "primitives_ok en \<longleftrightarrow> aead_sound (en_crypto en) \<and> aead_lengths (en_crypto en)
     \<and> crypto_available (en_crypto en)
     \<and> (\<forall>msg. length (en_sha256 en msg) = 32) \<and> (\<forall>key msg. length (en_sign en key msg) = 64)"

text \<open>The verifier accepts this identity: its signatures verify, and the application wants to talk to it.\<close>

definition trusts :: "env \<Rightarrow> env \<Rightarrow> bytes \<Rightarrow> bytes \<Rightarrow> bool" where
  "trusts en signer signing_key ed_public_key \<longleftrightarrow>
     length ed_public_key = 32 \<and> en_valid_key en ed_public_key \<and> verify_peer_key en ed_public_key
     \<and> (\<forall>msg. en_verify en ed_public_key msg (en_sign signer signing_key msg))"

definition client_hash :: "env \<Rightarrow> actor \<Rightarrow> bytes option \<Rightarrow> bytes" where
  "client_hash en a cookie = en_sha256 en (initial_transcript (cn_scid (ac_state a)) (cn_dcid (ac_state a)) (ac_public_key a) cookie
     (parameters_from_config (en_config en)))"

lemma scan_padded_initial:
  assumes "primitives_ok en" and "length (ac_public_key a) = 32" and "length (ac_ed_public_key a) = 32"
    and "length (en_alpn en) < 256" and "length ck < 65536"
    and "validate_parameters (parameters_from_config (en_config en)) = Ok (parameters_from_config (en_config en))"
  shows "scan_initial (padded_initial en a sk (Some ck) n) None None None =
    Ok (Some (ac_public_key a, ac_ed_public_key a, client_hash en a (Some ck), en_sign en sk (client_hash en a (Some ck)), en_alpn en),
        Some ck, Some (parameters_from_config (en_config en)))"
proof -
  let ?hs = "Handshake (ac_public_key a) (ac_ed_public_key a) (client_hash en a (Some ck))
    (en_sign en sk (client_hash en a (Some ck))) (en_alpn en)"
  have wf: "wf_frame ?hs" using assms(1-4) by (simp add: primitives_ok_def client_hash_def)
  have fr: "initial_frames en a sk (Some ck)
      = encode ?hs @ encode (TransportParameters (parameters_from_config (en_config en))) @ encode (Cookie ck)"
    by (simp only: initial_frames_def client_hash_def Let_def option.case)
  have nil: "scan_initial [] x y z = Ok (x, y, z)" for x y z by (simp add: scan_initial.simps)
  have pad: "scan_initial (encode (Padding k)) x y z = Ok (x, y, z)" if "0 < k" for x y z k
    using scan_initial_frame [of "Padding k" "[]" x y z] that by (simp add: nil)
  have ck: "scan_initial (encode (Cookie ck)) x None z = Ok (x, Some ck, z)" for x z
    using scan_initial_frame [of "Cookie ck" "[]" x None z] assms(5) by (simp add: nil)
  show ?thesis
    unfolding padded_initial_def Let_def fr using assms(5,6)
    by (simp add: scan_initial_frame wf pad ck del: encode.simps wf_frame.simps(4))
qed

section \<open>The server answers\<close>

definition server_actor :: "endpoint \<Rightarrow> zt_connection \<Rightarrow> bytes \<Rightarrow> actor" where
  "server_actor e c scid = actor_new c (ep_ed_public_key e) None None (ep_ed_public_key e) (ep_psk e) False scid False"

text \<open>The endpoint after a client was accepted.\<close>

definition client_accepted :: "server_env \<Rightarrow> socket_addr \<Rightarrow> bytes option \<Rightarrow> bytes \<Rightarrow> zt_connection \<Rightarrow> bytes \<Rightarrow> endpoint \<Rightarrow> endpoint" where
  "client_accepted sv addr hmac scid c response e =
     (let t = length (ep_tasks e);
          e = (case hmac of None \<Rightarrow> e
               | Some h \<Rightarrow> e\<lparr>ep_handshake_replay_filter := AList.update h (sv_clock sv) (ep_handshake_replay_filter e)\<rparr>)
      in e\<lparr>ep_routing_table := AList.update scid t (ep_routing_table e),
           ep_accept_queue := ep_accept_queue e @ [scid],
           ep_tasks := ep_tasks e @ [\<lparr>tk_loop = loop_start (sv_env sv) (server_actor e c scid),
             tk_mailbox = [SetHandshakePacket response]\<rparr>],
           ep_wire := (if sv_try_send sv = None then ep_wire e @ [(addr, response)] else ep_wire e)\<rparr>)"

lemma accept_client_run:
  assumes "choose_scid sv (ep_routing_table e) = Some scid" and "sv_accept_room sv"
    and "server_connection (sv_env sv) addr scid header tp len
      (en_diffie_hellman (sv_env sv) (fst (sv_keypair sv)) pk) (ep_psk e) = Ok (c, n)"
    and "handshake_response (sv_env sv) e header pk cookie tp scid (snd (sv_keypair sv)) n = Ok response"
  shows "accept_client sv len addr header pk cookie tp e = (client_accepted sv addr None scid c response e, Ok ())"
  using assms
  by (cases "sv_keypair sv")
     (simp add: accept_client_def run_simps Let_def register_def spawn_def post_def endpoint_send_def client_accepted_def
       server_actor_def)

lemma handle_handshake_run:
  assumes "open_initial (sv_env sv) data = Ok (Some (header, payload))"
    and "scan_initial payload None None None = Ok (Some (pk, ed, th, sig, en_alpn (sv_env sv)), Some ck, Some tp)"
    and "verify_retry_cookie (sv_hmac sv) (ep_cookie_key e) addr (ph_scid header) ck (sv_clock sv)
      (of_nat (cfg_cookie_max_age_ms (en_config (sv_env sv)))) = Ok True"
    and "e1 = clean_replay_filter sv e" and "\<not> cookie_used (replay_cookie_hmac (Some ck)) e1"
    and "authenticate_client (sv_env sv) header (pk, ed, th, sig, en_alpn (sv_env sv)) (Some ck) tp = Ok ()"
    and "choose_scid sv (ep_routing_table e) = Some scid" and "sv_accept_room sv"
    and "server_connection (sv_env sv) addr scid header tp (length data)
      (en_diffie_hellman (sv_env sv) (fst (sv_keypair sv)) pk) (ep_psk e) = Ok (c, n)"
    and "handshake_response (sv_env sv) e header pk (Some ck) tp scid (snd (sv_keypair sv)) n = Ok response"
  shows "handle_handshake sv data addr e = (client_accepted sv addr (replay_cookie_hmac (Some ck)) scid c response e1, Ok ())"
proof -
  let ?hmac = "replay_cookie_hmac (Some ck)"
  define e2 where "e2 = (case ?hmac of None \<Rightarrow> e1
    | Some h \<Rightarrow> e1\<lparr>ep_handshake_replay_filter := AList.update h (sv_clock sv) (ep_handshake_replay_filter e1)\<rparr>)"
  have e1: "ep_routing_table e1 = ep_routing_table e" "ep_psk e1 = ep_psk e" "ep_ed_public_key e1 = ep_ed_public_key e"
      "ep_ed_signing_key e1 = ep_ed_signing_key e" "ep_tasks e1 = ep_tasks e" 
    by (simp_all add: assms(4) clean_replay_filter_def)
  have e2: "ep_routing_table e2 = ep_routing_table e" "ep_psk e2 = ep_psk e" "ep_ed_public_key e2 = ep_ed_public_key e"
      "ep_ed_signing_key e2 = ep_ed_signing_key e"
    by (simp_all add: e2_def e1 split: option.splits)
  have "handshake_response (sv_env sv) e2 = handshake_response (sv_env sv) e"
    by (simp add: fun_eq_iff handshake_response_def response_frames_def e2)
  then have "accept_client sv (length data) addr header pk (Some ck) tp e2 = (client_accepted sv addr None scid c response e2, Ok ())"
    using assms(7-10) by (intro accept_client_run) (simp_all add: e2)
  moreover have "client_accepted sv addr None scid c response e2 = client_accepted sv addr ?hmac scid c response e1"
    by (simp add: client_accepted_def e2_def Let_def server_actor_def split: option.splits)
  moreover have "consume_cookie sv ?hmac e1 = (e2, Ok True)"
    using assms(5) by (auto simp: consume_cookie_def run_simps e2_def split: option.splits)
  ultimately show ?thesis
    using assms(1-3,5,6)
    by (simp add: handle_handshake_def answer_initial_def run_simps Let_def is_cookie_valid_def assms(4) [symmetric])
qed

lemma mark_processed_fields [simp]:
  "cn_scid (mark_processed now pn c) = cn_scid c" "cn_dcid (mark_processed now pn c) = cn_dcid c"
  "cn_addr (mark_processed now pn c) = cn_addr c" "cn_bytes_received (mark_processed now pn c) = cn_bytes_received c"
  "cn_peer_max_streams (mark_processed now pn c) = cn_peer_max_streams c" "cn_state (mark_processed now pn c) = cn_state c"
  "cn_remote_window (mark_processed now pn c) = cn_remote_window c" "cn_crypto (mark_processed now pn c) = cn_crypto c"
  "cn_peer_initial_stream_window (mark_processed now pn c) = cn_peer_initial_stream_window c"
  "cn_unpaced_queue (mark_processed now pn c) = cn_unpaced_queue c"
  by (simp_all add: mark_processed_def Let_def)

lemma server_connection_run:
  obtains c where "server_connection en addr scid header tp len shared psk = Ok (c, 0)"
    and "cn_crypto c = Some (context_at (en_crypto en) (derive_master_secret (en_crypto en) shared scid (ph_scid header) psk False) False 0)"
    and "cn_scid c = scid" and "cn_dcid c = ph_scid header" and "cn_addr c = addr" and "cn_state c = Handshaking"
    and "cn_bytes_received c = len"
    and "cn_peer_max_streams c = unat (tp_max_streams tp)" and "cn_remote_window c = unat (tp_initial_max_data tp)"
    and "cn_peer_initial_stream_window c = unat (tp_initial_stream_window tp)"
  by (simp add: server_connection_def get_next_packet_number_def connection_new_def checked_add64_def adopt_parameters_def
      from_shared_secret_def context_at_0 Let_def)

lemma seal_response_sealed:
  "seal_packet cl crypto pn aad payload = Ok packet \<Longrightarrow> seal_response cl crypto pn aad payload = Ok packet"
  by (auto simp: seal_packet_def seal_response_def Let_def obind_eq_Ok split: option.splits)

definition response_header :: "bytes \<Rightarrow> bytes \<Rightarrow> packet_header" where
  "response_header client_scid scid =
     \<lparr>ph_type = Pt_Handshake, ph_is_long = True, ph_version = PROTOCOL_VERSION, ph_dcid = client_scid,
      ph_scid = scid, ph_packet_number = 0, ph_key_phase = False, ph_pn_len = 1\<rparr>"

lemma response_frames_length:
  assumes "primitives_ok en" and "length public = 32" and "length (ep_ed_public_key e) = 32" and "length (en_alpn en) < 256"
  shows "4 \<le> length (response_frames en e header pk cookie tp scid public) \<and> length (response_frames en e header pk cookie tp scid public) < 2 ^ 32"
  using assms
  by (simp add: response_frames_def primitives_ok_def Let_def put_len16_def)

lemma handshake_response_run:
  assumes prim: "primitives_ok en" and "length (ph_scid header) < 256" and "length scid < 256"
    and "length public = 32" and "length (ep_ed_public_key e) = 32" and "length (en_alpn en) < 256"
    and "maskable (en_crypto en) (context_at (en_crypto en) (derive_initial_secret (en_crypto en) (ph_scid header)) False 0) 0
      (encode_header (response_header (ph_scid header) scid)) (response_frames en e header pk cookie tp scid public)"
  obtains response where "handshake_response en e header pk cookie tp scid public 0 = Ok response"
    and "seal_packet (en_crypto en) (context_at (en_crypto en) (derive_initial_secret (en_crypto en) (ph_scid header)) False 0) 0
      (encode_header (response_header (ph_scid header) scid)) (response_frames en e header pk cookie tp scid public) = Ok response"
proof -
  let ?h = "response_header (ph_scid header) scid" and ?pl = "response_frames en e header pk cookie tp scid public"
  let ?ctx = "context_at (en_crypto en) (derive_initial_secret (en_crypto en) (ph_scid header)) False 0"
  have wf: "wf_header ?h" using assms(2,3) by (simp add: wf_header_def response_header_def)
  have lib: "aead_lengths (en_crypto en)" "crypto_available (en_crypto en)" using prim by (simp_all add: primitives_ok_def)
  note len = response_frames_length [OF prim assms(4-6), of header pk cookie tp scid]
  have "4 \<le> length ?pl + ph_pn_len ?h" using len by simp
  then obtain response where r: "seal_packet (en_crypto en) ?ctx 0 (encode_header ?h) ?pl = Ok response"
    using seal_packet_total [OF wf lib conjunct2 [OF len] assms(7)] by blast
  have "handshake_response en e header pk cookie tp scid public 0 = Ok response"
    using seal_response_sealed [OF r] by (simp add: handshake_response_def crypto_initial_context response_header_def)
  with r show ?thesis by (rule that [rotated])
qed

section \<open>The client completes\<close>

text \<open>Header protection leaves the upper half of the first byte of a long header alone.\<close>

lemma protected_long_not_retry:
  assumes "wf_header h" and "ph_is_long h" and "ph_type h \<noteq> Pt_Retry"
    and "seal_packet cl crypto pn (encode_header h) payload = Ok packet"
  shows "drop_bit 2 (packet ! 0) AND 0x0F \<noteq> (0x0C :: u8)"
proof -
  obtain ct tag off where off: "get_pn_offset packet = Some off"
    and ap: "apply_header_protection cl (encode_header h @ ct @ tag) off (cx_tx_hp_key crypto) = Ok packet"
    by (rule seal_packetE [OF assms(1,4)])
  let ?p = "encode_header h @ ct @ tag"
  obtain m where len: "off + 20 \<le> length ?p"
    and p': "packet = xor_pn off m (unat (?p ! 0 AND 0x03) + 1) (?p[0 := ?p ! 0 XOR first_mask m (?p ! 0)])"
    by (rule apply_header_protectionE [OF ap])
  have "0 < off" using off by (auto simp: get_pn_offset_def Let_def split: if_splits)
  then have p0: "packet ! 0 = ?p ! 0 XOR first_mask m (?p ! 0)" unfolding p' using nth_protected_0 [OF _ len] by simp
  have pb: "?p ! 0 = first_byte_long (ph_type h) (clamp_pn_len (ph_pn_len h))" using assms(2) by (simp add: encode_header_def Let_def)
  have long: "?p ! 0 AND 0x80 \<noteq> 0" using encoded_layout(5) [OF assms(1), of ?p "ct @ tag"] assms(2) by simp
  have "\<not> bit (first_mask m (?p ! 0)) 4" using first_mask_bits [of m "?p ! 0" 4] long by auto
  moreover have "\<not> bit (?p ! 0) 4"
  proof -
    have n: "1 \<le> ph_pn_len h" "ph_pn_len h \<le> 4" and t: "ph_type h \<in> {Pt_Initial, Pt_Handshake}"
      using assms(1-3) by (auto simp: wf_header_def)
    show ?thesis unfolding pb using pn_len_cases [OF n] t by (auto simp: first_byte_long_def clamp_pn_len_def)
  qed
  ultimately have "\<not> bit (packet ! 0) 4" by (simp add: p0 bit_xor_iff)
  then have "\<not> bit (drop_bit 2 (packet ! 0) AND 0x0F) 2" by (simp add: bit_and_iff bit_drop_bit_eq)
  moreover have "bit (0x0C :: u8) 2" by simp
  ultimately show ?thesis by metis
qed

definition server_hash :: "env \<Rightarrow> packet_header \<Rightarrow> bytes \<Rightarrow> bytes option \<Rightarrow> transport_parameters \<Rightarrow> bytes \<Rightarrow> bytes \<Rightarrow> bytes" where
  "server_hash en header pk cookie tp scid public =
     en_sha256 en (server_transcript (ph_scid header) (ph_dcid header) pk cookie tp scid public (parameters_from_config (en_config en)))"

lemma scan_response:
  assumes "primitives_ok en" and "length public = 32" and "length (ep_ed_public_key e) = 32" and "length (en_alpn en) < 256"
    and "validate_parameters (parameters_from_config (en_config en)) = Ok (parameters_from_config (en_config en))"
  shows "scan_handshake (response_frames en e header pk cookie tp scid public) None None =
    Ok (Some (public, ep_ed_public_key e, server_hash en header pk cookie tp scid public,
          en_sign en (ep_ed_signing_key e) (server_hash en header pk cookie tp scid public), en_alpn en),
        Some (parameters_from_config (en_config en)))"
proof -
  let ?th = "server_hash en header pk cookie tp scid public"
  let ?hs = "Handshake public (ep_ed_public_key e) ?th (en_sign en (ep_ed_signing_key e) ?th) (en_alpn en)"
  have wf: "wf_frame ?hs" using assms(1-4) by (simp add: primitives_ok_def server_hash_def)
  have fr: "response_frames en e header pk cookie tp scid public
      = encode ?hs @ encode (TransportParameters (parameters_from_config (en_config en)))"
    by (simp only: response_frames_def server_hash_def Let_def)
  have nil: "scan_handshake [] x y = Ok (x, y)" for x y by (simp add: scan_handshake.simps)
  have "scan_handshake (encode (TransportParameters (parameters_from_config (en_config en)))) x None
      = Ok (x, Some (parameters_from_config (en_config en)))" for x
    using scan_handshake_frame [of "TransportParameters (parameters_from_config (en_config en))" "[]" x None] assms(5)
    by (simp add: nil)
  then show ?thesis
    unfolding fr by (simp add: scan_handshake_frame wf del: encode.simps wf_frame.simps(4))
qed

text \<open>A Handshake packet, up to the point where the client looks at its payload.\<close>

lemma client_opens_response:
  assumes en: "en_crypto en = cl" and "aead_sound cl" and "aead_lengths cl"
    and a: "cn_state (ac_state a) = Handshaking" "highest_processed (ac_state a) = 0" "\<not> connection_is_replay (ac_state a) 0"
    and h: "h = response_header client_scid scid" "length client_scid < 256" "length scid < 256"
    and seal: "seal_packet cl (context_at cl (derive_initial_secret cl client_scid) False 0) 0 (encode_header h) payload = Ok packet"
  shows "process_incoming_packet en packet addr a =
    abind (alift (scan_handshake payload None None)) (\<lambda>found.
      awith (\<lambda>a.
      abind (alift (check_handshake en a scid found)) (\<lambda>(pk_bytes, remote_parameters).
      case ac_ephemeral_secret a of
        None \<Rightarrow> aerr (Crypto ''Ephemeral secret already consumed'')
      | Some secret \<Rightarrow>
          athen (amodify (\<lambda>a. a\<lparr>ac_ephemeral_secret := None\<rparr>)) (
          abind (alift (from_shared_secret cl (en_diffie_hellman en secret pk_bytes) (cn_scid (ac_state a)) scid (ac_psk a) True)) (\<lambda>crypto.
          amodify (establish en crypto 0 scid remote_parameters addr)))))) (received (length packet) a)"
proof -
  let ?s = "derive_initial_secret cl client_scid" and ?a = "received (length packet) a"
  have wf: "wf_header h" "ph_is_long h" "ph_type h \<noteq> Pt_Retry" using h by (simp_all add: wf_header_def response_header_def)
  obtain ct tag off where enc: "encrypt_in_place cl (context_at cl ?s False 0) 0 (encode_header h) payload = Ok (ct, tag)"
    and lay: "get_pn_offset packet = Some off" "extract_dcid_fast packet = Some (ph_dcid h)"
      "packet \<noteq> []" "packet ! 0 AND 0x80 = 0 \<longleftrightarrow> \<not> ph_is_long h"
    and rm: "remove_header_protection cl packet off (cx_tx_hp_key (context_at cl ?s False 0)) = Ok (encode_header h @ ct @ tag)"
    by (rule seal_packetE [OF wf(1) seal])
  have len: "length tag = 16" using encrypted_lengths [OF assms(3) enc] by auto
  have dec: "decrypt_in_place cl (context_at cl ?s True 0) 0 (encode_header h) ct tag False = Ok payload"
    using context_opens(1) [OF assms(2) _ enc] by simp
  have rx: "cx_rx_hp_key (context_at cl ?s True 0) = cx_tx_hp_key (context_at cl ?s False 0)"
    using hp_mirror [of cl ?s False 0 0] by simp
  have nr: "drop_bit 2 (packet ! 0) AND 0x0F \<noteq> (0x0C :: u8)" by (rule protected_long_not_retry [OF wf seal])
  have un: "unprotect_packet en (ac_state ?a) packet = Ok (encode_header h @ ct @ tag)"
    using lay nr wf(2) by (simp add: unprotect_packet_def is_short_header_def crypto_initial_context en rx rm h(1) response_header_def)
  have "expand_pn 0 (Suc 0) 0 = 0" by (simp add: expand_pn_def Let_def saturating_add_def checked_add_def word_le_nat_alt)
  moreover have hf: "ph_type h = Pt_Handshake" "ph_packet_number h = 0" "ph_pn_len h = 1" "ph_version h = PROTOCOL_VERSION"
    "ph_dcid h = client_scid" "ph_scid h = scid" by (simp_all add: h(1) response_header_def)
  moreover have hz: "h\<lparr>ph_packet_number := 0\<rparr> = h" by (simp add: h(1) response_header_def)
  ultimately have "process_incoming_packet en packet addr a
      = handle_handshake_response en h (ct @ tag) (encode_header h) addr ?a"
    using a unfolding process_incoming_packet_def on_conn_def run_simps received_def [symmetric] un split_encoded [OF wf(1)]
    by (simp add: Let_def hz)
  also have "\<dots> = abind (alift (decrypt_in_place cl (context_at cl ?s True 0) 0 (encode_header h) ct tag False)) (\<lambda>plain.
      abind (alift (scan_handshake plain None None)) (\<lambda>found.
      awith (\<lambda>a.
      abind (alift (check_handshake en a scid found)) (\<lambda>(pk_bytes, remote_parameters).
      case ac_ephemeral_secret a of
        None \<Rightarrow> aerr (Crypto ''Ephemeral secret already consumed'')
      | Some secret \<Rightarrow>
          athen (amodify (\<lambda>a. a\<lparr>ac_ephemeral_secret := None\<rparr>)) (
          abind (alift (from_shared_secret cl (en_diffie_hellman en secret pk_bytes) (cn_scid (ac_state a)) scid (ac_psk a) True)) (\<lambda>crypto.
          amodify (establish en crypto 0 scid remote_parameters addr))))))) ?a"
    using len unfolding handle_handshake_response_def crypto_initial_context hf en run_atomic unsigned_0 Let_def by simp
  finally show ?thesis unfolding dec run_atomic .
qed

section \<open>Both together\<close>

lemma received_identity [simp]:
  "cn_scid (ac_state (received len a)) = cn_scid (ac_state a)" "cn_dcid (ac_state (received len a)) = cn_dcid (ac_state a)"
  "cn_cookie (ac_state (received len a)) = cn_cookie (ac_state a)" "ac_public_key (received len a) = ac_public_key a"
  "ac_ephemeral_secret (received len a) = ac_ephemeral_secret a" "ac_psk (received len a) = ac_psk a"
  by (simp_all add: received_def)

text \<open>
  What an established connection has agreed on: mirrored keys from one master secret, each other's
  connection ids, and the limits each side announced.
\<close>

definition agree :: "crypto_lib \<Rightarrow> zt_config \<Rightarrow> zt_config \<Rightarrow> zt_connection \<Rightarrow> zt_connection \<Rightarrow> bool" where
  "agree cl client_config server_config client server \<longleftrightarrow>
     (\<exists>s. cn_crypto client = Some (context_at cl s True 0) \<and> cn_crypto server = Some (context_at cl s False 0))
     \<and> cn_dcid client = cn_scid server \<and> cn_dcid server = cn_scid client
     \<and> cn_peer_max_streams client = cfg_max_concurrent_streams server_config
     \<and> cn_peer_max_streams server = cfg_max_concurrent_streams client_config
     \<and> cn_remote_window client = cfg_initial_max_data server_config
     \<and> cn_remote_window server = cfg_initial_max_data client_config
     \<and> cn_peer_initial_stream_window client = cfg_initial_stream_window server_config
     \<and> cn_peer_initial_stream_window server = cfg_initial_stream_window client_config"

definition config_valid :: "zt_config \<Rightarrow> bool" where
  "config_valid cfg \<longleftrightarrow> validate_config cfg = Ok () \<and> cfg_initial_stream_window cfg \<le> u64_max"

lemma config_valid_parameters:
  assumes "config_valid cfg"
  shows "validate_parameters (parameters_from_config cfg) = Ok (parameters_from_config cfg)"
    and "unat (tp_max_streams (parameters_from_config cfg)) = cfg_max_concurrent_streams cfg"
    and "unat (tp_initial_stream_window (parameters_from_config cfg)) = cfg_initial_stream_window cfg"
    and "unat (tp_initial_max_data (parameters_from_config cfg)) = cfg_initial_max_data cfg"
  using assms parameters_from_valid_config [of cfg] by (simp_all add: config_valid_def)

text \<open>A client that is about to ask, and a server willing to answer it under the identifier \<open>scid\<close>.\<close>

definition client_ready :: "env \<Rightarrow> bytes \<Rightarrow> bytes \<Rightarrow> actor \<Rightarrow> bool" where
  "client_ready en signing_key secret a \<longleftrightarrow>
     ac_is_client a \<and> cn_state (ac_state a) = Handshaking \<and> cn_next_packet_number (ac_state a) < 256
     \<and> highest_processed (ac_state a) = 0 \<and> \<not> connection_is_replay (ac_state a) 0
     \<and> length (cn_scid (ac_state a)) < 256 \<and> length (cn_dcid (ac_state a)) < 256
     \<and> ac_ed_signing_key a = Some signing_key \<and> ac_ephemeral_secret a = Some secret
     \<and> length (ac_public_key a) = 32 \<and> length (ac_ed_public_key a) = 32
     \<and> en_try_send en (ac_calls a) = None"

definition server_ready :: "server_env \<Rightarrow> socket_addr \<Rightarrow> bytes \<Rightarrow> bytes \<Rightarrow> bytes \<Rightarrow> endpoint \<Rightarrow> bool" where
  "server_ready sv addr client_scid ck scid e \<longleftrightarrow>
     verify_retry_cookie (sv_hmac sv) (ep_cookie_key e) addr client_scid ck (sv_clock sv)
       (of_nat (cfg_cookie_max_age_ms (en_config (sv_env sv)))) = Ok True
     \<and> \<not> cookie_used (replay_cookie_hmac (Some ck)) (clean_replay_filter sv e)
     \<and> choose_scid sv (ep_routing_table e) = Some scid \<and> length scid < 256 \<and> sv_accept_room sv
     \<and> sv_try_send sv = None \<and> length (snd (sv_keypair sv)) = 32 \<and> length (ep_ed_public_key e) = 32"

text \<open>The masks of the client's request and of the server's answer lie within the key stream.\<close>

definition request_maskable :: "env \<Rightarrow> bytes \<Rightarrow> bytes option \<Rightarrow> actor \<Rightarrow> bool" where
  "request_maskable en signing_key cookie a \<longleftrightarrow>
     (let cl = en_crypto en; c = ac_state a; pn = cn_next_packet_number c in
      \<forall>pn_len. pn_len_for pn c = Ok pn_len \<longrightarrow>
        maskable cl (context_at cl (derive_initial_secret cl (cn_dcid c)) True 0) pn (encode_header (initial_header c pn pn_len))
          (padded_initial en a signing_key cookie (length (encode_header (initial_header c pn pn_len)))))"

definition response_maskable :: "server_env \<Rightarrow> endpoint \<Rightarrow> env \<Rightarrow> actor \<Rightarrow> bytes \<Rightarrow> bytes \<Rightarrow> bool" where
  "response_maskable sv e en a ck scid \<longleftrightarrow>
     (let cl = en_crypto (sv_env sv); c = ac_state a in
      maskable cl (context_at cl (derive_initial_secret cl (cn_scid c)) False 0) 0 (encode_header (response_header (cn_scid c) scid))
        (response_frames (sv_env sv) e (initial_header c (cn_next_packet_number c) 1) (ac_public_key a) (Some ck)
          (parameters_from_config (en_config en)) scid (snd (sv_keypair sv))))"

lemma initial_frames_length:
  assumes "primitives_ok en" and "client_ready en sk secret a" and "length (en_alpn en) < 256" and "length (case cookie of None \<Rightarrow> [] | Some ck \<Rightarrow> ck) < 65536"
  shows "37 \<le> length (initial_frames en a sk cookie) \<and> length (initial_frames en a sk cookie) < 70000"
  using assms
  by (cases cookie) (simp_all add: initial_frames_def client_ready_def primitives_ok_def put_len16_def Let_def)

lemma initial_sealed:
  fixes a :: actor
  assumes prim: "primitives_ok en" and ready: "client_ready en sk secret a" and alpn: "length (en_alpn en) < 256"
    and ck: "length (case cookie of None \<Rightarrow> [] | Some ck \<Rightarrow> ck) < 65536" and mask: "request_maskable en sk cookie a"
    and pn: "pn = cn_next_packet_number (ac_state a)"
  obtains pn_len packet where "pn_len_for pn (ac_state a) = Ok pn_len" and "wf_header (initial_header (ac_state a) pn pn_len)"
    and "take_bit (8 * pn_len) (of_nat pn :: u64) = of_nat pn"
    and "seal_packet (en_crypto en) (context_at (en_crypto en) (derive_initial_secret (en_crypto en) (cn_dcid (ac_state a))) True 0) pn
      (encode_header (initial_header (ac_state a) pn pn_len))
      (padded_initial en a sk cookie (length (encode_header (initial_header (ac_state a) pn pn_len)))) = Ok packet"
    and "1200 \<le> length packet"
proof -
  let ?c = "ac_state a"
  have small: "pn < 256" "length (cn_dcid ?c) < 256" "length (cn_scid ?c) < 256" using ready by (simp_all add: client_ready_def pn)
  then have "unat (of_nat pn :: u64) - unat (of_nat (lowest_unacked pn ?c - 1) :: u64) < 2 ^ 63"
    by (simp add: unat_of_nat)
  then obtain t pn_len where tr: "truncate_pn (of_nat pn) (of_nat (lowest_unacked pn ?c - 1)) = Ok (t, pn_len)"
    using truncate_pn_total by blast
  then have n: "1 \<le> pn_len" "pn_len \<le> 4" and pl: "pn_len_for pn ?c = Ok pn_len"
    using truncate_pn_len_bounds by (auto simp: pn_len_for_def)
  let ?h = "initial_header ?c pn pn_len"
  let ?p = "padded_initial en a sk cookie (length (encode_header ?h))"
  have wf: "wf_header ?h" using n small by (simp add: wf_header_def initial_header_def)
  have "(256 :: nat) \<le> 2 ^ (8 * pn_len)" using power_increasing [of 8 "8 * pn_len" "2 :: nat"] n by simp
  then have tb: "take_bit (8 * pn_len) (of_nat pn :: u64) = of_nat pn"
    using small(1) by (simp add: take_bit_of_nat take_bit_nat_eq_self)
  have long: "1184 \<le> length (encode_header ?h) + length ?p" by (simp add: padded_initial_def Let_def)
  note fl = initial_frames_length [OF prim ready alpn ck]
  have short: "length ?p < 2 ^ 32" using fl unfolding padded_initial_def Let_def by (simp, linarith)
  moreover have "4 \<le> length ?p + ph_pn_len ?h" using fl unfolding padded_initial_def Let_def by (simp, linarith)
  moreover have "aead_lengths (en_crypto en)" "crypto_available (en_crypto en)" using prim by (simp_all add: primitives_ok_def)
  moreover have "maskable (en_crypto en) (context_at (en_crypto en) (derive_initial_secret (en_crypto en) (cn_dcid ?c)) True 0) pn (encode_header ?h) ?p"
    using mask pl by (simp add: request_maskable_def pn Let_def)
  ultimately obtain packet where seal: "seal_packet (en_crypto en)
      (context_at (en_crypto en) (derive_initial_secret (en_crypto en) (cn_dcid ?c)) True 0) pn (encode_header ?h) ?p = Ok packet"
    using seal_packet_total [OF wf] by blast
  have "1200 \<le> length packet"
    using sealed_length [OF wf _ seal] long prim by (simp add: primitives_ok_def)
  then show ?thesis by (rule that [OF pl wf tb seal])
qed

text \<open>The request presents this cookie.\<close>

definition carries :: "env \<Rightarrow> bytes \<Rightarrow> bytes \<Rightarrow> bool" where
  "carries en data ck \<longleftrightarrow> (\<exists>header payload hs tp. open_initial en data = Ok (Some (header, payload))
     \<and> scan_initial payload None None None = Ok (Some hs, Some ck, Some tp))"

lemma server_side:
  fixes a :: actor
  assumes prim: "primitives_ok en" "primitives_ok (sv_env sv)"
    and lib: "en_crypto (sv_env sv) = en_crypto en" "en_sha256 (sv_env sv) = en_sha256 en" "en_alpn (sv_env sv) = en_alpn en"
      "length (en_alpn en) < 256"
    and cfg: "config_valid (en_config en)" and ready: "client_ready en sk secret a" "server_ready sv addr (cn_scid (ac_state a)) ck scid e"
    and trust: "trusts (sv_env sv) en sk (ac_ed_public_key a)" and mask: "response_maskable sv e en a ck scid"
    and h: "h = initial_header (ac_state a) pn pn_len" "wf_header h" "take_bit (8 * pn_len) (of_nat pn :: u64) = of_nat pn" "pn < 256"
    and seal: "seal_packet (en_crypto en) (context_at (en_crypto en) (derive_initial_secret (en_crypto en) (cn_dcid (ac_state a))) True 0) pn
      (encode_header h) (padded_initial en a sk (Some ck) (length (encode_header h))) = Ok data" "1200 \<le> length data"
  obtains c response where "handle_handshake sv data addr e =
      (client_accepted sv addr (replay_cookie_hmac (Some ck)) scid c response (clean_replay_filter sv e), Ok ())"
    and "seal_packet (en_crypto en) (context_at (en_crypto en) (derive_initial_secret (en_crypto en) (cn_scid (ac_state a))) False 0) 0
      (encode_header (response_header (cn_scid (ac_state a)) scid))
      (response_frames (sv_env sv) e h (ac_public_key a) (Some ck) (parameters_from_config (en_config en)) scid (snd (sv_keypair sv))) = Ok response"
    and "cn_crypto c = Some (context_at (en_crypto en) (derive_master_secret (en_crypto en)
      (en_diffie_hellman (sv_env sv) (fst (sv_keypair sv)) (ac_public_key a)) scid (cn_scid (ac_state a)) (ep_psk e) False) False 0)"
    and "cn_scid c = scid" and "cn_dcid c = cn_scid (ac_state a)"
    and "cn_peer_max_streams c = cfg_max_concurrent_streams (en_config en)" and "cn_remote_window c = cfg_initial_max_data (en_config en)"
    and "cn_peer_initial_stream_window c = cfg_initial_stream_window (en_config en)" and "carries (sv_env sv) data ck"
    and "open_initial (sv_env sv) data = Ok (Some (h, padded_initial en a sk (Some ck) (length (encode_header h))))"
proof -
  let ?tp = "parameters_from_config (en_config en)" and ?sv = "sv_env sv"
  have hf: "ph_is_long h" "ph_type h = Pt_Initial" "ph_version h = PROTOCOL_VERSION" "ph_dcid h = cn_dcid (ac_state a)"
    "ph_scid h = cn_scid (ac_state a)" "ph_packet_number h = of_nat pn" "ph_pn_len h = pn_len"
    by (simp_all add: h(1) initial_header_def)
  have pn: "unat (of_nat pn :: u64) = pn" using h(4) by (simp add: unat_of_nat)
  have opn: "open_initial ?sv data = Ok (Some (h, padded_initial en a sk (Some ck) (length (encode_header h))))"
    using prim(1) h(2,3) hf seal pn by (intro open_initial_sealed [OF lib(1)]) (simp_all add: primitives_ok_def)
  have len40: "length ck = 40" using ready(2) by (auto simp: server_ready_def verify_retry_cookie_def split: if_splits)
  have scan: "scan_initial (padded_initial en a sk (Some ck) (length (encode_header h))) None None None =
    Ok (Some (ac_public_key a, ac_ed_public_key a, client_hash en a (Some ck), en_sign en sk (client_hash en a (Some ck)), en_alpn ?sv),
        Some ck, Some ?tp)"
    using scan_padded_initial [OF prim(1), of a ck sk "length (encode_header h)"] ready(1) lib config_valid_parameters(1) [OF cfg] len40
    by (simp add: client_ready_def)
  have auth: "authenticate_client ?sv h (ac_public_key a, ac_ed_public_key a, client_hash en a (Some ck),
      en_sign en sk (client_hash en a (Some ck)), en_alpn ?sv) (Some ck) ?tp = Ok ()"
    using trust by (simp add: authenticate_client_def trusts_def client_hash_def hf lib)
  obtain c where c: "server_connection ?sv addr scid h ?tp (length data)
      (en_diffie_hellman ?sv (fst (sv_keypair sv)) (ac_public_key a)) (ep_psk e) = Ok (c, 0)"
    and cf: "cn_crypto c = Some (context_at (en_crypto ?sv) (derive_master_secret (en_crypto ?sv)
      (en_diffie_hellman ?sv (fst (sv_keypair sv)) (ac_public_key a)) scid (ph_scid h) (ep_psk e) False) False 0)"
      "cn_scid c = scid" "cn_dcid c = ph_scid h" "cn_peer_max_streams c = unat (tp_max_streams ?tp)"
      "cn_remote_window c = unat (tp_initial_max_data ?tp)" "cn_peer_initial_stream_window c = unat (tp_initial_stream_window ?tp)"
    by (rule server_connection_run)
  have lens: "length (ph_scid h) < 256" "length scid < 256" "length (snd (sv_keypair sv)) = 32" "length (ep_ed_public_key e) = 32"
    using ready by (simp_all add: hf client_ready_def server_ready_def)
  have alpn: "length (en_alpn ?sv) < 256" using lib by simp
  have "maskable (en_crypto ?sv) (context_at (en_crypto ?sv) (derive_initial_secret (en_crypto ?sv) (ph_scid h)) False 0) 0
      (encode_header (response_header (ph_scid h) scid)) (response_frames ?sv e h (ac_public_key a) (Some ck) ?tp scid (snd (sv_keypair sv)))"
    using mask by (simp add: response_maskable_def response_frames_def h(1) initial_header_def Let_def)
  then obtain response where r: "handshake_response ?sv e h (ac_public_key a) (Some ck) ?tp scid (snd (sv_keypair sv)) 0 = Ok response"
    and rs: "seal_packet (en_crypto ?sv) (context_at (en_crypto ?sv) (derive_initial_secret (en_crypto ?sv) (ph_scid h)) False 0) 0
      (encode_header (response_header (ph_scid h) scid))
      (response_frames ?sv e h (ac_public_key a) (Some ck) ?tp scid (snd (sv_keypair sv))) = Ok response"
    by (rule handshake_response_run [OF prim(2) lens alpn])
  have "handle_handshake sv data addr e =
      (client_accepted sv addr (replay_cookie_hmac (Some ck)) scid c response (clean_replay_filter sv e), Ok ())"
    using ready(2) by (intro handle_handshake_run [OF opn scan _ refl _ auth _ _ c r]) (simp_all add: server_ready_def hf)
  from that [OF this] rs cf show ?thesis using opn scan by (simp add: hf lib config_valid_parameters [OF cfg] carries_def)
qed

lemma client_side:
  fixes a :: actor
  assumes prim: "primitives_ok en" "primitives_ok sen"
    and lib: "en_crypto sen = en_crypto en" "en_sha256 sen = en_sha256 en" "en_alpn sen = en_alpn en" "length (en_alpn en) < 256"
    and cfg: "config_valid (en_config sen)"
    and a: "cn_state (ac_state a) = Handshaking" "highest_processed (ac_state a) = 0" "\<not> connection_is_replay (ac_state a) 0"
      "length (cn_scid (ac_state a)) < 256" "ac_ephemeral_secret a = Some secret" "cn_cookie (ac_state a) = Some ck"
    and trust: "trusts en sen (ep_ed_signing_key e) (ep_ed_public_key e)" and len: "length public = 32" "length scid < 256"
    and h: "ph_scid h = cn_scid (ac_state a)" "ph_dcid h = cn_dcid (ac_state a)"
    and seal: "seal_packet (en_crypto en) (context_at (en_crypto en) (derive_initial_secret (en_crypto en) (cn_scid (ac_state a))) False 0) 0
      (encode_header (response_header (cn_scid (ac_state a)) scid))
      (response_frames sen e h (ac_public_key a) (Some ck) (parameters_from_config (en_config en)) scid public) = Ok response"
  obtains a' where "process_incoming_packet en response addr a = (a', Ok ())" and "cn_state (ac_state a') = Active"
    and "cn_crypto (ac_state a') = Some (context_at (en_crypto en) (derive_master_secret (en_crypto en)
      (en_diffie_hellman en secret public) (cn_scid (ac_state a)) scid (ac_psk a) True) True 0)"
    and "cn_scid (ac_state a') = cn_scid (ac_state a)" and "cn_dcid (ac_state a') = scid" and "cn_addr (ac_state a') = addr"
    and "cn_peer_max_streams (ac_state a') = cfg_max_concurrent_streams (en_config sen)"
    and "cn_remote_window (ac_state a') = cfg_initial_max_data (en_config sen)"
    and "cn_peer_initial_stream_window (ac_state a') = cfg_initial_stream_window (en_config sen)"
    and "cn_unpaced_queue (ac_state a') = cn_unpaced_queue (ac_state a)"
proof -
  let ?a = "received (length response) a" and ?tp = "parameters_from_config (en_config sen)"
  let ?th = "server_hash sen h (ac_public_key a) (Some ck) (parameters_from_config (en_config en)) scid public"
  note ps = config_valid_parameters [OF cfg]
  have scan: "scan_handshake (response_frames sen e h (ac_public_key a) (Some ck) (parameters_from_config (en_config en)) scid public) None None
      = Ok (Some (public, ep_ed_public_key e, ?th, en_sign sen (ep_ed_signing_key e) ?th, en_alpn sen), Some ?tp)"
    using trust by (intro scan_response [OF prim(2) len(1) _ _ ps(1)]) (simp_all add: trusts_def lib)
  have check: "check_handshake en ?a scid (Some (public, ep_ed_public_key e, ?th, en_sign sen (ep_ed_signing_key e) ?th, en_alpn sen), Some ?tp)
      = Ok (public, ?tp)"
    using trust a(6) by (simp add: check_handshake_def trusts_def lib server_hash_def h Let_def)
  have shared: "from_shared_secret (en_crypto en) (en_diffie_hellman en secret public) (cn_scid (ac_state a)) scid (ac_psk a) True
      = Ok (context_at (en_crypto en) (derive_master_secret (en_crypto en)
        (en_diffie_hellman en secret public) (cn_scid (ac_state a)) scid (ac_psk a) True) True 0)" (is "_ = Ok ?ctx")
    by (simp add: from_shared_secret_def context_at_0)
  have "process_incoming_packet en response addr a
      = (establish en ?ctx 0 scid ?tp addr (?a\<lparr>ac_ephemeral_secret := None\<rparr>), Ok ())"
    using client_opens_response [OF refl _ _ a(1-3) refl a(4) len(2) seal, of addr] prim(1) a(5)
    by (simp add: primitives_ok_def scan check shared run_simps)
  then show ?thesis
    by (rule that) (simp_all add: establish_def Let_def adopt_parameters_def received_def ps)
qed

section \<open>Examples\<close>

definition example_client :: actor where
  "example_client = actor_new ((connection_new example_addr [1] [3] default_config)\<lparr>cn_state := Handshaking\<rparr>)
     (replicate 32 4) (Some [5]) (Some [6]) (replicate 32 7) None True [1] True"

definition example_sv :: server_env where
  "example_sv = \<lparr>sv_env = example_env 0, sv_hmac = (\<lambda>key msg. replicate 32 9), sv_clock = 6000, sv_keypair = ([8], replicate 32 8),
     sv_scid = (\<lambda>i. [of_nat i]), sv_clean_filter = True, sv_accept_room = True, sv_try_send = None\<rparr>"

definition example_endpoint :: endpoint where
  "example_endpoint = \<lparr>ep_psk = None, ep_cookie_key = [], ep_ed_signing_key = [2], ep_ed_public_key = replicate 32 2,
     ep_handshake_replay_filter = [], ep_routing_table = [([0], 0)], ep_accept_queue = [], ep_tasks = [], ep_wire = []\<rparr>"

definition example_cookie :: bytes where
  "example_cookie = put_u64 1000 @ replicate 32 9"

lemma example_cookie_valid:
  "verify_retry_cookie (sv_hmac example_sv) (ep_cookie_key example_endpoint) addr scid example_cookie (sv_clock example_sv)
     (of_nat (cfg_cookie_max_age_ms (en_config (sv_env example_sv)))) = Ok True"
proof -
  have "from_be (take 8 example_cookie) = (1000 :: u64)"
    by (simp add: example_cookie_def from_be_to_be take_bit_word_eq_self)
  moreover have "length example_cookie = 40" "drop 8 example_cookie = replicate 32 9" by (simp_all add: example_cookie_def)
  ultimately show ?thesis
    by (simp add: verify_retry_cookie_def example_sv_def example_env_def default_config_def make_retry_cookie_eq)
qed

lemma example_primitives: "primitives_ok (example_env t)"
  by (auto simp: primitives_ok_def example_env_def plain_lib_def aead_sound_def aead_lengths_def crypto_available_def)

lemma plain_maskable:
  assumes "wf_header h" and "take 7 payload = replicate 7 b \<or> ph_pn_len h = 1 \<and> take 4 (drop 3 payload) = replicate 4 b"
    and "from_le32 (replicate 4 b) < 2 ^ 32 - 1"
  shows "maskable plain_lib crypto pn (encode_header h) payload"
proof -
  let ?p = "encode_header h @ payload @ replicate 16 0" and ?n = "ph_pn_len h"
  note l = encoded_layout [OF assms(1), of ?p "payload @ replicate 16 0", OF refl]
  have n: "1 \<le> ?n" "?n \<le> 4" using assms(1) by (simp_all add: wf_header_def)
  have drop: "drop (length (encode_header h) - ?n + 4) ?p = drop (4 - ?n) (payload @ replicate 16 0)"
    using l(2) n by simp
  have "take 4 (drop (4 - ?n) (payload @ replicate 16 0)) = replicate 4 b"
    using assms(2)
  proof
    assume seven: "take 7 payload = replicate 7 b"
    have "length (take 7 payload) = 7" unfolding seven by simp
    then have len: "7 \<le> length payload" by simp
    have "take 4 (drop (4 - ?n) payload) = take 4 (drop (4 - ?n) (take 7 payload))"
      using n by (simp add: drop_take min_def)
    then show ?thesis using n len unfolding seven by simp
  next
    assume "?n = 1 \<and> take 4 (drop 3 payload) = replicate 4 b"
    then have one: "?n = 1" and four: "take 4 (drop 3 payload) = replicate 4 b" by blast+
    have "length (take 4 (drop 3 payload)) = 4" unfolding four by simp
    then have "4 \<le> length payload - 3" by (simp add: min_def split: if_splits)
    then show ?thesis using one four by simp
  qed
  then have "sample_counter ?p = from_le32 (replicate 4 b)"
    using l(1) by (simp add: sample_counter_def drop min_def del: drop_append)
  then show ?thesis using assms(3) by (simp add: maskable_def encrypt_in_place_def plain_lib_def)
qed

lemma example_frames:
  "take 7 (padded_initial (example_env t) (example_client\<lparr>ac_state := c\<rparr>) sk cookie n) = replicate 7 4"
  "take 4 (drop 3 (response_frames (example_env t) e h pk cookie tp scid (replicate 32 8))) = replicate 4 8"
proof -
  have "\<exists>rest. padded_initial (example_env t) (example_client\<lparr>ac_state := c\<rparr>) sk cookie n = (4 # replicate 32 4) @ rest"
    by (simp add: padded_initial_def initial_frames_def example_client_def actor_new_def Let_def)
  then obtain rest where "padded_initial (example_env t) (example_client\<lparr>ac_state := c\<rparr>) sk cookie n = replicate 33 4 @ rest"
    unfolding replicate_Suc [symmetric] by auto
  then show "take 7 (padded_initial (example_env t) (example_client\<lparr>ac_state := c\<rparr>) sk cookie n) = replicate 7 4" by simp
  have "\<exists>rest. response_frames (example_env t) e h pk cookie tp scid (replicate 32 8) = 4 # replicate 32 8 @ rest"
    by (simp add: response_frames_def Let_def)
  then obtain rest where "response_frames (example_env t) e h pk cookie tp scid (replicate 32 8) = 4 # replicate 32 8 @ rest" by blast
  then show "take 4 (drop 3 (response_frames (example_env t) e h pk cookie tp scid (replicate 32 8))) = replicate 4 8" by simp
qed

lemma example_maskable:
  fixes c :: zt_connection
  assumes "c = (ac_state example_client)\<lparr>cn_next_packet_number := pn, cn_cookie := ck'\<rparr>"
  shows "request_maskable (example_env t) sk cookie (example_client\<lparr>ac_state := c\<rparr>)"
    and "response_maskable example_sv e en (example_client\<lparr>ac_state := c\<rparr>) ck [1]"
proof -
  have "from_be [4, 4, 4, 4] = (0x04040404 :: u32)" "from_be [8, 8, 8, 8] = (0x08080808 :: u32)" by (simp_all add: from_be_def)
  moreover have "replicate 4 b = [b, b, b, b]" for b :: u8 by (simp add: eval_nat_numeral)
  ultimately have small: "from_le32 (replicate 4 4) < 2 ^ 32 - 1" "from_le32 (replicate 4 8) < 2 ^ 32 - 1"
    by (simp_all add: from_le32_def)
  have lib: "en_crypto (example_env t) = plain_lib" "sv_env example_sv = example_env 0" "snd (sv_keypair example_sv) = replicate 32 8" for t
    by (simp_all add: example_env_def example_sv_def)
  have ids: "cn_scid c = [1]" "cn_dcid c = [3]"
    by (simp_all add: assms example_client_def actor_new_def connection_new_def Let_def)
  have "wf_header (initial_header c k pn_len)" if "pn_len_for k c = Ok pn_len" for k pn_len
    using that truncate_pn_len_bounds by (auto simp: wf_header_def initial_header_def ids pn_len_for_def obind_eq_Ok)
  then show "request_maskable (example_env t) sk cookie (example_client\<lparr>ac_state := c\<rparr>)"
    unfolding request_maskable_def Let_def lib using small example_frames(1) by (auto intro!: plain_maskable)
  have "wf_header (response_header [1] [1])" by (simp add: wf_header_def response_header_def)
  then show "response_maskable example_sv e en (example_client\<lparr>ac_state := c\<rparr>) ck [1]"
    unfolding response_maskable_def Let_def lib using small example_frames(2)
    by (auto simp: ids intro!: plain_maskable simp: response_header_def)
qed

lemma example_ready:
  "client_ready (example_env 0) [6] [5] example_client"
  "server_ready example_sv addr scid example_cookie [1] example_endpoint"
  "trusts (example_env 0) (example_env 0) k (replicate 32 b)" "config_valid default_config"
proof -
  show "server_ready example_sv addr scid example_cookie [1] example_endpoint"
    using example_cookie_valid
    by (simp add: server_ready_def cookie_used_def replay_cookie_hmac_def clean_replay_filter_def choose_scid_def
      example_endpoint_def example_cookie_def example_sv_def upt_rec)
qed (simp_all add: client_ready_def example_client_def actor_new_def connection_new_def example_env_def Let_def
    highest_processed_def connection_is_replay_def is_replay_def replay_new_def trusts_def verify_peer_key_def
    config_valid_def validate_config_def default_config_def as_millis_def)

lemma example_started:
  assumes c: "c = (ac_state example_client)\<lparr>cn_next_packet_number := pn, cn_cookie := ck\<rparr>" and pn: "pn < 256"
  obtains a1 where "send_initial_packet (example_env 0) None (example_client\<lparr>ac_state := c\<rparr>) = (a1, Ok ())"
    and "cn_cookie (ac_state a1) = ck" and "cn_state (ac_state a1) = Handshaking" and "cn_scid (ac_state a1) = [1]"
    and "highest_processed (ac_state a1) = 0" and "\<not> connection_is_replay (ac_state a1) 0" and "cn_dcid (ac_state a1) = [3]"
    and "ac_public_key a1 = replicate 32 4" and "ac_ephemeral_secret a1 = Some [5]" and "cn_unpaced_queue (ac_state a1) = []"
    and "1200 \<le> cn_bytes_in_flight (ac_state a1)"
proof -
  let ?a = "example_client\<lparr>ac_state := c\<rparr>" and ?en = "example_env 0"
  have cready: "client_ready ?en [6] [5] ?a"
    using example_ready(1) pn by (simp add: client_ready_def c highest_processed_def connection_is_replay_def)
  then have ready: "ac_ed_signing_key ?a = Some [6]" "cn_state (ac_state ?a) = Handshaking" "ac_is_client ?a" "en_try_send ?en (ac_calls ?a) = None"
    "highest_processed (ac_state ?a) = 0" "\<not> connection_is_replay (ac_state ?a) 0" "ac_ephemeral_secret ?a = Some [5]"
    by (simp_all add: client_ready_def)
  have alpn: "length (en_alpn ?en) < 256" and next_pn: "pn = cn_next_packet_number (ac_state ?a)" by (simp_all add: example_env_def c)
  have f: "cn_scid c = [1]" "cn_dcid c = [3]" "cn_unpaced_queue c = []" "cn_bytes_in_flight c = 0" "ac_public_key ?a = replicate 32 4"
    by (simp_all add: c example_client_def actor_new_def connection_new_def Let_def)
  obtain pn_len packet where p: "pn_len_for pn (ac_state ?a) = Ok pn_len"
    "seal_packet (en_crypto ?en) (context_at (en_crypto ?en) (derive_initial_secret (en_crypto ?en) (cn_dcid (ac_state ?a))) True 0) pn
      (encode_header (initial_header (ac_state ?a) pn pn_len))
      (padded_initial ?en ?a [6] None (length (encode_header (initial_header (ac_state ?a) pn pn_len)))) = Ok packet" "1200 \<le> length packet"
    by (rule initial_sealed [OF example_primitives cready alpn _ example_maskable(1) [OF c] next_pn, where cookie = None]) simp_all
  have bound: "pn + 1 < two64" using pn by simp
  obtain a1 where run: "send_initial_packet ?en None ?a = (a1, Ok ())" and a1: "cn_cookie (ac_state a1) = cn_cookie c"
    "cn_state (ac_state a1) = Handshaking" "cn_scid (ac_state a1) = cn_scid c" "cn_dcid (ac_state a1) = cn_dcid c"
    "cn_replay_window (ac_state a1) = cn_replay_window c" "ac_public_key a1 = ac_public_key ?a" "ac_ephemeral_secret a1 = ac_ephemeral_secret ?a"
    "cn_unpaced_queue (ac_state a1) = cn_unpaced_queue c" "cn_bytes_in_flight (ac_state a1) = cn_bytes_in_flight c + length packet"
    by (rule send_initial_run [OF ready(1,2) next_pn [symmetric] bound p(1,2) ready(3,4)]) simp_all
  have "highest_processed (ac_state a1) = 0" "\<not> connection_is_replay (ac_state a1) 0"
    using ready(5,6) a1(5) by (simp_all add: highest_processed_def connection_is_replay_def)
  then show ?thesis using that [OF run] a1 f ready(7) p(3) by (simp add: c)
qed

section \<open>Properties\<close>

text \<open>
  C1: the two halves of the handshake fit together.  A client that holds a valid, unused cookie sends its
  Initial packet; a server that trusts the client's identity and has room answers it; the client, trusting
  the server's, becomes active on that answer, at any later time.  Afterwards both hold the same master
  secret with mirrored keys, know each other by the right connection ids, and each respects the stream,
  stream-window and connection-window limits the other announced.  The hypotheses on the primitives are
  what their documentation promises within its limits: signatures verify, key agreement is symmetric, sealed
  data opens.  The samples of the two packets must not select the block past the end of the key stream,
  which one packet in \<open>2\<^sup>3\<^sup>2\<close> does: masking its header panics.
\<close>

theorem handshake_establishes_connection:
  assumes "primitives_ok en" and "primitives_ok (sv_env sv)"
    and "en_crypto (sv_env sv) = en_crypto en" and "en_sha256 (sv_env sv) = en_sha256 en"
    and "en_alpn (sv_env sv) = en_alpn en" and "length (en_alpn en) < 256"
    and "config_valid (en_config en)" and "config_valid (en_config (sv_env sv))"
    and "client_ready en sk secret a" and "server_ready sv addr (cn_scid (ac_state a)) ck scid e"
    and "trusts (sv_env sv) en sk (ac_ed_public_key a)"
    and "trusts en (sv_env sv) (ep_ed_signing_key e) (ep_ed_public_key e)"
    and "en_diffie_hellman en secret (snd (sv_keypair sv)) = en_diffie_hellman (sv_env sv) (fst (sv_keypair sv)) (ac_public_key a)"
    and "ac_psk a = ep_psk e"
    and "request_maskable en sk (Some ck) a" and "response_maskable sv e en a ck scid"
  shows "\<exists>a1 data e1 t response a2.
    send_initial_packet en (Some ck) a = (a1, Ok ()) \<and> ac_wire a1 = ac_wire a @ [(cn_addr (ac_state a), data)]
    \<and> handle_handshake sv data addr e = (e1, Ok ()) \<and> ep_wire e1 = ep_wire e @ [(addr, response)] \<and> ep_tasks e1 = ep_tasks e @ [t]
    \<and> process_incoming_packet (en\<lparr>en_now := later\<rparr>) response server_addr a1 = (a2, Ok ()) \<and> cn_state (ac_state a2) = Active
    \<and> agree (en_crypto en) (en_config en) (en_config (sv_env sv)) (ac_state a2) (conn (tk_loop t))"
proof -
  let ?en = "en\<lparr>en_now := later\<rparr>" and ?pn = "cn_next_packet_number (ac_state a)"
  have ready: "ac_is_client a" "cn_state (ac_state a) = Handshaking" "?pn < 256" "highest_processed (ac_state a) = 0"
    "\<not> connection_is_replay (ac_state a) 0" "length (cn_scid (ac_state a)) < 256" "length (cn_dcid (ac_state a)) < 256"
    "ac_ed_signing_key a = Some sk" "ac_ephemeral_secret a = Some secret" "en_try_send en (ac_calls a) = None"
    using assms(9) by (simp_all add: client_ready_def)
  have ck40: "length ck = 40" using assms(10) by (auto simp: server_ready_def verify_retry_cookie_def split: if_splits)
  obtain pn_len data where pl: "pn_len_for ?pn (ac_state a) = Ok pn_len" "wf_header (initial_header (ac_state a) ?pn pn_len)"
      "take_bit (8 * pn_len) (of_nat ?pn :: u64) = of_nat ?pn"
    and seal: "seal_packet (en_crypto en) (context_at (en_crypto en) (derive_initial_secret (en_crypto en) (cn_dcid (ac_state a))) True 0) ?pn
      (encode_header (initial_header (ac_state a) ?pn pn_len))
      (padded_initial en a sk (Some ck) (length (encode_header (initial_header (ac_state a) ?pn pn_len)))) = Ok data" "1200 \<le> length data"
    by (rule initial_sealed [OF assms(1,9,6) _ assms(15) refl]) (simp add: ck40)
  have bound: "?pn + 1 < two64" using ready(3) by simp
  obtain a1 where run: "send_initial_packet en (Some ck) a = (a1, Ok ())" "cn_handshake_packet (ac_state a1) = Some data"
    and a1: "cn_cookie (ac_state a1) = Some ck"
      "cn_state (ac_state a1) = Handshaking" "cn_scid (ac_state a1) = cn_scid (ac_state a)" "cn_dcid (ac_state a1) = cn_dcid (ac_state a)"
      "cn_replay_window (ac_state a1) = cn_replay_window (ac_state a)" "ac_public_key a1 = ac_public_key a"
      "ac_ephemeral_secret a1 = ac_ephemeral_secret a" "ac_psk a1 = ac_psk a" "ac_is_client a1 = ac_is_client a"
    and wire: "ac_wire a1 = ac_wire a @ [(cn_addr (ac_state a), data)]"
    by (rule send_initial_run [OF ready(8,2) refl bound pl(1) seal(1) ready(1,10)]) simp_all
  let ?h = "initial_header (ac_state a) ?pn pn_len"
  obtain c response where hs: "handle_handshake sv data addr e =
      (client_accepted sv addr (replay_cookie_hmac (Some ck)) scid c response (clean_replay_filter sv e), Ok ())"
    and rs: "seal_packet (en_crypto en) (context_at (en_crypto en) (derive_initial_secret (en_crypto en) (cn_scid (ac_state a))) False 0) 0
      (encode_header (response_header (cn_scid (ac_state a)) scid))
      (response_frames (sv_env sv) e ?h (ac_public_key a) (Some ck) (parameters_from_config (en_config en)) scid (snd (sv_keypair sv))) = Ok response"
    and c: "cn_crypto c = Some (context_at (en_crypto en) (derive_master_secret (en_crypto en)
      (en_diffie_hellman (sv_env sv) (fst (sv_keypair sv)) (ac_public_key a)) scid (cn_scid (ac_state a)) (ep_psk e) False) False 0)"
      "cn_scid c = scid" "cn_dcid c = cn_scid (ac_state a)"
      "cn_peer_max_streams c = cfg_max_concurrent_streams (en_config en)" "cn_remote_window c = cfg_initial_max_data (en_config en)"
      "cn_peer_initial_stream_window c = cfg_initial_stream_window (en_config en)" "carries (sv_env sv) data ck"
      "open_initial (sv_env sv) data = Ok (Some (?h, padded_initial en a sk (Some ck) (length (encode_header ?h))))"
    by (rule server_side [OF assms(1-7,9-11,16) refl pl(2,3) ready(3) seal])
  obtain a2 where a2: "process_incoming_packet ?en response server_addr a1 = (a2, Ok ())" "cn_state (ac_state a2) = Active"
      "cn_crypto (ac_state a2) = Some (context_at (en_crypto ?en) (derive_master_secret (en_crypto ?en)
        (en_diffie_hellman ?en secret (snd (sv_keypair sv))) (cn_scid (ac_state a1)) scid (ac_psk a1) True) True 0)"
      "cn_scid (ac_state a2) = cn_scid (ac_state a1)" "cn_dcid (ac_state a2) = scid" "cn_addr (ac_state a2) = server_addr"
      "cn_peer_max_streams (ac_state a2) = cfg_max_concurrent_streams (en_config (sv_env sv))"
      "cn_remote_window (ac_state a2) = cfg_initial_max_data (en_config (sv_env sv))"
      "cn_peer_initial_stream_window (ac_state a2) = cfg_initial_stream_window (en_config (sv_env sv))"
  proof (rule client_side [of ?en "sv_env sv" a1 secret ck e "snd (sv_keypair sv)" scid ?h response server_addr])
    show "primitives_ok ?en" using assms(1) by (simp add: primitives_ok_def)
    show "trusts ?en (sv_env sv) (ep_ed_signing_key e) (ep_ed_public_key e)"
      using assms(12) by (simp add: trusts_def verify_peer_key_def)
  qed (use assms(2-8,10) ready a1 rs in \<open>simp_all add: highest_processed_def connection_is_replay_def server_ready_def initial_header_def\<close>)
  let ?e1 = "client_accepted sv addr (replay_cookie_hmac (Some ck)) scid c response (clean_replay_filter sv e)"
  have e1: "ep_wire ?e1 = ep_wire e @ [(addr, response)]"
    "\<exists>t. ep_tasks ?e1 = ep_tasks e @ [t] \<and> conn (tk_loop t) = c"
    using assms(10) by (auto simp: client_accepted_def clean_replay_filter_def server_ready_def Let_def loop_start_def
      server_actor_def actor_new_def split: option.splits)
  have "agree (en_crypto en) (en_config en) (en_config (sv_env sv)) (ac_state a2) c"
    using a2 c assms(13,14) by (auto simp: agree_def a1 master_secret_agrees)
  then show ?thesis using run(1) wire hs e1 a2(1,2) by blast
qed

theorem handshake_establishes_connection_witness:
  "\<exists>a1 data e1 t response a2.
    send_initial_packet (example_env 0) (Some example_cookie) example_client = (a1, Ok ())
    \<and> ac_wire a1 = [(example_addr, data)] \<and> handle_handshake example_sv data example_addr example_endpoint = (e1, Ok ())
    \<and> ep_wire e1 = [(example_addr, response)] \<and> ep_tasks e1 = [t]
    \<and> process_incoming_packet (example_env 70) response example_addr a1 = (a2, Ok ()) \<and> cn_state (ac_state a2) = Active
    \<and> agree plain_lib default_config default_config (ac_state a2) (conn (tk_loop t))"
proof -
  have "(example_env 0)\<lparr>en_now := 70\<rparr> = example_env 70" by (simp add: example_env_def)
  moreover have "ep_wire example_endpoint = []" "ep_tasks example_endpoint = []" "ac_wire example_client = []"
    "cn_addr (ac_state example_client) = example_addr" "en_crypto (example_env 0) = plain_lib" "en_config (example_env 0) = default_config"
    "sv_env example_sv = example_env 0"
    by (simp_all add: example_endpoint_def example_client_def actor_new_def connection_new_def example_env_def example_sv_def Let_def)
  ultimately show ?thesis
    using handshake_establishes_connection [of "example_env 0" example_sv "[6]" "[5]" example_client example_addr example_cookie "[1]"
      example_endpoint 70 example_addr] example_primitives example_ready
      example_maskable [of "ac_state example_client", where pn = "cn_next_packet_number (ac_state example_client)"
        and ck' = "cn_cookie (ac_state example_client)"]
    by (simp add: example_endpoint_def example_client_def actor_new_def example_env_def example_sv_def Let_def)
qed

end
