(* ===== verification/Zt_Flight.thy ===== *)
theory Zt_Flight
  imports Zt_Agreement
begin

text \<open>
  The account of bytes in flight.  Congestion control decides from one counter; the packets it stands for
  are in the window of unacknowledged packets.  Sending, acknowledgements, retransmission timeouts and the
  end of the handshake keep the two equal, and packet numbers in the window below the next one, through
  every run of the actor.
\<close>

section \<open>The invariant\<close>

definition accounted :: "zt_connection \<Rightarrow> bool" where
  "accounted c \<longleftrightarrow> unacked_inv (cn_unacked_packets c) \<and> cn_bytes_in_flight c = in_flight (cn_unacked_packets c)
     \<and> (\<forall>pn\<in>dom (unacked_lookup (cn_unacked_packets c)). pn < cn_next_packet_number c)"

lemma accounted_cong:
  "cn_unacked_packets c' = cn_unacked_packets c \<Longrightarrow> cn_bytes_in_flight c' = cn_bytes_in_flight c \<Longrightarrow>
   cn_next_packet_number c' = cn_next_packet_number c \<Longrightarrow> accounted c' = accounted c"
  by (simp add: accounted_def)

section \<open>Retransmission timeouts\<close>

lemma unacked_update_spec:
  assumes "unacked_inv w" and "unacked_lookup w pn = Some old"
  shows "unacked_inv (unacked_update pn up w) \<and> unacked_lookup (unacked_update pn up w) = (unacked_lookup w)(pn \<mapsto> up)"
proof -
  let ?i = "pn - uw_base_pn w"
  have i: "uw_base_pn w \<le> pn" "?i < length (uw_deque w)" "uw_deque w ! ?i = Some old"
    using assms(2) by (auto simp: unacked_lookup_def Let_def split: if_splits)
  have "length (filter (\<lambda>s. s \<noteq> None) ((uw_deque w)[?i := Some up])) = length (filter (\<lambda>s. s \<noteq> None) (uw_deque w))"
    using count_update [OF i(2), of "\<lambda>s. s \<noteq> None" "Some up"] i(3) by simp
  moreover have "hd ((uw_deque w)[?i := Some up]) \<noteq> None"
    using assms(1) i by (cases ?i; cases "uw_deque w") (auto simp: unacked_inv_def)
  ultimately have "unacked_inv (unacked_update pn up w)"
    using assms(1) by (simp add: unacked_inv_def unacked_update_def)
  then show ?thesis using slot_at_update [OF i(2)] i(1) by (simp add: lookup_slot_at unacked_update_def)
qed

lemma unacked_update_weight:
  assumes "unacked_inv w" and "unacked_lookup w pn = Some old" and "up_sent_bytes up = up_sent_bytes old"
  shows "in_flight (unacked_update pn up w) = in_flight w"
  using unacked_update_spec [OF assms(1,2), of up] assms(2,3)
  unfolding weight_sum by (intro sum.cong) auto

text \<open>The scan changes retry counts and send times only.\<close>

lemma scan_window:
  assumes "distinct (map fst ups)" and "unacked_inv (rs_window rs)"
    and "\<And>pn up. (pn, up) \<in> set ups \<Longrightarrow> unacked_lookup (rs_window rs) pn = Some up"
  shows "unacked_inv (rs_window (scan_packets now rto ups rs))
    \<and> dom (unacked_lookup (rs_window (scan_packets now rto ups rs))) = dom (unacked_lookup (rs_window rs))
    \<and> in_flight (rs_window (scan_packets now rto ups rs)) = in_flight (rs_window rs)"
  using assms
proof (induction ups arbitrary: rs)
  case (Cons x ups)
  obtain pn up where x: "x = (pn, up)" by fastforce
  have look: "unacked_lookup (rs_window rs) pn = Some up" using Cons.prems(3) x by simp
  define touched where "touched up' = unacked_update pn up' (rs_window rs)" for up'
  have t: "unacked_inv (touched up')" "unacked_lookup (touched up') = (unacked_lookup (rs_window rs))(pn \<mapsto> up')"
    "up_sent_bytes up' = up_sent_bytes up \<Longrightarrow> in_flight (touched up') = in_flight (rs_window rs)" for up'
    using unacked_update_spec [OF Cons.prems(2) look] unacked_update_weight [OF Cons.prems(2) look] by (simp_all add: touched_def)
  have same_dom: "dom (unacked_lookup (touched u)) = dom (unacked_lookup (rs_window rs))" for u
    using look by (auto simp: t(2))
  define good where "good w \<longleftrightarrow> unacked_inv w \<and> dom (unacked_lookup w) = dom (unacked_lookup (rs_window rs))
    \<and> in_flight w = in_flight (rs_window rs)" for w
  have touched: "good (touched up')" if "up_sent_bytes up' = up_sent_bytes up" for up'
    using t(1,3) same_dom that by (simp add: good_def)
  have rest: "good (rs_window (scan_packets now rto ups rs'))"
    if "rs_window rs' = rs_window rs \<or> (\<exists>up'. rs_window rs' = touched up' \<and> up_sent_bytes up' = up_sent_bytes up)" for rs'
  proof -
    have "unacked_lookup (rs_window rs') k = Some u" if "(k, u) \<in> set ups" for k u
      using that \<open>_ \<or> _\<close> t(2) Cons.prems(1) Cons.prems(3) [of k u] x by (force simp: image_iff)
    note IH = Cons.IH [of rs', OF _ _ this]
    show ?thesis
      using \<open>_ \<or> _\<close> IH Cons.prems(1,2) x by (elim disjE exE conjE) (simp_all add: t(1,3) same_dom good_def)
  qed
  have "rs_window rs' = touched (up\<lparr>up_retries := r, up_sent_at := now\<rparr>) \<Longrightarrow> good (rs_window (scan_packets now rto ups rs'))" for rs' r
    by (rule rest) (auto intro!: exI [of _ "up\<lparr>up_retries := r, up_sent_at := now\<rparr>"])
  then have "good (rs_window (scan_packets now rto (x # ups) rs))"
    using touched rest unfolding x by (auto simp: Let_def touched_def [symmetric] split: unacked_payload.split)
  then show ?case by (simp add: good_def)
qed simp

lemma drop_packet_accounted: "accounted (fst x) \<Longrightarrow> accounted (fst (drop_packet resent pn x))"
proof -
  assume acc: "accounted (fst x)"
  obtain c resend where x: "x = (c, resend)" by fastforce
  obtain w r where rm: "unacked_remove pn (cn_unacked_packets c) = (w, r)" by fastforce
  have inv: "unacked_inv (cn_unacked_packets c)" using acc by (simp add: accounted_def x)
  have dom: "dom (unacked_lookup w) \<subseteq> dom (unacked_lookup (cn_unacked_packets c))"
    using uw.remove_law [OF inv rm] by auto
  have "in_flight w = in_flight (cn_unacked_packets c) - (case r of None \<Rightarrow> 0 | Some up \<Rightarrow> up_sent_bytes up)"
    using weight_remove [OF inv rm, of up_sent_bytes] by simp
  with uw.remove_law [OF inv rm] acc dom show ?thesis
    by (auto simp: drop_packet_def x rm accounted_def Let_def subset_iff split: option.split)
qed

lemma fold_accounted: "(\<And>x s. accounted (g s) \<Longrightarrow> accounted (g (f x s))) \<Longrightarrow> accounted (g s) \<Longrightarrow> accounted (g (fold f xs s))"
  by (induction xs arbitrary: s) auto

lemma retire_accounted: "accounted c \<Longrightarrow> accounted (fst (retire_packets rs c))"
proof -
  assume "accounted c"
  moreover have "accounted (record_mtu_probe_failure t d) = accounted d" for t d
    by (rule accounted_cong) (simp_all add: record_mtu_probe_failure_def)
  ultimately have "accounted (fold record_mtu_probe_failure (rs_failed_probe_targets rs) c)"
    using fold_accounted [of id record_mtu_probe_failure] by simp
  moreover have "accounted (fst (recover_mtu_blackhole d)) = accounted d" for d
    by (rule accounted_cong) (simp_all add: recover_mtu_blackhole_def Let_def)
  ultimately show ?thesis
    unfolding retire_packets_def Let_def
    by (intro fold_accounted [of fst] drop_packet_accounted) simp_all
qed

lemma sweep_accounted:
  assumes "accounted c"
  shows "accounted (fst (rto_sweep now c))"
proof -
  let ?w = "cn_unacked_packets c"
  let ?rs = "\<lparr>rs_window = ?w, rs_to_retransmit = [], rs_to_drop = [], rs_failed_probe_targets = [],
    rs_blackhole_detected = False, rs_timed_out = False\<rparr>"
  have inv: "unacked_inv ?w" using assms by (simp add: accounted_def)
  have "accounted (c\<lparr>cn_unacked_packets := rs_window (scan_packets now (base_rto c) (unacked_iter ?w) ?rs)\<rparr>)"
    using scan_window [OF unacked_iter_distinct(1), of ?rs ?w now "base_rto c"] inv assms unacked_iter_set [of ?w]
    by (simp add: accounted_def)
  from this retire_accounted [OF this] show ?thesis
    by (simp add: rto_sweep_def Let_def case_prod_beta)
qed

lemma handle_ack_threshold:
  assumes "unacked_inv (cn_unacked_packets c)" and "handle_ack fl now largest win delay ranges c = Ok (c', frs)"
  obtains t where "mul_f64 (cn_rtt c) (round_f64 (5/4)) = Ok t"
proof -
  let ?a0 = "\<lparr>ap_conn = c, ap_bytes_acked = 0, ap_in_flight_acked = 0, ap_sample_rtt = None\<rparr>"
  obtain a where a: "osteps (sack_range now) ranges ?a0 = Ok a" using assms(2) by (auto simp: handle_ack_def obind_eq_Ok)
  have "settled c {} ?a0" using assms(1) by (simp add: settled_def)
  from settled_cumulative_ack [OF settled_sack_ranges [OF this a] refl]
  have "cn_rtt (ap_conn (cumulative_ack now largest a)) = cn_rtt c" by (simp add: settled_def)
  with assms(2) a show ?thesis by (auto simp: handle_ack_def Let_def obind_eq_Ok intro: that)
qed

lemma settles_accounted:
  assumes "settles c c'" and "accounted c"
  shows "accounted c'"
  using assms(1)
proof cases
  case (sweep now)
  then show ?thesis using sweep_accounted [OF assms(2)] by simp
next
  case (ack fl now largest win delay ranges frs)
  have inv: "unacked_inv (cn_unacked_packets c)" "cn_bytes_in_flight c = in_flight (cn_unacked_packets c)"
    using assms(2) by (simp_all add: accounted_def)
  obtain t where t: "mul_f64 (cn_rtt c) (round_f64 (5/4)) = Ok t" by (rule handle_ack_threshold [OF inv(1) ack])
  from handle_ack_spec [OF inv ack t] handle_ack_quiet [OF ack] assms(2) show ?thesis
    by (auto simp: accounted_def conn_quiet_def dom_def split: option.splits if_splits)
qed

section \<open>Sending\<close>

definition balanced :: "actor \<Rightarrow> bool" where
  "balanced a \<longleftrightarrow> accounted (ac_state a)"

text \<open>Between taking a packet number and recording the packet.\<close>

definition fresh :: "nat \<Rightarrow> actor \<Rightarrow> bool" where
  "fresh pn a \<longleftrightarrow> balanced a \<and> pn < cn_next_packet_number (ac_state a)
     \<and> (\<forall>k\<in>dom (unacked_lookup (cn_unacked_packets (ac_state a))). k < pn)"

definition untouched :: "actor \<Rightarrow> actor \<Rightarrow> bool" where
  "untouched a a' \<longleftrightarrow> cn_unacked_packets (ac_state a') = cn_unacked_packets (ac_state a)
     \<and> cn_bytes_in_flight (ac_state a') = cn_bytes_in_flight (ac_state a)
     \<and> cn_next_packet_number (ac_state a') = cn_next_packet_number (ac_state a)"

interpretation untouched: progress untouched
  by unfold_locales (auto simp: untouched_def)

lemma untouched_keeps: "untouched a a' \<Longrightarrow> fresh pn a \<Longrightarrow> fresh pn a'" "untouched a a' \<Longrightarrow> balanced a \<Longrightarrow> balanced a'"
  using accounted_cong [of "ac_state a'" "ac_state a"] by (simp_all add: untouched_def fresh_def balanced_def)

lemma untouched_conn: "(\<And>a. untouched a (a\<lparr>ac_state := f (ac_state a)\<rparr>)) \<Longrightarrow> moves untouched (on_conn f)"
  unfolding on_conn_def by (rule untouched.modify_moves)

lemma untouched_methods:
  "moves untouched (sendmsg_vectored en data)" "moves untouched (refresh_local_window en)" "moves untouched (note_packet_sent en)"
  "moves untouched (on_conn (\<lambda>c. c\<lparr>cn_addr := addr c\<rparr>))" "moves untouched (on_conn (\<lambda>c. c\<lparr>cn_handshake_packet := hs\<rparr>))"
  "moves untouched (on_conn (\<lambda>c. c\<lparr>cn_cookie := ck\<rparr>))" "moves untouched (on_conn (\<lambda>c. c\<lparr>cn_mtu_probes := ps c\<rparr>))"
  "moves untouched (on_conn (\<lambda>c. if b then c\<lparr>cn_packets_retransmitted := k c\<rparr> else c))"
  "moves untouched (amodify (\<lambda>a. a\<lparr>ac_pending_acks := n\<rparr>))"
proof -
  show "moves untouched (sendmsg_vectored en data)"
    by (auto simp: untouched_def moves_def sendmsg_vectored_def amplification_limit_reached_def awith_def abind_def athen_def
      try_send_to_def on_conn_def amodify_def areturn_def aerr_def Let_def split: option.split)
  show "moves untouched (note_packet_sent en)"
    unfolding note_packet_sent_def Let_def
    by (intro untouched.with_moves untouched.if_moves untouched.pure_moves)
       (auto intro!: untouched.pure_moves untouched.bind_moves untouched_conn simp: untouched_def split: option.splits)
  show "moves untouched (amodify (\<lambda>a. a\<lparr>ac_pending_acks := n\<rparr>))"
    by (rule untouched.modify_moves) (simp add: untouched_def)
  show "moves untouched (refresh_local_window en)"
    unfolding refresh_local_window_def by (rule untouched_conn) (simp add: untouched_def)
qed (rule untouched_conn, simp add: untouched_def)+

lemma numbered:
  assumes "\<And>pn. hoare (fresh pn) (f pn) (\<lambda>_. balanced) balanced"
  shows "moves (keeps balanced) (abind next_packet_number f)"
proof (rule hoare_keeps, rule hoare_bind [OF _ assms])
  show "hoare balanced next_packet_number fresh balanced"
    by (rule hoareI)
       (auto simp: next_packet_number_def conn_call_def get_next_packet_number_def run_simps on_conn_def balanced_def fresh_def
         accounted_def outcome_Ok_iffs checked_add64_def ok_or_def obind_def Let_def less_Suc_eq split: outcome.splits if_splits option.splits)
qed

lemma still_fresh:
  assumes "moves untouched m"
  shows "hoare (fresh pn) m (\<lambda>_. fresh pn) balanced"
proof (rule hoare_weaken)
  show "hoare (fresh pn) m (\<lambda>_. fresh pn) (fresh pn)" by (rule moves_hoare [OF assms]) (rule untouched_keeps)
qed (simp_all add: fresh_def)

lemma before:
  "moves untouched m \<Longrightarrow> (\<And>x. hoare (fresh pn) (f x) Q balanced) \<Longrightarrow> hoare (fresh pn) (abind m f) Q balanced"
  "moves untouched m \<Longrightarrow> hoare (fresh pn) m' Q balanced \<Longrightarrow> hoare (fresh pn) (athen m m') Q balanced"
  "(\<And>a. hoare (fresh pn) (g a) Q balanced) \<Longrightarrow> hoare (fresh pn) (awith g) Q balanced"
  by (auto intro: hoare_bind hoare_then still_fresh) (simp add: hoare_def awith_def)

lemma unrecorded: "moves untouched m \<Longrightarrow> hoare (fresh pn) m (\<lambda>_. balanced) balanced"
  by (rule hoare_weaken [OF still_fresh]) (auto simp: fresh_def)

lemma by_case:
  "hoare P a Q E \<Longrightarrow> (\<And>y. hoare P (b y) Q E) \<Longrightarrow> hoare P (case x of None \<Rightarrow> a | Some y \<Rightarrow> b y) Q E"
  "moves R c \<Longrightarrow> (\<And>y. moves R (d y)) \<Longrightarrow> moves R (case x of None \<Rightarrow> c | Some y \<Rightarrow> d y)"
  "(\<And>e. moves R (h e)) \<Longrightarrow> moves R c \<Longrightarrow> moves R (case r of Ok _ \<Rightarrow> c | Err e \<Rightarrow> h e | Panic \<Rightarrow> c)"
  "(\<And>e. hoare P (g e) Q E) \<Longrightarrow> hoare P a Q E \<Longrightarrow> hoare P (case r of Ok _ \<Rightarrow> a | Err e \<Rightarrow> g e | Panic \<Rightarrow> a) Q E"
  by (simp_all split: option.split outcome.split)

lemma recorded:
  assumes "moves untouched m"
  shows "hoare (fresh pn) (athen (on_conn (track_sent pn up)) m) (\<lambda>_. balanced) balanced"
proof (rule hoare_then)
  have "balanced (a\<lparr>ac_state := track_sent pn up (ac_state a)\<rparr>)" if "fresh pn a" for a
  proof -
    let ?w = "cn_unacked_packets (ac_state a)"
    have inv: "unacked_inv ?w" and below: "\<And>k. unacked_lookup ?w k \<noteq> None \<Longrightarrow> k < pn"
      using that by (auto simp: fresh_def balanced_def accounted_def)
    have "unacked_lookup (unacked_insert pn up ?w) = (unacked_lookup ?w)(pn \<mapsto> up)"
      using uw.insert_law [OF inv] below by (simp add: less_imp_le)
    with that weight_insert [OF inv below, of up_sent_bytes up] uw.insert_invar [OF inv, of pn up] show ?thesis
      by (simp add: fresh_def balanced_def accounted_def track_sent_def)
  qed
  then show "hoare (fresh pn) (on_conn (track_sent pn up)) (\<lambda>_. balanced) balanced"
    unfolding on_conn_def by (rule hoare_modify)
  show "hoare balanced m (\<lambda>_. balanced) balanced"
    by (rule moves_hoare [OF assms]) (auto intro: untouched_keeps)
qed

lemmas untouched_moves = untouched.combine untouched_methods by_case(2,3)

lemmas preparing = numbered recorded before(1,3) before(2) [OF untouched_methods(1)] before(2) [OF untouched_methods(2)]
  before(2) [OF untouched_methods(5)] before(2) [OF untouched_methods(8)] before(2) [OF by_case(2)]
  before(2) [OF untouched.ignore_moves] by_case(1,4) unrecorded [OF untouched.pure_moves(1)] unrecorded [OF untouched.pure_moves(2)]
  unrecorded [OF untouched.pure_moves(3)] untouched_moves

lemma senders_balanced:
  "moves (keeps balanced) (send_initial_packet_internal en cookie n)"
  "moves (keeps balanced) (send_data_packet en p n)" "moves (keeps balanced) (send_frame_immediate en f addr)"
  "moves (keeps balanced) (send_mtu_probe en)" "moves (keeps balanced) (flush_acks en)"
proof -
  show "moves (keeps balanced) (send_initial_packet_internal en cookie n)"
    unfolding send_initial_packet_internal_def Let_def by (intro preparing)
  show "moves (keeps balanced) (send_data_packet en p n)"
    unfolding send_data_packet_def Let_def by (intro preparing)
  show "moves (keeps balanced) (send_frame_immediate en f addr)"
    unfolding send_frame_immediate_def Let_def by (rule numbered, rule unrecorded) (intro untouched_moves)
  show "moves (keeps balanced) (send_mtu_probe en)"
    unfolding send_mtu_probe_def Let_def
    by (intro progress.with_moves [OF keeps_progress] progress.if_moves [OF keeps_progress]
      progress.pure_moves [OF keeps_progress] preparing)
  show "moves (keeps balanced) (flush_acks en)"
    unfolding flush_acks_def Let_def
    by (intro progress.with_moves [OF keeps_progress] progress.if_moves [OF keeps_progress]
      progress.pure_moves [OF keeps_progress]) (rule numbered, rule unrecorded, intro untouched_moves)
qed

section \<open>Every run\<close>

lemma untouched_balanced: "untouched a a' \<Longrightarrow> keeps balanced a a'"
  by (simp add: keeps_def untouched_keeps(2))

lemma untouched_balanced_moves: "moves untouched m \<Longrightarrow> moves (keeps balanced) m"
  unfolding moves_def by (blast intro: untouched_balanced)

lemma empty_accounted: "uw_deque (cn_unacked_packets c) = [] \<Longrightarrow> uw_len (cn_unacked_packets c) = 0 \<Longrightarrow> cn_bytes_in_flight c = 0 \<Longrightarrow> accounted c"
  by (simp add: accounted_def unacked_inv_def weight_def unacked_iter_def unacked_lookup_def dom_def)

lemma established_balanced: "balanced (establish en crypto pn dcid p addr a)"
  unfolding balanced_def by (rule empty_accounted) (simp_all add: establish_def Let_def unacked_clear_def)

interpretation account: running "keeps balanced" "\<lambda>_. True"
proof (intro running.intro receiving.intro sending.intro keeps_progress sending_axioms.intro receiving_axioms.intro
    running_axioms.intro senders_balanced)
  show "keeps balanced a a'" if "inert a a'" for a a'
    by (rule untouched_balanced) (use that in \<open>simp add: untouched_def inert_def conn_inert_def conn_quiet_def\<close>)
  show "keeps balanced a (a\<lparr>ac_state := c\<rparr>)" if "settles (ac_state a) c" for a c
    using settles_accounted [OF that] by (simp add: keeps_def balanced_def)
  show "keeps balanced a (a\<lparr>ac_state := c\<rparr>)" if "restreams (en_config en) (ac_is_client a) (ac_state a) c" for en a c
    by (rule untouched_balanced) (use streams_only_sel [OF restreams_streams_only [OF that]] in \<open>simp add: untouched_def\<close>)
  show "keeps balanced a (establish en crypto pn dcid p addr (a\<lparr>ac_ephemeral_secret := None\<rparr>))" for a en crypto pn dcid p addr
    by (simp add: keeps_def established_balanced)
  show "moves (keeps balanced) (handle_path_response data addr)" for data addr
    unfolding handle_path_response_def
    by (intro untouched_balanced_moves untouched.modify_moves) (simp add: untouched_def)
  show "moves (keeps balanced) (resend_handshake en)" for en
    unfolding resend_handshake_def by (intro untouched_balanced_moves untouched_moves)
  show "moves (keeps balanced) (open_local_stream en st)" for en st
    unfolding open_local_stream_def on_conn_def Let_def
    by (intro untouched_balanced_moves untouched.combine) (simp_all add: stream_insert_def untouched_def)
qed (auto intro!: untouched_balanced simp: untouched_def adopt_context_def Let_def outcome_Ok_iffs split: if_splits)

section \<open>Properties\<close>

text \<open>
  C8: the counter that congestion control decides by is right.  In every run of an actor, whatever is sent,
  acknowledged, lost, timed out or retransmitted, the bytes in flight are the sizes of the packets in the
  window of unacknowledged packets, the window counts them correctly, and their numbers are below the next
  packet number.
\<close>

theorem bytes_in_flight_accounted:
  assumes "cn_unacked_packets (ac_state a) = unacked_new" and "cn_bytes_in_flight (ac_state a) = 0"
    and "reaches (\<lambda>_. True) (loop_start en a) l"
  shows "cn_bytes_in_flight (conn l) = sum_list (map (up_sent_bytes \<circ> snd) (unacked_iter (cn_unacked_packets (conn l))))
    \<and> uw_len (cn_unacked_packets (conn l)) = length (unacked_iter (cn_unacked_packets (conn l)))
    \<and> list_all (\<lambda>pn. pn < cn_next_packet_number (conn l)) (unacked_keys (cn_unacked_packets (conn l)))"
proof -
  have "balanced a"
    using assms(1,2) unfolding balanced_def by (intro empty_accounted) (simp_all add: unacked_new_def)
  then have b: "accounted (conn l)"
    using account.start_respects [of a en] account.run_respects [OF assms(3)] by (simp add: keeps_def balanced_def)
  let ?w = "cn_unacked_packets (conn l)"
  have "length (unacked_iter ?w) = card (fst ` set (unacked_iter ?w))"
    using distinct_card [OF unacked_iter_distinct(1) [of ?w]] by simp
  also have "fst ` set (unacked_iter ?w) = dom (unacked_lookup ?w)" by (force simp: unacked_iter_set)
  finally have "uw_len ?w = length (unacked_iter ?w)" using b uw.size_law [of ?w] by (simp add: accounted_def)
  with b show ?thesis
    by (auto simp: accounted_def weight_def unacked_keys_def list_all_iff unacked_iter_set)
qed

theorem bytes_in_flight_accounted_witness:
  "\<exists>l. cn_bytes_in_flight (conn l) \<ge> 1200
     \<and> cn_bytes_in_flight (conn l) = sum_list (map (up_sent_bytes \<circ> snd) (unacked_iter (cn_unacked_packets (conn l))))"
proof -
  have c: "ac_state example_client = (ac_state example_client)\<lparr>cn_next_packet_number := 0, cn_cookie := None\<rparr>"
    by (simp add: example_client_def actor_new_def connection_new_def Let_def)
  obtain a1 where run: "send_initial_packet (example_env 0) None (example_client\<lparr>ac_state := ac_state example_client\<rparr>) = (a1, Ok ())"
    and fl: "1200 \<le> cn_bytes_in_flight (ac_state a1)"
    by (rule example_started [OF c]) simp_all
  let ?l = "loop_start (example_env 0) example_client"
  have "el_actor ?l = a1" using run example_ready(1) by (simp add: loop_start_def on_actor_def client_ready_def Let_def)
  moreover have "cn_unacked_packets (ac_state example_client) = unacked_new" "cn_bytes_in_flight (ac_state example_client) = 0"
    by (simp_all add: example_client_def actor_new_def connection_new_def Let_def)
  ultimately show ?thesis
    using bytes_in_flight_accounted [of example_client "example_env 0" ?l, OF _ _ reaches.here] fl by (intro exI [of _ ?l]) simp
qed

end
