(* ===== verification/Zt_Authentic.thy ===== *)
theory Zt_Authentic
  imports Zt_Agreement
begin

text \<open>
  Who a client talks to.  A client becomes active only on an answer that carries a signature over the
  whole exchange, made with a key the application accepts.  The invariant is followed through every run
  of the actor with the locales of \<^verbatim>\<open>Zt_Steps\<close>.
\<close>

section \<open>The signature behind an active connection\<close>

text \<open>
  \<open>vouched trusted ver sha config scid key a\<close>: the actor has this id and key, and if it is an active client,
  an accepted key has signed the exchange of them with the id it now sends to.
\<close>

definition vouched ::
  "(bytes \<Rightarrow> bool) \<Rightarrow> (bytes \<Rightarrow> bytes \<Rightarrow> bytes \<Rightarrow> bool) \<Rightarrow> (bytes \<Rightarrow> bytes) \<Rightarrow> zt_config \<Rightarrow> bytes \<Rightarrow> bytes \<Rightarrow> actor \<Rightarrow> bool" where
  "vouched trusted ver sha config scid key a \<longleftrightarrow> cn_scid (ac_state a) = scid \<and> ac_public_key a = key
     \<and> (ac_is_client a \<and> cn_state (ac_state a) = Active \<longrightarrow>
          (\<exists>ed_pk sig first_dcid cookie pk p. trusted ed_pk
             \<and> ver ed_pk (sha (server_transcript scid first_dcid key cookie (parameters_from_config config)
                 (cn_dcid (ac_state a)) pk p)) sig))"

definition same_peer :: "actor \<Rightarrow> actor \<Rightarrow> bool" where
  "same_peer a a' \<longleftrightarrow> ac_is_client a' = ac_is_client a \<and> ac_public_key a' = ac_public_key a
     \<and> cn_scid (ac_state a') = cn_scid (ac_state a) \<and> cn_dcid (ac_state a') = cn_dcid (ac_state a)
     \<and> (cn_state (ac_state a') = Active \<and> ac_is_client a \<longrightarrow> cn_state (ac_state a) = Active)"

lemma same_peer_vouched: "same_peer a a' \<Longrightarrow> keeps (vouched trusted ver sha config scid key) a a'"
  by (auto simp: same_peer_def keeps_def vouched_def)

lemma check_handshake_vouches:
  assumes "check_handshake en a dcid found = Ok (pk, p)"
  obtains ed_pk sig where "verify_peer_key en ed_pk"
    and "en_verify en ed_pk (en_sha256 en (server_transcript (cn_scid (ac_state a)) (cn_dcid (ac_state a)) (ac_public_key a)
      (cn_cookie (ac_state a)) (parameters_from_config (en_config en)) dcid pk p)) sig"
  using assms by (auto simp: check_handshake_def outcome_Ok_iffs Let_def guard_def ok_or_def split: option.splits if_splits)

lemma establish_fields:
  "cn_state (ac_state (establish en crypto pn dcid p addr a)) = Active"
  "cn_dcid (ac_state (establish en crypto pn dcid p addr a)) = dcid"
  "cn_scid (ac_state (establish en crypto pn dcid p addr a)) = cn_scid (ac_state a)"
  "ac_public_key (establish en crypto pn dcid p addr a) = ac_public_key a"
  by (simp_all add: establish_def adopt_parameters_def mark_processed_def Let_def split: option.splits)

section \<open>Following it through the actor\<close>

definition judges :: "(bytes \<Rightarrow> bool) \<Rightarrow> (bytes \<Rightarrow> bytes \<Rightarrow> bytes \<Rightarrow> bool) \<Rightarrow> (bytes \<Rightarrow> bytes) \<Rightarrow> zt_config \<Rightarrow> env \<Rightarrow> bool" where
  "judges trusted ver sha config en \<longleftrightarrow> verify_peer_key en = trusted \<and> en_verify en = ver \<and> en_sha256 en = sha
     \<and> en_config en = config"

lemma sendmsg_same_peer: "moves same_peer (sendmsg_vectored en data)"
  by (auto simp: same_peer_def moves_def sendmsg_vectored_def amplification_limit_reached_def awith_def abind_def athen_def
    try_send_to_def on_conn_def amodify_def areturn_def aerr_def Let_def split: option.split)

lemma same_peer_moves: "moves same_peer m \<Longrightarrow> moves (keeps (vouched trusted ver sha config scid key)) m"
  unfolding moves_def by (blast intro: same_peer_vouched)

interpretation peer_senders: bystander same_peer
  by (intro bystander.intro progress.intro bystander_axioms.intro sendmsg_same_peer) (auto simp: same_peer_def unseen_def)

lemma established_vouched:
  assumes "judges trusted ver sha config en" and "check_handshake en a dcid found = Ok (pk, p)"
  shows "keeps (vouched trusted ver sha config scid key) a (establish en crypto pn dcid p addr (a\<lparr>ac_ephemeral_secret := x\<rparr>))"
proof -
  obtain ed_pk sig where "verify_peer_key en ed_pk"
    "en_verify en ed_pk (en_sha256 en (server_transcript (cn_scid (ac_state a)) (cn_dcid (ac_state a)) (ac_public_key a)
      (cn_cookie (ac_state a)) (parameters_from_config (en_config en)) dcid pk p)) sig"
    by (rule check_handshake_vouches [OF assms(2)])
  then show ?thesis using assms(1) by (simp add: keeps_def vouched_def judges_def establish_fields) blast
qed

interpretation voucher: running "keeps (vouched trusted ver sha config scid key)" "judges trusted ver sha config"
  for trusted ver sha config scid key
proof (intro running.intro receiving.intro sending.intro keeps_progress sending_axioms.intro receiving_axioms.intro
    running_axioms.intro same_peer_moves peer_senders.senders_move)
  let ?R = "keeps (vouched trusted ver sha config scid key)"
  show "?R a a'" if "inert a a'" for a a'
    by (rule same_peer_vouched, rule peer_senders.unseen_step, rule inert_unseen [OF that])
  show "?R a (a\<lparr>ac_state := c\<rparr>)" if "settles (ac_state a) c" for a c
    by (rule same_peer_vouched, rule peer_senders.unseen_step, rule quiet_unseen [OF settles_quiet [OF that]])
  show "?R a (a\<lparr>ac_state := c\<rparr>)" if "restreams (en_config en) (ac_is_client a) (ac_state a) c" for en a c
    using streams_only_sel [OF restreams_streams_only [OF that]] by (intro same_peer_vouched) (simp add: same_peer_def)
  show "?R a (establish en crypto pn dcid p addr (a\<lparr>ac_ephemeral_secret := None\<rparr>))"
    if "judges trusted ver sha config en" and "check_handshake en a dcid found = Ok (pk, p)" for en a dcid found pk p crypto pn addr
    by (rule established_vouched [OF that])
  show "moves same_peer (handle_path_response data addr)" for data addr
    unfolding handle_path_response_def by (rule peer_senders.modify_moves) (simp add: same_peer_def)
  show "moves same_peer (open_local_stream en st)" for en st
    unfolding open_local_stream_def on_conn_def Let_def
    by (intro peer_senders.combine) (simp_all add: stream_insert_def same_peer_def)
qed (auto intro!: same_peer_vouched simp: same_peer_def adopt_context_def Let_def outcome_Ok_iffs split: if_splits)

section \<open>Example\<close>

lemma incoming_turn:
  assumes "process_incoming_packet en data addr (el_actor l) = (a, Ok ())" and "cn_unpaced_queue (ac_state a) = []"
    and "cn_state (conn l) \<noteq> Closed"
  shows "cn_state (conn (loop_turn en (Message (IncomingPacket data addr)) l)) = cn_state (ac_state a)
    \<and> cn_dcid (conn (loop_turn en (Message (IncomingPacket data addr)) l)) = cn_dcid (ac_state a)"
proof -
  have flush: "\<exists>m'. on_actor (flush_pacing_queue en) m = (m', Ok None) \<and> cn_state (conn m') = cn_state (ac_state a)
      \<and> cn_dcid (conn m') = cn_dcid (ac_state a)" if "el_actor m = a" for m
    using that assms(2)
    by (auto simp: on_actor_def flush_pacing_queue_def refill_tokens_def on_conn_def run_simps Let_def split: option.split)
  define m where "m = (l\<lparr>el_idle_deadline := en_now en + cn_idle_timeout (conn l), el_actor := a\<rparr>)"
  define m1 where "m1 = (if ac_pending_acks (el_actor m) > 0 \<and> el_ack_deadline m > en_now en + millis 25
       then m\<lparr>el_ack_deadline := en_now en + millis 25\<rparr> else m)"
  obtain m2 where "on_actor (flush_pacing_queue en) m1 = (m2, Ok None)" "cn_state (conn m2) = cn_state (ac_state a)"
    "cn_dcid (conn m2) = cn_dcid (ac_state a)"
    using flush [of m1] by (auto simp: m1_def m_def)
  moreover have "on_actor (process_incoming_packet en data addr) (l\<lparr>el_idle_deadline := en_now en + cn_idle_timeout (conn l)\<rparr>) = (m, Ok ())"
    using assms(1) by (simp add: on_actor_def m_def)
  ultimately show ?thesis
    using assms(3) unfolding m1_def
    by (cases "ac_pending_acks (el_actor m) > 0 \<and> el_ack_deadline m > en_now en + millis 25")
       (simp_all add: loop_turn_def handle_event_def handle_message_def handle_incoming_def run_simps set_idle_def reset_pacing_def
        end_turn_def update_rto_timer_def Let_def)
qed

lemma example_active:
  obtains l where "reaches (\<lambda>en. \<exists>t. en = example_env t) (loop_start (example_env 0)
      (example_client\<lparr>ac_state := (ac_state example_client)\<lparr>cn_next_packet_number := 0, cn_cookie := Some example_cookie\<rparr>\<rparr>)) l"
    and "cn_state (conn l) = Active"
proof -
  define c where "c = (ac_state example_client)\<lparr>cn_next_packet_number := 0, cn_cookie := Some example_cookie\<rparr>"
  let ?a = "example_client\<lparr>ac_state := c\<rparr>" and ?en = "example_env 0"
  obtain a1 where run: "send_initial_packet ?en None ?a = (a1, Ok ())" and a1: "cn_cookie (ac_state a1) = Some example_cookie"
    "cn_state (ac_state a1) = Handshaking" "cn_scid (ac_state a1) = [1]" "highest_processed (ac_state a1) = 0" "\<not> connection_is_replay (ac_state a1) 0"
    "cn_dcid (ac_state a1) = [3]" "ac_public_key a1 = replicate 32 4" "ac_ephemeral_secret a1 = Some [5]" "cn_unpaced_queue (ac_state a1) = []"
    by (rule example_started [OF c_def]) simp_all
  let ?h = "initial_header c (cn_next_packet_number c) 1"
  let ?fr = "response_frames ?en example_endpoint ?h (replicate 32 4) (Some example_cookie) (parameters_from_config (en_config ?en)) [1] (replicate 32 8)"
  have f: "sv_env example_sv = ?en" "snd (sv_keypair example_sv) = replicate 32 8" "length (ep_ed_public_key example_endpoint) = 32"
    "cn_scid c = [1]" "ac_public_key ?a = replicate 32 4" "ac_is_client ?a" "cn_state c = Handshaking" "length (en_alpn ?en) < 256"
    by (simp_all add: example_sv_def example_endpoint_def c_def example_client_def actor_new_def connection_new_def example_env_def Let_def)
  have h: "ph_scid (initial_header c k n) = [1]" "ph_dcid (initial_header c k n) = [3]" for k n
    by (simp_all add: initial_header_def c_def example_client_def actor_new_def connection_new_def Let_def)
  have m: "maskable (en_crypto ?en) (context_at (en_crypto ?en) (derive_initial_secret (en_crypto ?en) (ph_scid ?h)) False 0) 0
      (encode_header (response_header (ph_scid ?h) [1])) ?fr"
    using example_maskable(2) [OF c_def, of example_endpoint ?en example_cookie] f(5) by (simp add: response_maskable_def f(1,2,4) h Let_def)
  obtain response where seal: "seal_packet (en_crypto ?en) (context_at (en_crypto ?en) (derive_initial_secret (en_crypto ?en) [1]) False 0) 0
      (encode_header (response_header [1] [1])) ?fr = Ok response"
    by (rule handshake_response_run [OF example_primitives _ _ _ f(3,8) m]) (simp_all add: h)
  obtain a2 where a2: "process_incoming_packet (example_env 70) response example_addr a1 = (a2, Ok ())" "cn_state (ac_state a2) = Active"
    "cn_unpaced_queue (ac_state a2) = []"
    by (rule client_side [OF example_primitives [of 70] example_primitives [of 0], of a1 "[5]" example_cookie example_endpoint "replicate 32 8" "[1]" ?h response])
       (use a1 seal example_ready(4) in \<open>simp_all add: h trusts_def example_env_def example_endpoint_def verify_peer_key_def\<close>)
  let ?l = "loop_start ?en ?a"
  have l: "el_actor ?l = a1" "el_running ?l" using run f by (simp_all add: loop_start_def on_actor_def Let_def)
  let ?l' = "loop_turn (example_env 70) (Message (IncomingPacket response example_addr)) ?l"
  have "cn_state (conn ?l') = Active" using incoming_turn [of "example_env 70" response example_addr ?l a2] l a1 a2 by simp
  moreover have "reaches (\<lambda>en. \<exists>t. en = example_env t) ?l ?l'" by (rule reaches.turn [OF reaches.here l(2)]) auto
  ultimately show ?thesis using that by (simp add: c_def)
qed

section \<open>Properties\<close>

text \<open>
  C4: a client talks only to a peer whose key was accepted.  In every run of a client's actor, whatever
  packets arrive, when the connection is active then the owner of a key the application trusts has signed
  the exchange: the client's identifier and ephemeral key, its parameters, and the identifier the client
  now sends to.  \<open>signed_by\<close> gives the messages the owner of a key has signed; that a signature is accepted only for
  those is the unforgeability of the signature scheme.
\<close>

theorem client_active_only_if_authenticated:
  assumes "ac_is_client a" and "cn_state (ac_state a) = Handshaking" and "judges trusted ver sha config en"
    and "\<And>key msg sig. ver key msg sig \<Longrightarrow> signed_by key msg"
    and "reaches (judges trusted ver sha config) (loop_start en a) l" and "cn_state (conn l) = Active"
  shows "\<exists>ed_pk first_dcid cookie pk p. trusted ed_pk
     \<and> signed_by ed_pk (sha (server_transcript (cn_scid (ac_state a)) first_dcid (ac_public_key a) cookie
         (parameters_from_config config) (cn_dcid (conn l)) pk p))"
proof -
  have "vouched trusted ver sha config (cn_scid (ac_state a)) (ac_public_key a) (el_actor l)"
    using voucher.start_respects [OF assms(3), of "cn_scid (ac_state a)" "ac_public_key a" a]
      voucher.run_respects [OF assms(5), of "cn_scid (ac_state a)" "ac_public_key a"] assms(2)
    by (simp add: keeps_def vouched_def)
  moreover have "ac_is_client (el_actor l)"
    using role.start_respects [of a en] role.run_respects [OF reaches_any [OF assms(5)]] assms(1) by (simp add: same_role_def)
  ultimately show ?thesis using assms(4,6) unfolding vouched_def by blast
qed

theorem client_active_only_if_authenticated_witness:
  "\<exists>l ed_pk first_dcid cookie pk p. cn_state (conn l) = Active \<and> verify_peer_key (example_env 0) ed_pk
     \<and> en_verify (example_env 0) ed_pk (en_sha256 (example_env 0) (server_transcript [1] first_dcid (replicate 32 4) cookie
         (parameters_from_config default_config) (cn_dcid (conn l)) pk p)) (replicate 64 0)"
proof -
  let ?en = "example_env 0"
  let ?a = "example_client\<lparr>ac_state := (ac_state example_client)\<lparr>cn_next_packet_number := 0, cn_cookie := Some example_cookie\<rparr>\<rparr>"
  let ?judges = "judges (verify_peer_key ?en) (en_verify ?en) (en_sha256 ?en) default_config"
  have a: "ac_is_client ?a" "cn_state (ac_state ?a) = Handshaking" "cn_scid (ac_state ?a) = [1]" "ac_public_key ?a = replicate 32 4"
    by (simp_all add: example_client_def actor_new_def connection_new_def Let_def)
  have j: "?judges (example_env t)" for t by (simp add: judges_def example_env_def verify_peer_key_def fun_eq_iff)
  have unforged: "en_verify ?en key msg (replicate 64 0)" if "en_verify ?en key msg sig" for key msg sig
    by (simp add: example_env_def)
  obtain l where r: "reaches (\<lambda>en. \<exists>t. en = example_env t) (loop_start ?en ?a) l" and act: "cn_state (conn l) = Active"
    by (rule example_active)
  have r': "reaches ?judges (loop_start ?en ?a) l" by (rule reaches_mono [OF r]) (use j in auto)
  have "\<exists>ed_pk first_dcid cookie pk p. verify_peer_key ?en ed_pk
      \<and> en_verify ?en ed_pk (en_sha256 ?en (server_transcript (cn_scid (ac_state ?a)) first_dcid (ac_public_key ?a) cookie
         (parameters_from_config default_config) (cn_dcid (conn l)) pk p)) (replicate 64 0)"
    by (rule client_active_only_if_authenticated [OF a(1,2) j _ r' act]) (erule unforged)
  then show ?thesis using act unfolding a by blast
qed

end
