(* ===== verification/Zt_Server.thy ===== *)
theory Zt_Server
  imports Zt_Agreement
begin

text \<open>
  What the server does with requests that prove nothing, and with cookies that were used before.
\<close>

section \<open>Unproven requests\<close>

lemma make_retry_cookie_length: "make_retry_cookie hmac key addr scid t = Ok c \<Longrightarrow> length c = 40"
  by (auto simp: make_retry_cookie_def copy_into_def Let_def obind_eq_Ok split: if_splits)

lemma open_initial_Some:
  assumes "open_initial en data = Ok (Some (header, payload))"
  shows "1200 \<le> length data" and "length (ph_scid header) < 256"
proof -
  show "1200 \<le> length data" using assms by (auto simp: open_initial_def split: if_splits)
  have same: "h = header" if "decrypt_initial en h aad p = Ok (Some (header, payload))" for h aad p
    using that by (auto simp: decrypt_initial_def crypto_initial_context Let_def split: if_splits outcome.split_asm)
  obtain d where u: "unprotect_initial en data = Ok d"
    using assms by (auto simp: open_initial_def obind_eq_Ok split: if_splits)
  then obtain rest where "decode_header d = Ok (header, rest)"
    using assms by (cases "decode_header d") (auto simp: open_initial_def split: if_splits dest!: same)
  from decode_header_layout [OF this] show "length (ph_scid header) < 256" by (simp add: wf_header_def)
qed

text \<open>
  Nothing has changed but the wire, by one short datagram at most, and the replay filter, which may have
  lost the entries that are too old to matter.
\<close>

definition only_retried :: "server_env \<Rightarrow> socket_addr \<Rightarrow> bytes \<Rightarrow> endpoint \<Rightarrow> endpoint \<Rightarrow> bool" where
  "only_retried sv addr data e e' \<longleftrightarrow>
     (\<exists>sent fltr. e' = e\<lparr>ep_wire := ep_wire e @ sent, ep_handshake_replay_filter := fltr\<rparr>
        \<and> (fltr = ep_handshake_replay_filter e
          \<or> fltr = filter (\<lambda>(_, t). unat (sv_clock sv) - unat t \<le> cfg_cookie_max_age_ms (en_config (sv_env sv))) (ep_handshake_replay_filter e))
        \<and> length sent \<le> 1
        \<and> (\<forall>(to, d)\<in>set sent. to = addr \<and> length d \<le> 303 \<and> length d < length data))"

lemma only_retried_refl: "only_retried sv addr data e e"
  unfolding only_retried_def by (rule exI [of _ "[]"], rule exI [of _ "ep_handshake_replay_filter e"]) simp

lemma only_retried_clean: "only_retried sv addr data e (clean_replay_filter sv e)"
  unfolding only_retried_def
  by (rule exI [of _ "[]"], rule exI [of _ "ep_handshake_replay_filter (clean_replay_filter sv e)"]) (auto simp: clean_replay_filter_def)

lemma send_retry_only:
  assumes "length scid < 256" and "length cookie = 40" and "1200 \<le> length data"
  shows "only_retried sv addr data e (fst (send_retry sv addr scid pn cookie e))"
  unfolding only_retried_def
  by (rule exI [of _ "if sv_try_send sv = None then [(addr, encode_header \<lparr>ph_type = Pt_Retry, ph_is_long = True,
        ph_version = PROTOCOL_VERSION, ph_dcid = scid, ph_scid = [], ph_packet_number = pn, ph_key_phase = False, ph_pn_len = 1\<rparr> @ cookie)] else []"],
      rule exI [of _ "ep_handshake_replay_filter e"])
     (use assms in \<open>auto simp: send_retry_def endpoint_send_def run_simps encode_header_def put_pn_def clamp_pn_len_def Let_def\<close>)

text \<open>The request came from its address lately, is the first with its cookie, and is signed by an accepted key.\<close>

definition proven :: "server_env \<Rightarrow> bytes \<Rightarrow> socket_addr \<Rightarrow> endpoint \<Rightarrow> bool" where
  "proven sv data addr e \<longleftrightarrow>
     (\<exists>header payload pk ed th sig alpn ck tp.
        open_initial (sv_env sv) data = Ok (Some (header, payload))
      \<and> scan_initial payload None None None = Ok (Some (pk, ed, th, sig, alpn), Some ck, Some tp)
      \<and> verify_retry_cookie (sv_hmac sv) (ep_cookie_key e) addr (ph_scid header) ck (sv_clock sv)
          (of_nat (cfg_cookie_max_age_ms (en_config (sv_env sv)))) = Ok True
      \<and> \<not> cookie_used (replay_cookie_hmac (Some ck)) (clean_replay_filter sv e)
      \<and> en_verify (sv_env sv) ed (en_sha256 (sv_env sv)
          (initial_transcript (ph_scid header) (ph_dcid header) pk (Some ck) tp)) sig
      \<and> verify_peer_key (sv_env sv) ed)"

lemma handle_handshake_read:
  obtains (unread) "fst (handle_handshake sv data addr e) = e"
  | (read) header payload hs ck tp where "open_initial (sv_env sv) data = Ok (Some (header, payload))"
      "scan_initial payload None None None = Ok (Some hs, ck, Some tp)"
      "handle_handshake sv data addr e = answer_initial sv (length data) addr header hs ck tp e"
proof (cases "\<exists>header payload hs ck tp. open_initial (sv_env sv) data = Ok (Some (header, payload))
    \<and> scan_initial payload None None None = Ok (Some hs, ck, Some tp)")
  case True
  then show ?thesis using read by (auto simp: handle_handshake_def run_simps)
next
  case False
  then show ?thesis
    by (intro unread) (auto simp: handle_handshake_def abind_def alift_def areturn_def ok_or_def split: outcome.splits option.splits)
qed

lemma unproven_only_retried:
  assumes "\<not> proven sv data addr e"
  shows "only_retried sv addr data e (fst (handle_handshake sv data addr e))"
proof (rule handle_handshake_read [of sv data addr e])
  fix header payload hs ck tp
  assume o: "open_initial (sv_env sv) data = Ok (Some (header, payload))"
    and sc: "scan_initial payload None None None = Ok (Some hs, ck, Some tp)"
    and run: "handle_handshake sv data addr e = answer_initial sv (length data) addr header hs ck tp e"
  note len = open_initial_Some [OF o]
  obtain pk ed th sig alpn where hs: "hs = (pk, ed, th, sig, alpn)" by (metis prod_cases5)
  consider (no) r where "is_cookie_valid sv (ep_cookie_key e) addr (ph_scid header) ck = r" "r \<noteq> Ok True"
    | (yes) c where "ck = Some c" "is_cookie_valid sv (ep_cookie_key e) addr (ph_scid header) ck = Ok True"
    by (cases ck) (auto simp: is_cookie_valid_def)
  then show ?thesis
  proof cases
    case no
    then show ?thesis
      using only_retried_refl send_retry_only [OF len(2) _ len(1)] make_retry_cookie_length
      by (cases r) (auto simp: run answer_initial_def run_simps abind_def alift_def Let_def split: outcome.splits)
  next
    case yes
    then have "cookie_used (replay_cookie_hmac ck) (clean_replay_filter sv e) \<or> authenticate_client (sv_env sv) header hs ck tp \<noteq> Ok ()"
      using assms o sc hs by (auto simp: proven_def is_cookie_valid_def authenticate_client_def Let_def guard_eq_Ok)
    then show ?thesis
      using yes hs only_retried_refl only_retried_clean
      by (auto simp: run answer_initial_def run_simps abind_def alift_def aerr_def Let_def split: outcome.splits)
  qed
qed (simp add: only_retried_refl)

section \<open>Used cookies\<close>

definition max_age :: "server_env \<Rightarrow> nat" where
  "max_age sv = cfg_cookie_max_age_ms (en_config (sv_env sv))"

lemma valid_cookie_age:
  assumes "is_cookie_valid sv key addr scid (Some ck) = Ok True"
  shows "length ck = 40" and "(from_be (take 8 ck) :: u64) \<le> sv_clock sv"
    and "unat (sv_clock sv) - unat (from_be (take 8 ck) :: u64) \<le> max_age sv"
proof -
  let ?t = "from_be (take 8 ck) :: u64"
  have *: "length ck = 40 \<and> ?t \<le> sv_clock sv \<and> sv_clock sv - ?t \<le> of_nat (max_age sv)"
    using assms by (auto simp: is_cookie_valid_def verify_retry_cookie_def Let_def max_age_def split: if_splits)
  then show "length ck = 40" and "?t \<le> sv_clock sv" by blast+
  have "unat (sv_clock sv - ?t) \<le> unat (of_nat (max_age sv) :: u64)" using * by (simp add: word_le_nat_alt)
  also have "\<dots> \<le> max_age sv" by (simp add: unat_of_nat)
  finally show "unat (sv_clock sv) - unat ?t \<le> max_age sv" using * by (simp add: unat_sub)
qed

lemma clean_keeps:
  "(h, t) \<in> set (ep_handshake_replay_filter e) \<Longrightarrow> unat (sv_clock sv) - unat t \<le> max_age sv \<Longrightarrow>
     (h, t) \<in> set (ep_handshake_replay_filter (clean_replay_filter sv e))"
  by (auto simp: clean_replay_filter_def max_age_def)

lemma accept_client_filter:
  "ep_handshake_replay_filter (fst (accept_client sv len addr header pk ck tp e)) = ep_handshake_replay_filter e"
  "ep_cookie_key (fst (accept_client sv len addr header pk ck tp e)) = ep_cookie_key e"
  by (auto simp: accept_client_def run_simps abind_def athen_def alift_def amodify_def register_def unregister_def spawn_def
      post_def endpoint_send_def Let_def split: outcome.splits prod.splits)

lemma send_retry_filter:
  "ep_handshake_replay_filter (fst (send_retry sv addr scid pn ck e)) = ep_handshake_replay_filter e"
  "ep_tasks (fst (send_retry sv addr scid pn ck e)) = ep_tasks e" "ep_cookie_key (fst (send_retry sv addr scid pn ck e)) = ep_cookie_key e"
  by (simp_all add: send_retry_def endpoint_send_def run_simps Let_def)

lemma answer_initial_key: "ep_cookie_key (fst (answer_initial sv len addr header hs ck tp e)) = ep_cookie_key e"
  by (auto simp: answer_initial_def run_simps abind_def athen_def alift_def awith_def areturn_def aerr_def amodify_def consume_cookie_def
      clean_replay_filter_def accept_client_filter send_retry_filter Let_def split: outcome.splits prod.splits option.splits)

text \<open>The three ways a request can end: dropped or retried, refused, or accepted with its cookie consumed.\<close>

lemma answer_initial_cases:
  fixes sv len addr header hs ck tp e
  defines "e' \<equiv> fst (answer_initial sv len addr header hs ck tp e)"
  obtains (quiet) "ep_tasks e' = ep_tasks e" "ep_handshake_replay_filter e' = ep_handshake_replay_filter e"
      "is_cookie_valid sv (ep_cookie_key e) addr (ph_scid header) ck \<noteq> Ok True \<or> ep_wire e' = ep_wire e"
  | (refused) "e' = clean_replay_filter sv e"
  | (consumed) c where "ck = Some c" "is_cookie_valid sv (ep_cookie_key e) addr (ph_scid header) ck = Ok True"
      "drop 8 c \<notin> fst ` set (ep_handshake_replay_filter (clean_replay_filter sv e))"
      "ep_handshake_replay_filter e' = AList.update (drop 8 c) (sv_clock sv) (ep_handshake_replay_filter (clean_replay_filter sv e))"
proof -
  let ?v = "is_cookie_valid sv (ep_cookie_key e) addr (ph_scid header) ck" and ?e = "clean_replay_filter sv e"
  obtain pk ed th sig alpn where hs: "hs = (pk, ed, th, sig, alpn)" by (metis prod_cases5)
  show ?thesis
  proof (cases "?v = Ok True")
    case False
    then show ?thesis
      by (intro quiet) (auto simp: e'_def answer_initial_def run_simps abind_def alift_def send_retry_filter Let_def split: outcome.splits)
  next
    case True
    then obtain c where c: "ck = Some c" "length c = 40"
      using valid_cookie_age(1) by (cases ck) (auto simp: is_cookie_valid_def)
    show ?thesis
    proof (cases "alpn = en_alpn (sv_env sv) \<and> \<not> cookie_used (Some (drop 8 c)) ?e \<and> authenticate_client (sv_env sv) header hs ck tp = Ok ()")
      case False
      then have "e' = e \<or> e' = ?e"
        using True c hs
        by (auto simp: e'_def answer_initial_def run_simps abind_def alift_def aerr_def replay_cookie_hmac_def Let_def split: outcome.splits)
      then show ?thesis using quiet refused by auto
    next
      case acc: True
      then have "ep_handshake_replay_filter e' = AList.update (drop 8 c) (sv_clock sv) (ep_handshake_replay_filter ?e)"
        using True c hs
        by (elim conjE) (simp add: e'_def answer_initial_def run_simps replay_cookie_hmac_def consume_cookie_def accept_client_filter Let_def)
      then show ?thesis using consumed [OF c(1) True] acc by (simp add: cookie_used_def)
    qed
  qed
qed


lemma clean_replay_filter_fields [simp]:
  "ep_tasks (clean_replay_filter sv e) = ep_tasks e" "ep_wire (clean_replay_filter sv e) = ep_wire e"
  by (simp_all add: clean_replay_filter_def)

text \<open>What a request presents: the client's identifier and the cookie, if any.\<close>

definition presents :: "env \<Rightarrow> bytes \<Rightarrow> bytes \<Rightarrow> bytes option \<Rightarrow> bool" where
  "presents en data scid ck \<longleftrightarrow> (\<exists>header payload hs tp. open_initial en data = Ok (Some (header, payload))
     \<and> scan_initial payload None None None = Ok (Some hs, ck, Some tp) \<and> scid = ph_scid header)"

lemma presents_unique: "presents en data scid ck \<Longrightarrow> presents en data scid' ck' \<Longrightarrow> scid' = scid \<and> ck' = ck"
  by (auto simp: presents_def)

lemma carries_presents: "carries en data ck \<longleftrightarrow> (\<exists>scid. presents en data scid (Some ck))"
  by (auto simp: carries_def presents_def)

text \<open>The same for a whole request, with the cookie it carries.\<close>

lemma handle_handshake_cases:
  fixes sv data addr e
  defines "e' \<equiv> fst (handle_handshake sv data addr e)"
  obtains (quiet) "ep_tasks e' = ep_tasks e" "ep_handshake_replay_filter e' = ep_handshake_replay_filter e"
      "ep_wire e' = ep_wire e \<or> (\<exists>scid ck. presents (sv_env sv) data scid ck \<and> is_cookie_valid sv (ep_cookie_key e) addr scid ck \<noteq> Ok True)"
  | (refused) "e' = clean_replay_filter sv e"
  | (consumed) c scid where "presents (sv_env sv) data scid (Some c)" "is_cookie_valid sv (ep_cookie_key e) addr scid (Some c) = Ok True"
      "drop 8 c \<notin> fst ` set (ep_handshake_replay_filter (clean_replay_filter sv e))"
      "ep_handshake_replay_filter e' = AList.update (drop 8 c) (sv_clock sv) (ep_handshake_replay_filter (clean_replay_filter sv e))"
proof (rule handle_handshake_read [of sv data addr e])
  assume "fst (handle_handshake sv data addr e) = e"
  then show ?thesis using quiet by (simp add: e'_def)
next
  fix header payload hs ck tp
  assume r: "open_initial (sv_env sv) data = Ok (Some (header, payload))"
      "scan_initial payload None None None = Ok (Some hs, ck, Some tp)"
      "handle_handshake sv data addr e = answer_initial sv (length data) addr header hs ck tp e"
  then have p: "presents (sv_env sv) data (ph_scid header) ck" unfolding presents_def by blast
  show ?thesis
  proof (rule answer_initial_cases [of sv "length data" addr header hs ck tp e], goal_cases)
    case 1
    then show ?case using p by (intro quiet) (auto simp: e'_def r(3))
  next
    case 2
    then show ?case using refused by (simp add: e'_def r)
  next
    case (3 c)
    then show ?case using p consumed by (simp add: e'_def r)
  qed
qed

lemma update_keeps: "(h, t) \<in> set xs \<Longrightarrow> h \<noteq> k \<Longrightarrow> (h, t) \<in> set (AList.update k v xs)"
  by (induction xs) auto

text \<open>A consumed cookie stays in the filter for as long as any cookie issued before its use may live.\<close>

definition remembered :: "bytes \<Rightarrow> u64 \<Rightarrow> server_env \<Rightarrow> endpoint \<Rightarrow> bool" where
  "remembered h t sv e \<longleftrightarrow> t \<le> sv_clock sv \<and> (unat (sv_clock sv) - unat t \<le> max_age sv \<longrightarrow> (h, t) \<in> set (ep_handshake_replay_filter e))"

lemma remembered_step:
  assumes "remembered h t sv e"
  shows "remembered h t sv (fst (handle_handshake sv data addr e))"
proof (cases rule: handle_handshake_cases [of sv data addr e])
  case (consumed c scid)
  then have "(h, t) \<in> set (ep_handshake_replay_filter (clean_replay_filter sv e)) \<Longrightarrow> h \<noteq> drop 8 c" by force
  then show ?thesis using assms clean_keeps [of h t e sv] consumed(4) update_keeps by (auto simp: remembered_def)
qed (use assms clean_keeps [of h t e sv] in \<open>auto simp: remembered_def\<close>)

lemma remembered_later:
  "remembered h t sv e \<Longrightarrow> sv_clock sv \<le> sv_clock sv' \<Longrightarrow> max_age sv' = max_age sv \<Longrightarrow> remembered h t sv' e"
  by (auto simp: remembered_def word_le_nat_alt)

text \<open>A request whose cookie is remembered since after it was issued opens nothing, and is not even answered while valid.\<close>

lemma remembered_blocks:
  assumes "remembered (drop 8 ck) t sv e" and "from_be (take 8 ck) \<le> t" and "carries (sv_env sv) data ck"
  shows "ep_tasks (fst (handle_handshake sv data addr e)) = ep_tasks e
    \<and> (ep_wire (fst (handle_handshake sv data addr e)) = ep_wire e
      \<or> (\<exists>scid ck. presents (sv_env sv) data scid ck \<and> is_cookie_valid sv (ep_cookie_key e) addr scid ck \<noteq> Ok True))"
proof (cases rule: handle_handshake_cases [of sv data addr e])
  case (consumed c scid)
  have [simp]: "c = ck" using assms(3) presents_unique [OF consumed(1)] by (auto simp: carries_presents)
  have "unat (sv_clock sv) - unat t \<le> max_age sv"
    using valid_cookie_age(3) [OF consumed(2)] assms(2) by (simp add: word_le_nat_alt)
  then have "(drop 8 c, t) \<in> set (ep_handshake_replay_filter (clean_replay_filter sv e))"
    using assms(1) clean_keeps by (auto simp: remembered_def)
  then show ?thesis using consumed(3) by force
qed simp_all

lemma accepted_remembered:
  assumes "ep_tasks (fst (handle_handshake sv data addr e)) \<noteq> ep_tasks e"
  obtains ck scid where "presents (sv_env sv) data scid (Some ck)" and "from_be (take 8 ck) \<le> sv_clock sv"
    and "is_cookie_valid sv (ep_cookie_key e) addr scid (Some ck) = Ok True"
    and "remembered (drop 8 ck) (sv_clock sv) sv (fst (handle_handshake sv data addr e))"
proof (cases rule: handle_handshake_cases [of sv data addr e])
  case (consumed c scid)
  have "(drop 8 c, sv_clock sv) \<in> set (ep_handshake_replay_filter (fst (handle_handshake sv data addr e)))"
    unfolding consumed(4) by (metis map_of_SomeD update_conv' fun_upd_same)
  then show ?thesis using that [OF consumed(1) valid_cookie_age(2) [OF consumed(2)] consumed(2)] by (simp add: remembered_def)
qed (use assms in simp_all)

text \<open>A valid cookie stays valid until it is too old.\<close>

lemma valid_later:
  assumes "is_cookie_valid sv key addr scid (Some ck) = Ok True" and "sv_clock sv \<le> sv_clock sv'" and "sv_hmac sv' = sv_hmac sv"
    and "sv_clock sv' - from_be (take 8 ck) \<le> of_nat (cfg_cookie_max_age_ms (en_config (sv_env sv')))"
  shows "is_cookie_valid sv' key addr scid (Some ck) = Ok True"
  using assms valid_cookie_age(2) [OF assms(1)] by (auto simp: is_cookie_valid_def verify_retry_cookie_def Let_def split: if_splits)

lemma handle_handshake_key: "ep_cookie_key (fst (handle_handshake sv data addr e)) = ep_cookie_key e"
  by (rule handle_handshake_read [of sv data addr e]) (simp_all add: answer_initial_key)

section \<open>Runs of requests\<close>

text \<open>Requests as the router hands them over, each at its instant.\<close>

fun serve :: "(server_env \<times> bytes \<times> socket_addr) list \<Rightarrow> endpoint \<Rightarrow> endpoint" where
  "serve [] e = e"
| "serve ((sv, data, addr) # rs) e = serve rs (fst (handle_handshake sv data addr e))"

lemma serve_key: "ep_cookie_key (serve rs e) = ep_cookie_key e"
  by (induction rs e rule: serve.induct) (simp_all add: handle_handshake_key)

lemma remembered_serve:
  "remembered h t sv e \<Longrightarrow> sorted (map (sv_clock \<circ> fst) ((sv, d) # rs @ [(sv', d')])) \<Longrightarrow>
     \<forall>r\<in>set (rs @ [(sv', d')]). max_age (fst r) = max_age sv \<Longrightarrow> remembered h t sv' (serve rs e)"
proof (induction rs arbitrary: sv e d)
  case Nil
  then show ?case using remembered_later by auto
next
  case (Cons r rs)
  obtain sv1 data addr where r: "r = (sv1, data, addr)" by (cases r) auto
  have "remembered h t sv1 (fst (handle_handshake sv1 data addr e))"
    using Cons.prems by (intro remembered_step remembered_later [OF Cons.prems(1)]) (auto simp: r)
  from Cons.IH [OF this, of undefined] show ?case using Cons.prems(2,3) by (auto simp: r)
qed

section \<open>Example\<close>

lemma example_request:
  assumes "pn < 256"
  obtains data header payload where "open_initial (example_env 0) data = Ok (Some (header, payload))" and "ph_packet_number header = of_nat pn"
    and "presents (example_env 0) data [1] (Some example_cookie)"
    and "ep_tasks (fst (handle_handshake example_sv data example_addr example_endpoint)) \<noteq> []"
proof -
  let ?c = "(ac_state example_client)\<lparr>cn_next_packet_number := pn, cn_cookie := None\<rparr>"
  let ?a = "example_client\<lparr>ac_state := ?c\<rparr>"
  have ready: "client_ready (example_env 0) [6] [5] ?a"
    using example_ready(1) assms by (simp add: client_ready_def highest_processed_def connection_is_replay_def)
  have sv: "sv_env example_sv = example_env 0" "en_config (example_env 0) = default_config" "length (en_alpn (example_env 0)) < 256"
    "sv_accept_room example_sv" "ep_tasks example_endpoint = []" "length example_cookie = 40" "cn_scid (ac_state example_client) = [1]"
    by (simp_all add: example_sv_def example_env_def example_endpoint_def example_cookie_def example_client_def actor_new_def
        connection_new_def Let_def)
  have tr: "trusts (sv_env example_sv) (example_env 0) [6] (ac_ed_public_key ?a)"
    using example_ready(3) [of "[6]" 7] by (simp add: sv example_client_def actor_new_def)
  have mask: "request_maskable (example_env 0) [6] (Some example_cookie) ?a"
    "response_maskable example_sv example_endpoint (example_env 0) ?a example_cookie [1]"
    by (rule example_maskable, rule refl)+
  have pn: "pn = cn_next_packet_number (ac_state ?a)" by simp
  have ck: "length (case Some example_cookie of None \<Rightarrow> [] | Some ck \<Rightarrow> ck) < 65536" by (simp add: sv)
  obtain pn_len data where pl: "wf_header (initial_header (ac_state ?a) pn pn_len)" "take_bit (8 * pn_len) (of_nat pn :: u64) = of_nat pn"
    and seal: "seal_packet (en_crypto (example_env 0)) (context_at (en_crypto (example_env 0))
        (derive_initial_secret (en_crypto (example_env 0)) (cn_dcid (ac_state ?a))) True 0) pn (encode_header (initial_header (ac_state ?a) pn pn_len))
      (padded_initial (example_env 0) ?a [6] (Some example_cookie) (length (encode_header (initial_header (ac_state ?a) pn pn_len)))) = Ok data"
      "1200 \<le> length data"
    by (rule initial_sealed [OF example_primitives ready sv(3) ck mask(1) pn])
  obtain c response where run: "handle_handshake example_sv data example_addr example_endpoint =
      (client_accepted example_sv example_addr (replay_cookie_hmac (Some example_cookie)) [1] c response
        (clean_replay_filter example_sv example_endpoint), Ok ())"
    and carries: "carries (sv_env example_sv) data example_cookie"
    and opened: "open_initial (sv_env example_sv) data = Ok (Some (initial_header (ac_state ?a) pn pn_len,
      padded_initial (example_env 0) ?a [6] (Some example_cookie) (length (encode_header (initial_header (ac_state ?a) pn pn_len)))))"
    by (rule server_side [of "example_env 0" example_sv "[6]" "[5]" ?a example_addr example_cookie "[1]" example_endpoint,
          OF _ _ _ _ _ _ _ ready _ tr mask(2) refl pl assms seal])
       (use example_primitives example_ready in \<open>simp_all add: sv\<close>)
  have "presents (example_env 0) data [1] (Some example_cookie)"
    using carries opened by (auto simp: carries_presents presents_def sv initial_header_def)
  moreover have "ep_tasks (fst (handle_handshake example_sv data example_addr example_endpoint)) \<noteq> []"
    by (simp add: run client_accepted_def Let_def)
  ultimately show ?thesis using that opened by (simp add: sv initial_header_def)
qed

lemma example_server_facts:
  "sv_env example_sv = example_env 0" "sv_clock example_sv = 6000" "ep_tasks example_endpoint = []"
  "cfg_cookie_max_age_ms (en_config (example_env 0)) = 5000" "from_be (take 8 example_cookie) = (1000 :: u64)"
  by (simp_all add: example_sv_def example_endpoint_def example_env_def default_config_def example_cookie_def from_be_to_be take_bit_word_eq_self)

section \<open>Properties\<close>

text \<open>
  C11: a request that does not prove its sender costs the server nothing.  Unless it arrives with a cookie
  the server issued lately to that address and identifier, the first time that cookie is used, and signed
  by a key the server accepts, no connection, task, route or replay entry is created and the keys stay; the
  replay filter keeps all entries but those older than the age limit; at most one datagram is sent, to the
  requester, and it is shorter than the request.
\<close>

theorem unproven_clients_cost_nothing:
  assumes "\<not> proven sv data addr e"
  shows "only_retried sv addr data e (fst (handle_handshake sv data addr e))"
  by (rule unproven_only_retried [OF assms])

theorem unproven_clients_cost_nothing_witness:
  "\<exists>data. let e1 = fst (handle_handshake example_sv data example_addr example_endpoint) in
     ep_tasks e1 \<noteq> [] \<and> only_retried example_sv example_addr data e1 (fst (handle_handshake example_sv data example_addr e1))"
proof -
  obtain data where p: "presents (example_env 0) data [1] (Some example_cookie)"
    and t: "ep_tasks (fst (handle_handshake example_sv data example_addr example_endpoint)) \<noteq> []"
    by (rule example_request [of 0]) simp_all
  let ?e1 = "fst (handle_handshake example_sv data example_addr example_endpoint)"
  obtain ck scid where "presents (example_env 0) data scid (Some ck)" and r: "remembered (drop 8 ck) (sv_clock example_sv) example_sv ?e1"
    by (rule accepted_remembered [of example_sv data example_addr example_endpoint]) (use t in \<open>simp_all add: example_server_facts\<close>)
  then have [simp]: "ck = example_cookie" using p presents_unique by blast
  have "length example_cookie = 40" by (simp add: example_cookie_def)
  then have "cookie_used (replay_cookie_hmac (Some example_cookie)) (clean_replay_filter example_sv ?e1)"
    using r clean_keeps [of "drop 8 ck" "sv_clock example_sv" ?e1 example_sv]
    by (force simp: remembered_def cookie_used_def replay_cookie_hmac_def)
  then have "\<not> proven example_sv data example_addr ?e1"
    using p by (auto simp: proven_def presents_def example_server_facts)
  from unproven_clients_cost_nothing [OF this] show ?thesis using t by (intro exI [of _ data]) (simp add: Let_def)
qed

text \<open>
  C10: a cookie opens at most one connection.  Once a request has led to a task, no later request with the
  same cookie does, whatever requests are served in between and whoever sends them, as long as the clock
  does not run backwards and the age limit stays as it is: the replay filter forgets no cookie that could
  still be accepted.
\<close>

theorem cookie_opens_one_connection:
  assumes "sorted (map (sv_clock \<circ> fst) ((sv1, data1, addr1) # rs @ [(sv2, data2, addr2)]))"
    and "\<forall>(sv, _)\<in>set (rs @ [(sv2, data2, addr2)]). cfg_cookie_max_age_ms (en_config (sv_env sv)) = cfg_cookie_max_age_ms (en_config (sv_env sv1))"
    and "e1 = serve [(sv1, data1, addr1)] e" and "ep_tasks e1 \<noteq> ep_tasks e" and "carries (sv_env sv1) data1 ck"
    and "e2 = serve rs e1" and "carries (sv_env sv2) data2 ck"
  shows "ep_tasks (fst (handle_handshake sv2 data2 addr2 e2)) = ep_tasks e2"
proof -
  obtain ck' scid where "presents (sv_env sv1) data1 scid (Some ck')" and t: "from_be (take 8 ck') \<le> sv_clock sv1"
    and "is_cookie_valid sv1 (ep_cookie_key e) addr1 scid (Some ck') = Ok True"
    and r: "remembered (drop 8 ck') (sv_clock sv1) sv1 e1"
    by (rule accepted_remembered [of sv1 data1 addr1 e]) (use assms(3,4) in simp_all)
  then have "ck' = ck" using assms(5) presents_unique by (metis carries_presents option.inject)
  have "remembered (drop 8 ck') (sv_clock sv1) sv2 e2"
    unfolding assms(6) by (rule remembered_serve [OF r assms(1)]) (use assms(2) in \<open>auto simp: max_age_def\<close>)
  then show ?thesis using remembered_blocks t assms(7) by (simp add: \<open>ck' = ck\<close>)
qed

theorem cookie_opens_one_connection_witness:
  "\<exists>data. let later = example_sv\<lparr>sv_clock := 6100\<rparr>; e1 = serve [(example_sv, data, example_addr)] example_endpoint;
      e2 = serve [(example_sv, [], example_addr)] e1 in
    ep_tasks e1 \<noteq> [] \<and> ep_tasks (fst (handle_handshake later data example_addr e2)) = ep_tasks e2"
proof -
  obtain data where p: "presents (example_env 0) data [1] (Some example_cookie)"
    and t: "ep_tasks (fst (handle_handshake example_sv data example_addr example_endpoint)) \<noteq> []"
    by (rule example_request [of 0]) simp_all
  have "carries (example_env 0) data example_cookie" using p by (auto simp: carries_presents)
  then show ?thesis
    using cookie_opens_one_connection [of example_sv data example_addr "[(example_sv, [], example_addr)]" "example_sv\<lparr>sv_clock := 6100\<rparr>"
      data example_addr _ example_endpoint example_cookie, OF _ _ refl _ _ refl] t
    by (intro exI [of _ data]) (simp add: example_server_facts Let_def word_le_nat_alt)
qed

text \<open>
  C34: an answer that is lost is not repeated.  A client that saw no answer sends its request again, in a
  new packet with a new number, from the same address, under the same identifier and with the same cookie.
  Whatever was served in between, and as long as the cookie is valid, the server neither answers the
  repeated request nor tells the connection it has already opened: the cookie has been consumed.
\<close>

theorem lost_answer_not_repeated:
  assumes "sorted (map (sv_clock \<circ> fst) ((sv1, data1, addr) # rs @ [(sv2, data2, addr)]))"
    and "\<forall>(sv, _)\<in>set (rs @ [(sv2, data2, addr)]). cfg_cookie_max_age_ms (en_config (sv_env sv)) = cfg_cookie_max_age_ms (en_config (sv_env sv1))"
    and "sv_hmac sv2 = sv_hmac sv1"
    and "e1 = serve [(sv1, data1, addr)] e" and "ep_tasks e1 \<noteq> ep_tasks e" and "presents (sv_env sv1) data1 scid (Some ck)"
    and "e2 = serve rs e1" and "presents (sv_env sv2) data2 scid (Some ck)"
    and "sv_clock sv2 - from_be (take 8 ck) \<le> of_nat (cfg_cookie_max_age_ms (en_config (sv_env sv2)))"
    and "e3 = fst (handle_handshake sv2 data2 addr e2)"
  shows "ep_wire e3 = ep_wire e2 \<and> ep_tasks e3 = ep_tasks e2"
proof -
  obtain ck' scid' where p: "presents (sv_env sv1) data1 scid' (Some ck')" and old: "from_be (take 8 ck') \<le> sv_clock sv1"
    and v: "is_cookie_valid sv1 (ep_cookie_key e) addr scid' (Some ck') = Ok True"
    and r: "remembered (drop 8 ck') (sv_clock sv1) sv1 e1"
    by (rule accepted_remembered [of sv1 data1 addr e]) (use assms(4,5) in simp_all)
  have [simp]: "ck' = ck" "scid' = scid" using assms(6) presents_unique [OF p] by auto
  have key: "ep_cookie_key e2 = ep_cookie_key e" by (simp add: assms(4,7) serve_key handle_handshake_key)
  have "sv_clock sv1 \<le> sv_clock sv2" using assms(1) by auto
  then have valid: "is_cookie_valid sv2 (ep_cookie_key e2) addr scid (Some ck) = Ok True"
    using valid_later [of sv1 "ep_cookie_key e" addr scid ck sv2] v assms(3,9) by (simp add: key)
  have rem: "remembered (drop 8 ck) (sv_clock sv1) sv2 e2"
    unfolding assms(7) by (rule remembered_serve [OF r [simplified] assms(1)]) (use assms(2) in \<open>auto simp: max_age_def\<close>)
  have issued: "from_be (take 8 ck) \<le> sv_clock sv1" using old by simp
  have carried: "carries (sv_env sv2) data2 ck" using assms(8) by (auto simp: carries_presents)
  have "is_cookie_valid sv2 (ep_cookie_key e2) addr scid' ck' = Ok True" if "presents (sv_env sv2) data2 scid' ck'" for scid' ck'
    using presents_unique [OF assms(8) that] valid by simp
  then show ?thesis using remembered_blocks [OF rem issued carried, of addr] unfolding assms(10) by blast
qed

theorem lost_answer_not_repeated_witness:
  "\<exists>data1 data2. let e1 = serve [(example_sv, data1, example_addr)] example_endpoint;
      e2 = serve [(example_sv, [], example_addr)] e1;
      e3 = fst (handle_handshake (example_sv\<lparr>sv_clean_filter := False\<rparr>) data2 example_addr e2) in
    data1 \<noteq> data2 \<and> ep_tasks e1 \<noteq> [] \<and> ep_wire e3 = ep_wire e2 \<and> ep_tasks e3 = ep_tasks e2"
proof -
  obtain data1 h1 p1 where d1: "open_initial (example_env 0) data1 = Ok (Some (h1, p1))" "ph_packet_number h1 = of_nat 0"
    "presents (example_env 0) data1 [1] (Some example_cookie)" "ep_tasks (fst (handle_handshake example_sv data1 example_addr example_endpoint)) \<noteq> []"
    by (rule example_request [of 0]) simp_all
  obtain data2 h2 p2 where d2: "open_initial (example_env 0) data2 = Ok (Some (h2, p2))" "ph_packet_number h2 = of_nat 1"
    "presents (example_env 0) data2 [1] (Some example_cookie)"
    by (rule example_request [of 1]) simp_all
  have "data1 \<noteq> data2" using d1(1,2) d2(1,2) by auto
  then show ?thesis
    using lost_answer_not_repeated [of example_sv data1 example_addr "[(example_sv, [], example_addr)]"
        "example_sv\<lparr>sv_clean_filter := False\<rparr>" data2 _ example_endpoint "[1]" example_cookie, OF _ _ _ refl _ d1(3) [folded example_server_facts(1)] refl _ _ refl]
      d1(4) d2(3)
    by (intro exI [of _ data1] exI [of _ data2]) (simp add: example_server_facts Let_def)
qed

end
