(* ===== verification/Zt_Stream.thy ===== *)
theory Zt_Stream
  imports Zt_EventLoop
begin

text \<open>
  The application's end of a stream (\<^verbatim>\<open>src/src/stream/stream.rs\<close>).  A stream talks to its connection by
  messages and one-shot answers.  What the outside contributes to one poll is a \<open>poll_env\<close>: the values of
  the shared cells, and what successive polls of the answer, of the wake-up future (notification or sleep)
  and of the mailbox find; where a list ends, nothing has arrived yet and the mailbox is full.  Messages
  sent and chunks the connection confirmed are logged.
\<close>

section \<open>State\<close>

datatype receipt = Accepted | Rejected zt_error | SenderDropped | NotYet

record poll_env =
  pe_closed :: bool
  pe_mtu :: nat
  pe_termination :: termination_cell
  pe_receipts :: "receipt list"
  pe_wakeups :: "bool list"
  pe_permits :: "bool list"

datatype write_state = Idle | Sending bytes | Blocked bytes | Pacing bytes

record zt_stream =
  zs_stream_id :: u32
  zs_stream_type :: stream_type
  zs_receiver :: "bytes list"
  zs_receiver_closed :: bool
  zs_current_read_chunk :: "bytes option"
  zs_pending_read_credit :: nat
  zs_write_buffer :: bytes
  zs_write_state :: write_state
  zs_outbox :: "actor_message list"
  zs_confirmed :: bytes

definition zt_stream_new :: "u32 \<Rightarrow> stream_type \<Rightarrow> zt_stream" where
  "zt_stream_new stream_id stream_type =
     \<lparr>zs_stream_id = stream_id, zs_stream_type = stream_type, zs_receiver = [], zs_receiver_closed = False,
      zs_current_read_chunk = None, zs_pending_read_credit = 0, zs_write_buffer = [], zs_write_state = Idle,
      zs_outbox = [], zs_confirmed = []\<rparr>"

type_synonym io_error = "io_kind \<times> zt_error option"

text \<open>\<open>Pending\<close> tells whether the caller's waker was registered with what it waits for, or woken at once.\<close>

datatype 'a poll = Ready "io_error + 'a" | Pending bool

definition next_receipt :: "poll_env \<Rightarrow> receipt \<times> poll_env" where
  "next_receipt pe = (case pe_receipts pe of [] \<Rightarrow> (NotYet, pe) | r # rs \<Rightarrow> (r, pe\<lparr>pe_receipts := rs\<rparr>))"

definition next_wakeup :: "poll_env \<Rightarrow> bool \<times> poll_env" where
  "next_wakeup pe = (case pe_wakeups pe of [] \<Rightarrow> (False, pe) | b # bs \<Rightarrow> (b, pe\<lparr>pe_wakeups := bs\<rparr>))"

definition next_permit :: "poll_env \<Rightarrow> bool \<times> poll_env" where
  "next_permit pe = (case pe_permits pe of [] \<Rightarrow> (False, pe) | b # bs \<Rightarrow> (b, pe\<lparr>pe_permits := bs\<rparr>))"

definition tell :: "actor_message \<Rightarrow> zt_stream \<Rightarrow> zt_stream" where
  "tell msg s = s\<lparr>zs_outbox := zs_outbox s @ [msg]\<rparr>"

section \<open>Sending and receiving calls\<close>

text \<open>The answers that only postpone a chunk.\<close>

definition window_full :: "zt_error \<Rightarrow> bool" where
  "window_full e \<longleftrightarrow> e = FlowControlBlocked \<or> e = CongestionWindowFull"

fun paced :: "zt_error \<Rightarrow> bool" where
  "paced (PacingBlocked _) = True"
| "paced _ = False"

definition chunk_size :: "nat \<Rightarrow> nat" where
  "chunk_size mtu = max (mtu - 64) 512"

text \<open>What one round of the retry loop meets.\<close>

record attempt =
  at_closed :: bool
  at_termination :: termination_cell
  at_sent :: bool
  at_receipt :: receipt
  at_notified :: bool

text \<open>
  The result is \<open>None\<close> while the call waits; the trace lists what was sent and how it was answered.
\<close>

fun send_chunk :: "attempt list \<Rightarrow> bytes \<Rightarrow> attempt list \<times> (bytes \<times> receipt) list \<times> unit outcome option" where
  "send_chunk [] chunk = ([], [], None)"
| "send_chunk (x # xs) chunk =
     (if at_closed x then
        (xs, [], Some (Err (case termination_error (at_termination x) of Some e \<Rightarrow> e | None \<Rightarrow> ActorFailed)))
      else if \<not> at_sent x then (xs, [], Some (Err ActorFailed))
      else
        let sent = (chunk, at_receipt x);
            retry = (\<lambda>(xs, trace, r). (xs, sent # trace, r)) (send_chunk xs chunk)
        in case at_receipt x of
             Accepted \<Rightarrow> (xs, [sent], Some (Ok ()))
           | Rejected e \<Rightarrow>
               if window_full e then if at_notified x then retry else (xs, [sent], Some (Err Timeout))
               else if paced e then retry
               else (xs, [sent], Some (Err e))
           | SenderDropped \<Rightarrow> (xs, [sent], Some (Err ActorFailed))
           | NotYet \<Rightarrow> (xs, [sent], None))"

fun send_chunks :: "attempt list \<Rightarrow> bytes list \<Rightarrow> (bytes \<times> receipt) list \<times> unit outcome option" where
  "send_chunks xs [] = ([], Some (Ok ()))"
| "send_chunks xs (chunk # rest) =
     (case send_chunk xs chunk of
        (xs, trace, Some (Ok _)) \<Rightarrow> (case send_chunks xs rest of (trace', r) \<Rightarrow> (trace @ trace', r))
      | (xs, trace, r) \<Rightarrow> (trace, r))"

text \<open>\<^verbatim>\<open>slice::chunks\<close>\<close>

function chunks :: "nat \<Rightarrow> 'a list \<Rightarrow> 'a list list" where
  "chunks n xs = (if n = 0 \<or> xs = [] then [] else take n xs # chunks n (drop n xs))"
  by pat_completeness auto
termination
  by (relation "measure (\<lambda>(n, xs). length xs)") auto

definition send :: "nat \<Rightarrow> attempt list \<Rightarrow> bytes \<Rightarrow> zt_stream \<Rightarrow> (bytes \<times> receipt) list \<times> unit outcome option" where
  "send mtu xs data s =
     (if zs_stream_type s = UnidirectionalIn then ([], Some (Err (Io PermissionDenied)))
      else send_chunks xs (chunks (chunk_size mtu) data))"

function send_rest :: "nat \<Rightarrow> attempt list \<Rightarrow> bytes \<Rightarrow> (bytes \<times> receipt) list \<times> unit outcome option" where
  "send_rest n xs data =
     (if data = [] then ([], Some (Ok ()))
      else
        let (to_send, data') = (if length data > n then (take n data, drop n data) else (data, []))
        in case send_chunk xs to_send of
             (xs, trace, Some (Ok _)) \<Rightarrow>
               if n = 0 then (trace, None)
               else (case send_rest n xs data' of (trace', r) \<Rightarrow> (trace @ trace', r))
           | (xs, trace, r) \<Rightarrow> (trace, r))"
  by pat_completeness auto
termination
  by (relation "measure (\<lambda>(n, xs, data). length data)") (auto split: if_splits)

definition send_bytes :: "nat \<Rightarrow> attempt list \<Rightarrow> bytes \<Rightarrow> zt_stream \<Rightarrow> (bytes \<times> receipt) list \<times> unit outcome option" where
  "send_bytes mtu xs data s =
     (if zs_stream_type s = UnidirectionalIn then ([], Some (Err (Io PermissionDenied)))
      else send_rest (chunk_size mtu) xs data)"

text \<open>Reading a chunk; \<open>alive\<close> tells whether the connection still takes messages.\<close>

definition recv_result :: "bool \<Rightarrow> termination_cell \<Rightarrow> zt_stream \<Rightarrow> zt_stream \<times> bytes option outcome option" where
  "recv_result alive termination s =
     (let give = (\<lambda>chunk s. (if alive then tell (StreamDataRead (zs_stream_id s) (length chunk)) s else s, Some (Ok (Some chunk))));
          receive = (\<lambda>s. case zs_receiver s of
              chunk # rest \<Rightarrow> give chunk (s\<lparr>zs_receiver := rest\<rparr>)
            | [] \<Rightarrow>
                if zs_receiver_closed s
                then (s, Some (case termination_error termination of None \<Rightarrow> Ok None | Some e \<Rightarrow> Err e))
                else (s, None))
      in
      if zs_stream_type s = UnidirectionalOut then (s, Some (Ok None))
      else case zs_current_read_chunk s of
        Some chunk \<Rightarrow>
          let s = s\<lparr>zs_current_read_chunk := None\<rparr> in
          if chunk \<noteq> [] then give chunk s else receive s
      | None \<Rightarrow> receive s)"

definition recv :: "bool \<Rightarrow> termination_cell \<Rightarrow> zt_stream \<Rightarrow> zt_stream \<times> bytes option option" where
  "recv alive termination s =
     (case recv_result alive termination s of
        (s, None) \<Rightarrow> (s, None)
      | (s, Some (Ok chunk)) \<Rightarrow> (s, Some chunk)
      | (s, Some _) \<Rightarrow> (s, Some None))"

definition zt_stream_close :: "bool \<Rightarrow> zt_stream \<Rightarrow> zt_stream \<times> unit outcome" where
  "zt_stream_close alive s = (if alive then tell (MsgCloseStream (zs_stream_id s)) s else s, Ok ())"

definition zt_stream_reset :: "bool \<Rightarrow> u64 \<Rightarrow> zt_stream \<Rightarrow> zt_stream \<times> unit outcome" where
  "zt_stream_reset alive error_code s =
     (if alive then (tell (MsgResetStream (zs_stream_id s) error_code) s, Ok ()) else (s, Err ActorFailed))"

definition zt_stream_drop :: "bool \<Rightarrow> zt_stream \<Rightarrow> zt_stream" where
  "zt_stream_drop room s = (if room then tell (MsgCloseStream (zs_stream_id s)) s else s)"

section \<open>Polled reading\<close>

definition offer_credit :: "poll_env \<Rightarrow> zt_stream \<Rightarrow> poll_env \<times> zt_stream" where
  "offer_credit pe s =
     (case next_permit pe of
        (True, pe) \<Rightarrow> (pe, (tell (StreamDataRead (zs_stream_id s) (zs_pending_read_credit s)) s)\<lparr>zs_pending_read_credit := 0\<rparr>)
      | (False, pe) \<Rightarrow> (pe, s))"

definition read_chunk :: "poll_env \<Rightarrow> nat \<Rightarrow> bytes \<Rightarrow> zt_stream \<Rightarrow> zt_stream \<times> bytes poll" where
  "read_chunk pe remaining chunk s =
     (let amt = min (length chunk) remaining;
          s = s\<lparr>zs_current_read_chunk := Some (drop amt chunk),
                zs_pending_read_credit := saturating_add64 (zs_pending_read_credit s) amt\<rparr>
      in (snd (offer_credit pe s), Ready (Inr (take amt chunk))))"

function read_loop :: "poll_env \<Rightarrow> nat \<Rightarrow> zt_stream \<Rightarrow> zt_stream \<times> bytes poll" where
  "read_loop pe remaining s =
     (case zs_current_read_chunk s of
        Some (b # bs) \<Rightarrow> read_chunk pe remaining (b # bs) s
      | _ \<Rightarrow>
          let s = s\<lparr>zs_current_read_chunk := None\<rparr> in
          (case zs_receiver s of
             bytes # rest \<Rightarrow> read_loop pe remaining (s\<lparr>zs_receiver := rest, zs_current_read_chunk := Some bytes\<rparr>)
           | [] \<Rightarrow>
               if zs_receiver_closed s then
                 (s, Ready (case termination_io_error (pe_termination pe) of
                    None \<Rightarrow> Inr [] | Some (kind, error) \<Rightarrow> Inl (kind, Some error)))
               else (s, Pending True)))"
  by pat_completeness auto
termination
  by (relation "measure (\<lambda>(pe, remaining, s). length (zs_receiver s))") auto

text \<open>The bytes put into the caller's buffer, which has \<open>remaining\<close> free bytes, are the result.\<close>

definition poll_read :: "poll_env \<Rightarrow> nat \<Rightarrow> zt_stream \<Rightarrow> zt_stream \<times> bytes poll" where
  "poll_read pe remaining s =
     (if zs_stream_type s = UnidirectionalOut then (s, Ready (Inr []))
      else
        let (pe, s) = (if zs_pending_read_credit s > 0 then offer_credit pe s else (pe, s))
        in read_loop pe remaining s)"

section \<open>Polled writing\<close>

datatype early = Failed io_error | Waiting bool

fun early_poll :: "early \<Rightarrow> 'a poll" where
  "early_poll (Failed e) = Ready (Inl e)"
| "early_poll (Waiting registered) = Pending registered"

definition dispatch :: "bytes \<Rightarrow> zt_stream \<Rightarrow> zt_stream" where
  "dispatch chunk s = (tell (OutgoingData (zs_stream_id s) chunk) s)\<lparr>zs_write_state := Sending chunk\<rparr>"

text \<open>A chunk that was refused is sent again when its wake-up comes; a full mailbox postpones it by a sleep not yet polled.\<close>

definition retry_chunk :: "write_state \<Rightarrow> bytes \<Rightarrow> poll_env \<Rightarrow> zt_stream \<Rightarrow> poll_env \<times> zt_stream \<times> early option" where
  "retry_chunk state chunk pe s =
     (case next_wakeup pe of
        (True, pe) \<Rightarrow>
          (case next_permit pe of
             (False, pe) \<Rightarrow> (pe, s\<lparr>zs_write_state := Pacing chunk\<rparr>, Some (Waiting False))
           | (True, pe) \<Rightarrow> (pe, dispatch chunk s, None))
      | (False, pe) \<Rightarrow> (pe, s\<lparr>zs_write_state := state\<rparr>, Some (Waiting True)))"

definition advance :: "poll_env \<Rightarrow> zt_stream \<Rightarrow> poll_env \<times> zt_stream \<times> early option" where
  "advance pe s =
     (case zs_write_state s of
        Idle \<Rightarrow> (pe, s, None)
      | Sending chunk \<Rightarrow>
          let (r, pe) = next_receipt pe;
              s = s\<lparr>zs_write_state := Idle\<rparr>
          in (case r of
                Accepted \<Rightarrow> (pe, s\<lparr>zs_confirmed := zs_confirmed s @ chunk\<rparr>, None)
              | Rejected e \<Rightarrow>
                  if window_full e then (pe, s\<lparr>zs_write_state := Blocked chunk\<rparr>, None)
                  else if paced e then (pe, s\<lparr>zs_write_state := Pacing chunk\<rparr>, None)
                  else (pe, s, Some (Failed (OtherIo, Some e)))
              | SenderDropped \<Rightarrow> (pe, s, Some (Failed (ConnectionAborted, None)))
              | NotYet \<Rightarrow> (pe, s\<lparr>zs_write_state := Sending chunk\<rparr>, Some (Waiting True)))
      | Blocked chunk \<Rightarrow> retry_chunk (Blocked chunk) chunk pe s
      | Pacing chunk \<Rightarrow> retry_chunk (Pacing chunk) chunk pe s)"

lemma advance_consumes:
  assumes "advance pe s = (pe', s', None)" and "zs_write_state s \<noteq> Idle"
  shows "length (pe_receipts pe') + length (pe_wakeups pe') < length (pe_receipts pe) + length (pe_wakeups pe)
    \<and> length (pe_permits pe') \<le> length (pe_permits pe)"
  using assms
  by (auto simp: advance_def retry_chunk_def next_receipt_def next_wakeup_def next_permit_def Let_def
      split: write_state.splits list.splits receipt.splits bool.splits if_splits)

lemma next_permit_consumes:
  "next_permit pe = (True, pe') \<Longrightarrow> pe_receipts pe' = pe_receipts pe \<and> pe_wakeups pe' = pe_wakeups pe \<and> pe_permits pe = True # pe_permits pe'"
  by (auto simp: next_permit_def split: list.splits)

function write_loop :: "poll_env \<Rightarrow> zt_stream \<Rightarrow> poll_env \<times> zt_stream \<times> early option" where
  "write_loop pe s =
     (if zs_write_state s = Idle then (pe, s, None)
      else case advance pe s of
        (pe, s, None) \<Rightarrow> write_loop pe s
      | (pe, s, Some e) \<Rightarrow> (pe, s, Some e))"
  by pat_completeness auto
termination
  by (relation "measure (\<lambda>(pe, s). length (pe_receipts pe) + length (pe_wakeups pe))") (auto dest!: sym [of _ "advance _ _"] advance_consumes)

definition dispatch_staged :: "nat \<Rightarrow> zt_stream \<Rightarrow> zt_stream" where
  "dispatch_staged n s = dispatch (take n (zs_write_buffer s)) (s\<lparr>zs_write_buffer := drop n (zs_write_buffer s)\<rparr>)"

definition stage :: "poll_env \<Rightarrow> nat \<Rightarrow> bytes \<Rightarrow> zt_stream \<Rightarrow> zt_stream \<times> nat poll" where
  "stage pe cap buf s =
     (let available = cap - length (zs_write_buffer s);
          written = min available (length buf);
          s = s\<lparr>zs_write_buffer := zs_write_buffer s @ take written buf\<rparr>;
          s = (if length (zs_write_buffer s) \<ge> cap \<and> fst (next_permit pe) then dispatch_staged cap s else s)
      in (s, Ready (Inr written)))"

definition poll_write :: "poll_env \<Rightarrow> bytes \<Rightarrow> zt_stream \<Rightarrow> zt_stream \<times> nat poll" where
  "poll_write pe buf s =
     (if zs_stream_type s = UnidirectionalIn then (s, Ready (Inl (PermissionDenied, None)))
      else if pe_closed pe then
        (s, Ready (Inl (case termination_io_error (pe_termination pe) of
           Some (kind, error) \<Rightarrow> (kind, Some error) | None \<Rightarrow> (ConnectionAborted, None))))
      else case write_loop pe s of
        (pe, s, Some e) \<Rightarrow> (s, early_poll e)
      | (pe, s, None) \<Rightarrow>
          let cap = chunk_size (pe_mtu pe) in
          if length (zs_write_buffer s) \<ge> cap then
            (case next_permit pe of
               (True, pe) \<Rightarrow> stage pe cap buf (dispatch_staged cap s)
             | (False, pe) \<Rightarrow> (s, Pending True))
          else stage pe cap buf s)"

function flush_loop :: "poll_env \<Rightarrow> zt_stream \<Rightarrow> poll_env \<times> zt_stream \<times> early option" where
  "flush_loop pe s =
     (if zs_write_state s = Idle then
        if zs_write_buffer s = [] then (pe, s, None)
        else (case next_permit pe of
            (True, pe) \<Rightarrow> flush_loop pe (dispatch_staged (length (zs_write_buffer s)) s)
          | (False, pe) \<Rightarrow> (pe, s, Some (Waiting True)))
      else case advance pe s of
        (pe, s, None) \<Rightarrow> flush_loop pe s
      | (pe, s, Some e) \<Rightarrow> (pe, s, Some e))"
  by pat_completeness auto
termination
  by (relation "measure (\<lambda>(pe, s). length (pe_receipts pe) + length (pe_wakeups pe) + length (pe_permits pe))")
     (auto dest!: sym [of _ "advance _ _"] sym [of _ "next_permit _"] advance_consumes next_permit_consumes)

definition poll_flush :: "poll_env \<Rightarrow> zt_stream \<Rightarrow> zt_stream \<times> unit poll" where
  "poll_flush pe s =
     (if zs_stream_type s = UnidirectionalIn then (s, Ready (Inl (PermissionDenied, None)))
      else case flush_loop pe s of
        (pe, s, Some e) \<Rightarrow> (s, early_poll e)
      | (pe, s, None) \<Rightarrow> (s, Ready (Inr ())))"

definition poll_shutdown :: "poll_env \<Rightarrow> zt_stream \<Rightarrow> zt_stream \<times> unit poll" where
  "poll_shutdown pe s =
     (if zs_stream_type s = UnidirectionalIn then (s, Ready (Inl (PermissionDenied, None)))
      else case flush_loop pe s of
        (pe, s, Some e) \<Rightarrow> (s, early_poll e)
      | (pe, s, None) \<Rightarrow>
          if fst (next_permit pe) then (tell (MsgCloseStream (zs_stream_id s)) s, Ready (Inr ())) else (s, Pending True))"

declare write_loop.simps [simp del] flush_loop.simps [simp del] read_loop.simps [simp del]
  chunks.simps [simp del] send_rest.simps [simp del]

lemma write_loop_rules:
  "zs_write_state s = Idle \<Longrightarrow> write_loop pe s = (pe, s, None)"
  "zs_write_state s \<noteq> Idle \<Longrightarrow> write_loop pe s = (case advance pe s of (pe, s, None) \<Rightarrow> write_loop pe s | (pe, s, Some e) \<Rightarrow> (pe, s, Some e))"
  by (simp_all add: write_loop.simps [of pe s])

lemma flush_loop_rules:
  "zs_write_state s = Idle \<Longrightarrow> zs_write_buffer s = [] \<Longrightarrow> flush_loop pe s = (pe, s, None)"
  "zs_write_state s = Idle \<Longrightarrow> zs_write_buffer s \<noteq> [] \<Longrightarrow> flush_loop pe s = (case next_permit pe of
     (True, pe) \<Rightarrow> flush_loop pe (dispatch_staged (length (zs_write_buffer s)) s) | (False, pe) \<Rightarrow> (pe, s, Some (Waiting True)))"
  "zs_write_state s \<noteq> Idle \<Longrightarrow> flush_loop pe s = (case advance pe s of (pe, s, None) \<Rightarrow> flush_loop pe s | (pe, s, Some e) \<Rightarrow> (pe, s, Some e))"
  by (simp_all add: flush_loop.simps [of pe s])

lemma read_loop_rules:
  "zs_current_read_chunk s = Some (b # bs) \<Longrightarrow> read_loop pe n s = read_chunk pe n (b # bs) s"
  "zs_current_read_chunk s = None \<Longrightarrow> zs_receiver s = chunk # rest \<Longrightarrow>
     read_loop pe n s = read_loop pe n (s\<lparr>zs_receiver := rest, zs_current_read_chunk := Some chunk\<rparr>)"
  by (simp_all add: read_loop.simps [of pe n s])

end
