(* ===== verification/Zt_StreamCalls.thy ===== *)
theory Zt_StreamCalls
  imports Zt_Stream
begin

text \<open>
  What an application can rely on when it reads from and writes to a stream: conservation of the bytes
  written and read, agreement of the two send calls, and when a call comes back.
\<close>

section \<open>Written bytes\<close>

text \<open>What the stream has taken from the application: confirmed, on its way, or staged.\<close>

fun in_transit :: "write_state \<Rightarrow> bytes" where
  "in_transit Idle = []"
| "in_transit (Sending chunk) = chunk"
| "in_transit (Blocked chunk) = chunk"
| "in_transit (Pacing chunk) = chunk"

definition taken :: "zt_stream \<Rightarrow> bytes" where
  "taken s = zs_confirmed s @ in_transit (zs_write_state s) @ zs_write_buffer s"

fun failed :: "early option \<Rightarrow> bool" where
  "failed (Some (Failed _)) = True"
| "failed _ = False"

lemma advance_taken:
  assumes "advance pe s = (pe', s', r)" and "\<not> failed r"
  shows "taken s' = taken s \<and> zs_write_buffer s' = zs_write_buffer s \<and> zs_stream_type s' = zs_stream_type s \<and> pe_mtu pe' = pe_mtu pe"
  using assms
  by (auto simp: advance_def retry_chunk_def next_receipt_def next_wakeup_def next_permit_def dispatch_def tell_def taken_def Let_def
      split: write_state.splits list.splits receipt.splits bool.splits if_splits)

lemma write_loop_taken:
  "write_loop pe s = (pe', s', r) \<Longrightarrow> \<not> failed r \<Longrightarrow>
     taken s' = taken s \<and> zs_write_buffer s' = zs_write_buffer s \<and> pe_mtu pe' = pe_mtu pe \<and> (r = None \<longrightarrow> zs_write_state s' = Idle)"
proof (induction pe s rule: write_loop.induct)
  case (1 pe s)
  show ?case
  proof (cases "zs_write_state s = Idle")
    case False
    obtain pe1 s1 r1 where adv: "advance pe s = (pe1, s1, r1)" by (metis prod_cases3)
    show ?thesis
    proof (cases r1)
      case None
      then show ?thesis
        using 1 False adv advance_taken [OF adv] by (simp add: write_loop.simps [of pe s])
    next
      case (Some e)
      then show ?thesis
        using 1 False adv advance_taken [OF adv] by (auto simp: write_loop.simps [of pe s])
    qed
  qed (use 1 in \<open>auto simp: write_loop.simps [of pe s]\<close>)
qed

lemma dispatch_staged_taken: "zs_write_state s = Idle \<Longrightarrow> taken (dispatch_staged n s) = taken s"
  by (simp add: dispatch_staged_def dispatch_def tell_def taken_def)

lemma flush_loop_taken:
  "flush_loop pe s = (pe', s', r) \<Longrightarrow> \<not> failed r \<Longrightarrow>
     taken s' = taken s \<and> (r = None \<longrightarrow> zs_write_state s' = Idle \<and> zs_write_buffer s' = [])"
proof (induction pe s rule: flush_loop.induct)
  case (1 pe s)
  show ?case
  proof (cases "zs_write_state s = Idle")
    case True
    then show ?thesis
      using 1 by (cases "next_permit pe")
        (auto simp: flush_loop.simps [of pe s] dispatch_staged_taken split: if_splits bool.splits)
  next
    case False
    obtain pe1 s1 r1 where adv: "advance pe s = (pe1, s1, r1)" by (metis prod_cases3)
    then show ?thesis
      using 1 False advance_taken [OF adv] by (cases r1) (auto simp: flush_loop.simps [of pe s])
  qed
qed

text \<open>The bytes a call reports as taken.\<close>

fun reported :: "bytes \<Rightarrow> nat poll \<Rightarrow> bytes" where
  "reported buf (Ready (Inr n)) = take n buf"
| "reported buf _ = []"

fun poll_failed :: "'a poll \<Rightarrow> bool" where
  "poll_failed (Ready (Inl _)) = True"
| "poll_failed _ = False"

lemma early_poll_simps [simp]: "poll_failed (early_poll e) \<longleftrightarrow> failed (Some e)" "reported buf (early_poll e) = []"
  by (cases e; simp)+

lemma stage_taken:
  "stage pe cap buf s = (s', r) \<Longrightarrow> zs_write_state s = Idle \<Longrightarrow> taken s' = taken s @ reported buf r"
  by (auto simp: stage_def Let_def dispatch_staged_taken split: if_splits) (auto simp: taken_def)

lemma poll_write_taken:
  assumes "poll_write pe buf s = (s', r)" and "\<not> poll_failed r" and room: "length (zs_write_buffer s) < chunk_size (pe_mtu pe)"
  shows "taken s' = taken s @ reported buf r"
proof (cases "write_loop pe s")
  case (fields pe1 s1 r1)
  show ?thesis
  proof (cases r1)
    case None
    with write_loop_taken [OF fields] have *: "taken s1 = taken s" "zs_write_buffer s1 = zs_write_buffer s" "pe_mtu pe1 = pe_mtu pe"
      "zs_write_state s1 = Idle" by auto
    with assms fields None show ?thesis
      using stage_taken [OF _ *(4), of pe1 "chunk_size (pe_mtu pe)" buf s' r] by (auto simp: poll_write_def Let_def split: if_splits)
  next
    case (Some e)
    with assms fields show ?thesis
      using write_loop_taken [OF fields] by (auto simp: poll_write_def split: if_splits)
  qed
qed

lemma poll_flush_taken:
  assumes "poll_flush pe s = (s', r)" and "\<not> poll_failed r"
  shows "taken s' = taken s \<and> (r = Ready (Inr ()) \<longrightarrow> zs_confirmed s' = taken s')"
proof -
  obtain pe1 s1 r1 where l: "flush_loop pe s = (pe1, s1, r1)" by (metis prod_cases3)
  then have r: "s' = s1" "r = (case r1 of None \<Rightarrow> Ready (Inr ()) | Some e \<Rightarrow> early_poll e)"
    using assms by (auto simp: poll_flush_def split: if_splits option.splits)
  then have "\<not> failed r1" using assms(2) by (cases r1) auto
  from flush_loop_taken [OF l this] show ?thesis using r
    by (cases r1) (auto simp: taken_def elim: early_poll.elims)
qed

text \<open>
  A run of calls, with the bytes reported as taken.  It ends when a call fails.  A run is roomy when no
  write finds the staging buffer filled to a whole chunk.
\<close>

datatype call = Write poll_env bytes | Flush poll_env

fun perform :: "call list \<Rightarrow> zt_stream \<Rightarrow> (zt_stream \<times> bytes) option" where
  "perform [] s = Some (s, [])"
| "perform (Write pe buf # cs) s =
     (case poll_write pe buf s of
        (s, r) \<Rightarrow> if poll_failed r then None else map_option (\<lambda>(s, w). (s, reported buf r @ w)) (perform cs s))"
| "perform (Flush pe # cs) s =
     (case poll_flush pe s of (s, r) \<Rightarrow> if poll_failed r then None else perform cs s)"

fun roomy :: "call list \<Rightarrow> zt_stream \<Rightarrow> bool" where
  "roomy [] s = True"
| "roomy (Write pe buf # cs) s =
     (length (zs_write_buffer s) < chunk_size (pe_mtu pe) \<and> roomy cs (fst (poll_write pe buf s)))"
| "roomy (Flush pe # cs) s = roomy cs (fst (poll_flush pe s))"

lemma perform_taken: "perform cs s = Some (s', w) \<Longrightarrow> roomy cs s \<Longrightarrow> taken s' = taken s @ w"
proof (induction cs s arbitrary: w rule: perform.induct)
  case (2 pe buf cs s)
  obtain s1 r where p: "poll_write pe buf s = (s1, r)" by fastforce
  with 2 poll_write_taken [OF p] show ?case by (auto split: if_splits)
next
  case (3 pe cs s)
  obtain s1 r where p: "poll_flush pe s = (s1, r)" by fastforce
  with 3 poll_flush_taken [OF p] show ?case by (auto split: if_splits)
qed simp

section \<open>Sending calls\<close>

definition accepted :: "(bytes \<times> receipt) list \<Rightarrow> bytes" where
  "accepted trace = concat (map fst (filter (\<lambda>(_, r). r = Accepted) trace))"

lemma accepted_simps [simp]:
  "accepted [] = []" "accepted (xs @ ys) = accepted xs @ accepted ys"
  "accepted ((chunk, r) # xs) = (if r = Accepted then chunk else []) @ accepted xs"
  by (simp_all add: accepted_def)

lemma chunk_size_pos [simp]: "0 < chunk_size mtu"
  by (simp add: chunk_size_def)

lemma concat_chunks: "0 < n \<Longrightarrow> concat (chunks n xs) = xs"
  by (induction n xs rule: chunks.induct) (subst chunks.simps, auto)

lemma chunks_length: "c \<in> set (chunks n xs) \<Longrightarrow> 0 < length c \<and> length c \<le> n"
  by (induction n xs rule: chunks.induct) (subst (asm) (2) chunks.simps, auto split: if_splits)

text \<open>A chunk is accepted once if the call succeeds, and otherwise not at all.\<close>

lemma send_chunk_accepts:
  "send_chunk xs chunk = (xs', trace, r) \<Longrightarrow>
     accepted trace = (if r = Some (Ok ()) then chunk else []) \<and> (\<forall>(c, _)\<in>set trace. c = chunk)"
proof (induction xs arbitrary: xs' trace r)
  case (Cons x xs)
  obtain xs1 trace1 r1 where rec: "send_chunk xs chunk = (xs1, trace1, r1)" by (metis prod_cases3)
  show ?case
    using Cons.prems Cons.IH [OF rec] rec by (cases "at_receipt x") (auto simp: Let_def split: if_splits)
qed auto

lemma send_chunks_accepts:
  "send_chunks xs cs = (trace, r) \<Longrightarrow>
     prefix (accepted trace) (concat cs) \<and> (r = Some (Ok ()) \<longrightarrow> accepted trace = concat cs) \<and> (\<forall>(c, _)\<in>set trace. c \<in> set cs)"
proof (induction cs arbitrary: xs trace r)
  case (Cons chunk rest)
  obtain xs1 trace1 r1 where c: "send_chunk xs chunk = (xs1, trace1, r1)" by (metis prod_cases3)
  note a = send_chunk_accepts [OF c]
  show ?case
  proof (cases "r1 = Some (Ok ())")
    case True
    obtain trace2 r2 where rec: "send_chunks xs1 rest = (trace2, r2)" by fastforce
    from Cons.IH [OF rec] show ?thesis using Cons.prems c rec True a by auto
  next
    case False
    then have "trace = trace1" "r = r1"
      using Cons.prems c by (auto split: option.splits outcome.splits)
    then show ?thesis using False a by auto
  qed
qed simp

text \<open>The copying and the zero-copy call send the same chunks.\<close>

lemma send_rest_chunks: "0 < n \<Longrightarrow> send_rest n xs data = send_chunks xs (chunks n data)"
proof (induction data arbitrary: xs rule: length_induct)
  case (1 data)
  show ?case
  proof (cases "data = []")
    case False
    let ?c = "take n data"
    obtain xs1 trace1 r1 where c: "send_chunk xs ?c = (xs1, trace1, r1)" by (metis prod_cases3)
    have split: "(if length data > n then (take n data, drop n data) else (data, [])) = (?c, drop n data)" by simp
    have "send_rest n xs1 (drop n data) = send_chunks xs1 (chunks n (drop n data))"
      using 1 False by simp
    then show ?thesis
      using False c split "1.prems"
      by (simp add: send_rest.simps [of n xs data] chunks.simps [of n data] split: option.splits outcome.splits)
  qed (simp add: send_rest.simps [of n xs] chunks.simps [of n])
qed

text \<open>An attempt that is answered, and is answered by more than a refusal for good.\<close>

definition hopeful :: "attempt \<Rightarrow> bool" where
  "hopeful x \<longleftrightarrow> \<not> at_closed x \<and> at_sent x
     \<and> (case at_receipt x of Accepted \<Rightarrow> True | Rejected e \<Rightarrow> window_full e \<and> at_notified x \<or> paced e | _ \<Rightarrow> False)"

abbreviation accepting :: "attempt list \<Rightarrow> nat" where
  "accepting xs \<equiv> length (filter (\<lambda>x. at_receipt x = Accepted) xs)"

lemma send_chunk_completes:
  "list_all hopeful xs \<Longrightarrow> 0 < accepting xs \<Longrightarrow>
     \<exists>xs' trace. send_chunk xs chunk = (xs', trace, Some (Ok ())) \<and> list_all hopeful xs' \<and> accepting xs' = accepting xs - 1"
proof (induction xs)
  case (Cons x xs)
  show ?case
  proof (cases "at_receipt x = Accepted")
    case True
    then show ?thesis using Cons.prems by (simp add: hopeful_def Let_def)
  next
    case False
    then obtain xs' trace where "send_chunk xs chunk = (xs', trace, Some (Ok ()))" "list_all hopeful xs'" "accepting xs' = accepting xs - 1"
      using Cons.IH Cons.prems by auto
    then show ?thesis
      using Cons.prems False by (cases "at_receipt x") (auto simp: hopeful_def [of x] window_full_def Let_def)
  qed
qed simp

lemma send_chunks_completes:
  "list_all hopeful xs \<Longrightarrow> length cs \<le> accepting xs \<Longrightarrow> \<exists>trace. send_chunks xs cs = (trace, Some (Ok ()))"
proof (induction cs arbitrary: xs)
  case (Cons c cs)
  then obtain xs' trace where c: "send_chunk xs c = (xs', trace, Some (Ok ()))" "list_all hopeful xs'" "accepting xs' = accepting xs - 1"
    using send_chunk_completes [of xs c] by fastforce
  moreover have "length cs \<le> accepting xs'" using Cons.prems(2) c(3) by simp
  ultimately show ?case using Cons.IH [of xs'] by auto
qed simp

section \<open>Read bytes\<close>

text \<open>What was delivered to the stream and not yet handed to the application; the credit returned so far.\<close>

definition unread :: "zt_stream \<Rightarrow> bytes" where
  "unread s = (case zs_current_read_chunk s of None \<Rightarrow> [] | Some chunk \<Rightarrow> chunk) @ concat (zs_receiver s)"

fun credit_of :: "actor_message \<Rightarrow> nat" where
  "credit_of (StreamDataRead _ n) = n"
| "credit_of _ = 0"

definition credited :: "zt_stream \<Rightarrow> nat" where
  "credited s = sum_list (map credit_of (zs_outbox s)) + zs_pending_read_credit s"

lemma offer_credit_credited:
  "credited (snd (offer_credit pe s)) = credited s" "unread (snd (offer_credit pe s)) = unread s"
  "zs_pending_read_credit (snd (offer_credit pe s)) \<le> zs_pending_read_credit s"
  "zs_stream_type (snd (offer_credit pe s)) = zs_stream_type s" "zs_receiver_closed (snd (offer_credit pe s)) = zs_receiver_closed s"
  by (auto simp: offer_credit_def next_permit_def tell_def credited_def unread_def split: list.splits bool.splits)

fun handed :: "bytes poll \<Rightarrow> bytes" where
  "handed (Ready (Inr bs)) = bs"
| "handed _ = []"

text \<open>A read hands over the next bytes and accounts for them.\<close>

definition read_ok :: "zt_stream \<Rightarrow> zt_stream \<Rightarrow> bytes \<Rightarrow> bool" where
  "read_ok s s' out \<longleftrightarrow> out @ unread s' = unread s \<and> credited s' = credited s + length out
     \<and> zs_pending_read_credit s' \<le> zs_pending_read_credit s + length out"

abbreviation credit_fits :: "zt_stream \<Rightarrow> bool" where
  "credit_fits s \<equiv> zs_pending_read_credit s + length (unread s) < two64"

lemma read_ok_fits: "read_ok s s' out \<Longrightarrow> credit_fits s \<Longrightarrow> credit_fits s'"
  by (auto simp: read_ok_def dest: arg_cong [of _ _ length])

lemma read_ok_trans: "read_ok s s' out \<Longrightarrow> read_ok s' s'' out' \<Longrightarrow> read_ok s s'' (out @ out')"
  by (auto simp: read_ok_def)

lemma read_chunk_ok:
  assumes "zs_current_read_chunk s = Some chunk" and "credit_fits s" and "read_chunk pe n chunk s = (s', r)"
  shows "read_ok s s' (handed r) \<and> handed r = take n chunk"
proof -
  let ?amt = "min (length chunk) n"
  let ?s = "s\<lparr>zs_current_read_chunk := Some (drop ?amt chunk), zs_pending_read_credit := zs_pending_read_credit s + ?amt\<rparr>"
  have "zs_pending_read_credit s + length chunk < two64" using assms(1,2) by (simp add: unread_def)
  then have "saturating_add64 (zs_pending_read_credit s) ?amt = zs_pending_read_credit s + ?amt"
    by (simp add: saturating_add64_def)
  then have r: "s' = snd (offer_credit pe ?s)" "r = Ready (Inr (take ?amt chunk))"
    using assms(3) by (auto simp: read_chunk_def Let_def)
  have "take ?amt chunk = take n chunk" by (simp add: min_def)
  moreover have "unread s = take ?amt chunk @ unread ?s" using assms(1) by (simp add: unread_def)
  moreover have "credited ?s = credited s + ?amt" by (simp add: credited_def)
  ultimately show ?thesis
    using offer_credit_credited(3) [of pe ?s] by (simp add: r read_ok_def offer_credit_credited)
qed

lemma no_chunk: "\<nexists>b bs. x = Some (b # bs) \<Longrightarrow> x = None \<or> x = Some []"
  by (cases x) (auto intro: list.exhaust)

lemma read_loop_here:
  assumes "read_loop pe n s = (s', r)" and "credit_fits s" and "zs_receiver s = [] \<or> (\<exists>b bs. zs_current_read_chunk s = Some (b # bs))"
  shows "read_ok s s' (handed r) \<and> (r = Ready (Inr []) \<longrightarrow> n = 0 \<or> unread s' = [] \<and> zs_receiver_closed s')"
proof (cases "\<exists>b bs. zs_current_read_chunk s = Some (b # bs)")
  case True
  then obtain b bs where c: "zs_current_read_chunk s = Some (b # bs)" by blast
  with assms(1) have "read_chunk pe n (b # bs) s = (s', r)" by (simp add: read_loop.simps [of pe n s])
  from read_chunk_ok [OF c assms(2) this] show ?thesis by (auto simp: take_Cons split: nat.splits)
next
  case False
  then have "zs_receiver s = []" using assms(3) by blast
  moreover have "zs_current_read_chunk s = None \<or> zs_current_read_chunk s = Some []" using False by (rule no_chunk)
  ultimately show ?thesis
    using assms(1) by (auto simp: read_loop.simps [of pe n s] read_ok_def unread_def credited_def Let_def split: if_splits option.splits)
qed

lemma read_loop_ok:
  "read_loop pe n s = (s', r) \<Longrightarrow> credit_fits s \<Longrightarrow>
     read_ok s s' (handed r) \<and> (r = Ready (Inr []) \<longrightarrow> n = 0 \<or> unread s' = [] \<and> zs_receiver_closed s')"
proof (induction "zs_receiver s" arbitrary: s)
  case *: Nil
  show ?case by (rule read_loop_here [OF *(2,3)]) (simp add: *(1))
next
  case *: (Cons bytes rest)
  show ?case
  proof (cases "\<exists>b bs. zs_current_read_chunk s = Some (b # bs)")
    case False
    let ?s = "s\<lparr>zs_receiver := rest, zs_current_read_chunk := Some bytes\<rparr>"
    have empty: "zs_current_read_chunk s = None \<or> zs_current_read_chunk s = Some []" using False by (rule no_chunk)
    then have "read_loop pe n ?s = (s', r)" using *(3) *(2) [symmetric] by (auto simp: read_loop.simps [of pe n s])
    moreover have same: "unread ?s = unread s" "credited ?s = credited s" "zs_pending_read_credit ?s = zs_pending_read_credit s"
      using *(2) [symmetric] empty by (auto simp: unread_def credited_def)
    ultimately show ?thesis using *(1) [of ?s] *(4) by (simp add: read_ok_def)
  qed (rule read_loop_here [OF *(3,4)], simp)
qed

lemma poll_read_ok:
  assumes "poll_read pe n s = (s', r)" and "credit_fits s"
  shows "read_ok s s' (handed r)
    \<and> (r = Ready (Inr []) \<longrightarrow> n = 0 \<or> zs_stream_type s = UnidirectionalOut \<or> unread s' = [] \<and> zs_receiver_closed s')"
proof -
  obtain pe1 s1 where o: "(if zs_pending_read_credit s > 0 then offer_credit pe s else (pe, s)) = (pe1, s1)" by fastforce
  have "read_ok s s1 []"
    using offer_credit_credited [of pe s] o by (auto simp: read_ok_def split: if_splits)
  note s1 = this read_ok_fits [OF this assms(2)]
  show ?thesis
  proof (cases "zs_stream_type s = UnidirectionalOut")
    case False
    then have "read_loop pe1 n s1 = (s', r)" using assms(1) o by (simp add: poll_read_def)
    from read_loop_ok [OF this s1(2)] show ?thesis using read_ok_trans [OF s1(1)] by auto
  qed (use assms(1) in \<open>auto simp: poll_read_def read_ok_def\<close>)
qed

lemma recv_result_ok:
  assumes "recv_result True t s = (s', r)"
  shows "read_ok s s' (case r of Some (Ok (Some chunk)) \<Rightarrow> chunk | _ \<Rightarrow> [])"
  using assms
  by (auto simp: recv_result_def read_ok_def unread_def credited_def tell_def Let_def split: if_splits option.splits list.splits)

lemma recv_end:
  "recv_result alive t s = (s', Some (Ok None)) \<Longrightarrow> zs_stream_type s = UnidirectionalOut \<or> unread s' = [] \<and> zs_receiver_closed s'"
  "recv alive t s = (s', Some None) \<Longrightarrow> zs_stream_type s = UnidirectionalOut \<or> unread s' = [] \<and> zs_receiver_closed s'"
  by (auto simp: recv_def recv_result_def unread_def Let_def split: if_splits option.splits list.splits)

text \<open>A run of reads of a live connection: polls with a buffer of some size, and whole chunks.\<close>

datatype read_call = PollRead poll_env nat | Recv termination_cell

fun read_step :: "read_call \<Rightarrow> zt_stream \<Rightarrow> zt_stream \<times> bytes" where
  "read_step (PollRead pe n) s = (case poll_read pe n s of (s, r) \<Rightarrow> (s, handed r))"
| "read_step (Recv t) s = (case recv_result True t s of (s, r) \<Rightarrow> (s, case r of Some (Ok (Some chunk)) \<Rightarrow> chunk | _ \<Rightarrow> []))"

fun reads :: "read_call list \<Rightarrow> zt_stream \<Rightarrow> zt_stream \<times> bytes" where
  "reads [] s = (s, [])"
| "reads (c # cs) s = (case read_step c s of (s, out) \<Rightarrow> case reads cs s of (s, out') \<Rightarrow> (s, out @ out'))"

lemma read_step_ok: "read_step c s = (s', out) \<Longrightarrow> credit_fits s \<Longrightarrow> read_ok s s' out"
  by (cases c) (auto dest: poll_read_ok recv_result_ok split: prod.splits)

lemma reads_ok: "reads cs s = (s', out) \<Longrightarrow> credit_fits s \<Longrightarrow> read_ok s s' out"
proof (induction cs arbitrary: s s' out)
  case (Cons c cs)
  obtain s1 out1 s2 out2 where r: "read_step c s = (s1, out1)" "reads cs s1 = (s2, out2)" by fastforce
  note ok = read_step_ok [OF r(1) Cons.prems(2)]
  show ?case
    using Cons.prems(1) read_ok_trans [OF ok Cons.IH [OF r(2) read_ok_fits [OF ok Cons.prems(2)]]] r by simp
qed (simp add: read_ok_def)

section \<open>Waking up\<close>

text \<open>
  A chunk that was refused is repeated when its wake-up comes and the mailbox has room.  In a poll that
  meets \<open>full_mailbox\<close> this happened some times, and then a wake-up came while the mailbox was full; \<open>sent\<close> counts
  the places the poll took for chunks it sent for the first time.
\<close>

definition full_mailbox :: "nat \<Rightarrow> poll_env \<Rightarrow> bool" where
  "full_mailbox sent pe \<longleftrightarrow> (\<exists>repeated wakeups permits. pe_wakeups pe = replicate (Suc repeated) True @ wakeups
     \<and> pe_permits pe = replicate (repeated + sent) True @ permits \<and> (permits = [] \<or> \<not> hd permits))"

lemma full_mailbox_now: "pe_wakeups pe = True # ws \<Longrightarrow> pe_permits pe = [] \<or> \<not> hd (pe_permits pe) \<Longrightarrow> full_mailbox 0 pe"
  unfolding full_mailbox_def by (rule exI [of _ 0]) auto

lemma full_mailbox_repeat:
  "full_mailbox n pe' \<Longrightarrow> pe_wakeups pe = True # pe_wakeups pe' \<Longrightarrow> pe_permits pe = True # pe_permits pe' \<Longrightarrow> full_mailbox n pe"
  unfolding full_mailbox_def
  by (elim exE, rule_tac x = "Suc repeated" in exI) auto

lemma full_mailbox_sent:
  "full_mailbox n pe' \<Longrightarrow> pe_wakeups pe = pe_wakeups pe' \<Longrightarrow> pe_permits pe = True # pe_permits pe' \<Longrightarrow> full_mailbox (Suc n) pe"
  unfolding full_mailbox_def
  by (elim exE, rule_tac x = "repeated" in exI) auto

lemma advance_waiting:
  "advance pe s = (pe', s', Some (Waiting False)) \<Longrightarrow> full_mailbox 0 pe \<and> (\<exists>chunk. zs_write_state s' = Pacing chunk)"
  by (auto simp: advance_def retry_chunk_def next_wakeup_def next_permit_def Let_def intro!: full_mailbox_now
      split: write_state.splits receipt.splits bool.splits if_splits prod.splits list.splits)

lemma advance_mailbox:
  "advance pe s = (pe', s', None) \<Longrightarrow> zs_write_buffer s' = zs_write_buffer s \<and> (full_mailbox n pe' \<longrightarrow> full_mailbox n pe)"
proof -
  assume "advance pe s = (pe', s', None)"
  then have "zs_write_buffer s' = zs_write_buffer s \<and>
      (pe_wakeups pe = pe_wakeups pe' \<and> pe_permits pe = pe_permits pe'
      \<or> pe_wakeups pe = True # pe_wakeups pe' \<and> pe_permits pe = True # pe_permits pe')"
    by (auto simp: advance_def retry_chunk_def next_wakeup_def next_permit_def next_receipt_def dispatch_def tell_def Let_def
        split: write_state.splits receipt.splits bool.splits if_splits prod.splits list.splits)
  then show ?thesis by (auto intro: full_mailbox_repeat) (auto simp: full_mailbox_def)
qed

lemma write_loop_waiting:
  "write_loop pe s = (pe', s', Some (Waiting False)) \<Longrightarrow> full_mailbox 0 pe \<and> (\<exists>chunk. zs_write_state s' = Pacing chunk)"
proof (induction pe s rule: write_loop.induct)
  case (1 pe s)
  obtain pe1 s1 r1 where adv: "advance pe s = (pe1, s1, r1)" by (metis prod_cases3)
  then show ?case
    using 1 advance_waiting [of pe s] advance_mailbox [of pe s pe1 s1 0]
    by (cases r1) (auto simp: write_loop.simps [of pe s] split: if_splits)
qed

lemma flush_loop_waiting:
  "flush_loop pe s = (pe', s', Some (Waiting False)) \<Longrightarrow>
     (full_mailbox 0 pe \<or> zs_write_buffer s \<noteq> [] \<and> full_mailbox 1 pe) \<and> (\<exists>chunk. zs_write_state s' = Pacing chunk)"
proof (induction pe s rule: flush_loop.induct)
  case (1 pe s)
  obtain pe1 s1 r1 where adv: "advance pe s = (pe1, s1, r1)" by (metis prod_cases3)
  show ?case
  proof (cases "zs_write_state s = Idle")
    case True
    then have buf: "zs_write_buffer s \<noteq> []" using 1(3) by (auto simp: flush_loop.simps [of pe s])
    obtain b pe1 where permit: "next_permit pe = (b, pe1)" by fastforce
    have b using 1(3) True buf permit by (auto simp: flush_loop.simps [of pe s] split: bool.splits)
    let ?s = "dispatch_staged (length (zs_write_buffer s)) s"
    have "flush_loop pe1 ?s = (pe', s', Some (Waiting False))"
      using 1(3) True buf permit \<open>b\<close> by (simp add: flush_loop.simps [of pe s])
    with 1(1) True buf permit \<open>b\<close> have "full_mailbox 0 pe1 \<and> (\<exists>chunk. zs_write_state s' = Pacing chunk)"
      by (force simp: dispatch_staged_def dispatch_def tell_def)
    with next_permit_consumes [of pe pe1] permit \<open>b\<close> buf show ?thesis by (auto intro: full_mailbox_sent [of 0, simplified])
  next
    case False
    then show ?thesis
      using 1(2,3) adv advance_waiting [of pe s] advance_mailbox [of pe s pe1 s1]
      by (cases r1) (auto simp: flush_loop.simps [of pe s])
  qed
qed

lemma early_poll_Pending: "early_poll e = Pending b \<Longrightarrow> (e = Waiting b \<Longrightarrow> P) \<Longrightarrow> P"
  by (cases e) auto

lemma read_loop_registers: "snd (read_loop pe n s) \<noteq> Pending False"
  by (induction pe n s rule: read_loop.induct)
     (subst read_loop.simps, auto simp: read_chunk_def Let_def split: option.splits list.splits)

lemma poll_read_registers: "snd (poll_read pe n s) \<noteq> Pending False"
  using read_loop_registers by (auto simp: poll_read_def split: prod.splits)

section \<open>Examples\<close>

definition quiet_env :: "receipt list \<Rightarrow> bool list \<Rightarrow> poll_env" where
  "quiet_env receipts permits = \<lparr>pe_closed = False, pe_mtu = 1200, pe_termination = None,
     pe_receipts = receipts, pe_wakeups = [], pe_permits = permits\<rparr>"

lemmas poll_evals = quiet_env_def zt_stream_new_def stage_def dispatch_staged_def dispatch_def tell_def next_permit_def next_receipt_def
  chunk_size_def Let_def

definition busy_stream :: zt_stream where
  "busy_stream = (zt_stream_new 2 Bidirectional)\<lparr>zs_write_state := Sending [1, 2, 3], zs_outbox := [OutgoingData 2 [1, 2, 3]]\<rparr>"

lemma busy_advances:
  "advance (quiet_env [] permits) busy_stream = (quiet_env [] permits, busy_stream, Some (Waiting True))"
  "advance (quiet_env [Accepted] permits) busy_stream =
     (quiet_env [] permits, busy_stream\<lparr>zs_write_state := Idle, zs_confirmed := [1, 2, 3]\<rparr>, None)"
  "zs_write_state busy_stream \<noteq> Idle" "zs_write_buffer busy_stream = []" "zs_stream_type busy_stream = Bidirectional"
  by (simp_all add: busy_stream_def advance_def poll_evals)

lemma example_calls:
  "poll_write (quiet_env [] [True]) [1, 2, 3] (zt_stream_new 2 Bidirectional) = ((zt_stream_new 2 Bidirectional)\<lparr>zs_write_buffer := [1, 2, 3]\<rparr>, Ready (Inr 3))"
  "poll_flush (quiet_env [] [True]) ((zt_stream_new 2 Bidirectional)\<lparr>zs_write_buffer := [1, 2, 3]\<rparr>) = (busy_stream, Pending True)"
  "poll_write (quiet_env [] []) [4] busy_stream = (busy_stream, Pending True)"
  "poll_flush (quiet_env [Accepted] []) busy_stream = (busy_stream\<lparr>zs_write_state := Idle, zs_confirmed := [1, 2, 3]\<rparr>, Ready (Inr ()))"
proof -
  let ?s = "(zt_stream_new 2 Bidirectional)\<lparr>zs_write_buffer := [1, 2, 3]\<rparr>"
  show "poll_write (quiet_env [] [True]) [1, 2, 3] (zt_stream_new 2 Bidirectional) = (?s, Ready (Inr 3))"
    by (simp add: poll_write_def write_loop_rules poll_evals)
  have "flush_loop (quiet_env [] [True]) ?s = flush_loop (quiet_env [] []) busy_stream"
    by (subst flush_loop_rules(2)) (simp_all add: busy_stream_def poll_evals)
  also have "\<dots> = (quiet_env [] [], busy_stream, Some (Waiting True))"
    by (subst flush_loop_rules(3)) (simp_all add: busy_advances)
  finally show "poll_flush (quiet_env [] [True]) ?s = (busy_stream, Pending True)"
    by (simp add: poll_flush_def zt_stream_new_def)
  have "write_loop (quiet_env [] []) busy_stream = (quiet_env [] [], busy_stream, Some (Waiting True))"
    by (subst write_loop_rules(2)) (simp_all add: busy_advances)
  then show "poll_write (quiet_env [] []) [4] busy_stream = (busy_stream, Pending True)"
    by (simp add: poll_write_def busy_advances) (simp add: quiet_env_def)
  show "poll_flush (quiet_env [Accepted] []) busy_stream = (busy_stream\<lparr>zs_write_state := Idle, zs_confirmed := [1, 2, 3]\<rparr>, Ready (Inr ()))"
    by (simp add: poll_flush_def flush_loop_rules busy_advances)
qed

section \<open>Properties\<close>

text \<open>
  C16: a stream loses, repeats and reorders nothing it has taken.  In every run of write and flush calls,
  however often the connection refuses a chunk or its mailbox is full, the bytes the calls reported as
  taken are, in order, those the connection has confirmed, followed by those on their way and those
  staged; and when a flush reports success, the connection has confirmed every byte written.  The run must
  not find the staging buffer filled to a whole chunk when it writes.
\<close>

theorem written_bytes_confirmed:
  assumes "perform cs (zt_stream_new stream_id stream_type) = Some (s, written)"
    and "roomy cs (zt_stream_new stream_id stream_type)"
  shows "zs_confirmed s @ in_transit (zs_write_state s) @ zs_write_buffer s = written
    \<and> (\<forall>pe s'. poll_flush pe s = (s', Ready (Inr ())) \<longrightarrow> zs_confirmed s' = written)"
proof -
  have t: "taken s = written" using perform_taken [OF assms] by (simp add: taken_def zt_stream_new_def)
  have "zs_confirmed s' = written" if "poll_flush pe s = (s', Ready (Inr ()))" for pe s'
    using poll_flush_taken [OF that] t by simp
  then show ?thesis using t by (simp add: taken_def)
qed

theorem written_bytes_confirmed_witness:
  "\<exists>s s'. perform [Write (quiet_env [] [True]) [1, 2, 3], Flush (quiet_env [] [True]), Write (quiet_env [] []) [4]] (zt_stream_new 2 Bidirectional)
      = Some (s, [1, 2, 3])
    \<and> poll_flush (quiet_env [Accepted] []) s = (s', Ready (Inr ())) \<and> zs_confirmed s' = [1, 2, 3]"
proof -
  let ?cs = "[Write (quiet_env [] [True]) [1, 2, 3], Flush (quiet_env [] [True]), Write (quiet_env [] []) [4]]"
  have run: "perform ?cs (zt_stream_new 2 Bidirectional) = Some (busy_stream, [1, 2, 3])"
    by (simp add: example_calls)
  have room: "roomy ?cs (zt_stream_new 2 Bidirectional)"
    by (simp add: example_calls) (simp add: busy_stream_def zt_stream_new_def chunk_size_def quiet_env_def)
  from written_bytes_confirmed [OF run room] show ?thesis
    using run example_calls(4) by blast
qed

text \<open>
  C38: the excluded case loses data.  A write that finds a whole chunk staged dispatches it and, when the
  caller offers a chunk or more, dispatches the next one in the same call; the answer to the first chunk
  is then never read.  If the connection refuses the first chunk and accepts the second, flushing reports
  success although the connection has confirmed only the second.
\<close>

theorem overfull_buffer_loses_chunk:
  assumes "zs_write_state s = Idle" and "zs_stream_type s \<noteq> UnidirectionalIn" and "\<not> pe_closed pe"
    and "pe_permits pe = [True, True]" and "length (zs_write_buffer s) = chunk_size (pe_mtu pe)" and "chunk_size (pe_mtu pe) \<le> length buf"
    and "pe_receipts pe' = [Accepted]"
  shows "\<exists>s1 s2. poll_write pe buf s = (s1, Ready (Inr (chunk_size (pe_mtu pe))))
    \<and> zs_outbox s1 = zs_outbox s @ [OutgoingData (zs_stream_id s) (zs_write_buffer s), OutgoingData (zs_stream_id s) (take (chunk_size (pe_mtu pe)) buf)]
    \<and> poll_flush pe' s1 = (s2, Ready (Inr ())) \<and> zs_confirmed s2 = zs_confirmed s @ take (chunk_size (pe_mtu pe)) buf"
proof -
  let ?n = "chunk_size (pe_mtu pe)"
  let ?s1 = "s\<lparr>zs_write_buffer := [], zs_write_state := Sending (take ?n buf), zs_outbox := zs_outbox s
    @ [OutgoingData (zs_stream_id s) (zs_write_buffer s), OutgoingData (zs_stream_id s) (take ?n buf)]\<rparr>"
  have w: "poll_write pe buf s = (?s1, Ready (Inr ?n))"
    using assms(1-6) by (simp add: poll_write_def write_loop_rules stage_def dispatch_staged_def dispatch_def tell_def next_permit_def Let_def)
  have "advance pe' ?s1 = (pe'\<lparr>pe_receipts := []\<rparr>, ?s1\<lparr>zs_write_state := Idle, zs_confirmed := zs_confirmed s @ take ?n buf\<rparr>, None)"
    using assms(7) by (simp add: advance_def next_receipt_def)
  then have "poll_flush pe' ?s1 = (?s1\<lparr>zs_write_state := Idle, zs_confirmed := zs_confirmed s @ take ?n buf\<rparr>, Ready (Inr ()))"
    using assms(2) by (simp add: poll_flush_def flush_loop_rules)
  then show ?thesis using w by simp
qed

theorem overfull_buffer_loses_chunk_witness:
  "\<exists>s1 s2. let s = (zt_stream_new 2 Bidirectional)\<lparr>zs_write_buffer := replicate 1136 1\<rparr> in
    poll_write (quiet_env [] [True, True]) (replicate 1136 2) s = (s1, Ready (Inr 1136))
    \<and> poll_flush (quiet_env [Accepted] []) s1 = (s2, Ready (Inr ())) \<and> zs_confirmed s2 = replicate 1136 2"
  using overfull_buffer_loses_chunk [of "(zt_stream_new 2 Bidirectional)\<lparr>zs_write_buffer := replicate 1136 1\<rparr>"
      "quiet_env [] [True, True]" "replicate 1136 2" "quiet_env [Accepted] []"]
  by (simp add: zt_stream_new_def quiet_env_def chunk_size_def Let_def) blast

text \<open>
  C39: flushing never ends once the connection is gone.  With bytes staged and a mailbox that takes nothing
  any more, every poll leaves the stream as it is and asks to be polled again at once; the flag that tells
  writers of the end of the connection is not consulted.
\<close>

theorem flush_spins_on_dead_connection:
  assumes "zs_write_state s = Idle" and "zs_write_buffer s \<noteq> []" and "zs_stream_type s \<noteq> UnidirectionalIn"
    and "\<forall>pe\<in>set pes. pe_closed pe \<and> pe_permits pe = []"
  shows "map (\<lambda>pe. poll_flush pe s) pes = replicate (length pes) (s, Pending True)
    \<and> map (\<lambda>pe. poll_shutdown pe s) pes = replicate (length pes) (s, Pending True)"
proof -
  have "poll_flush pe s = (s, Pending True) \<and> poll_shutdown pe s = (s, Pending True)" if "pe_permits pe = []" for pe
    using assms(1-3) that by (simp add: poll_flush_def poll_shutdown_def flush_loop_rules next_permit_def)
  then show ?thesis using assms(4) by (induction pes) auto
qed

theorem flush_spins_on_dead_connection_witness:
  "let s = (zt_stream_new 2 Bidirectional)\<lparr>zs_write_buffer := [7]\<rparr> in
    map (\<lambda>pe. poll_flush pe s) (replicate 3 ((quiet_env [] [])\<lparr>pe_closed := True\<rparr>)) = replicate 3 (s, Pending True)"
  using flush_spins_on_dead_connection [of "(zt_stream_new 2 Bidirectional)\<lparr>zs_write_buffer := [7]\<rparr>"
      "replicate 3 ((quiet_env [] [])\<lparr>pe_closed := True\<rparr>)"]
  by (simp add: zt_stream_new_def quiet_env_def Let_def)

text \<open>
  C18: the copying and the zero-copy send agree, and neither loses, repeats or reorders data.  Both send
  the same chunks, none empty and none above the chunk size; what the connection accepts is at every
  moment a prefix of the data, and all of it when the call succeeds.
\<close>

theorem send_calls_deliver_in_order:
  "send_bytes mtu xs data s = send mtu xs data s
   \<and> (case send mtu xs data s of (trace, r) \<Rightarrow>
        prefix (accepted trace) data \<and> (r = Some (Ok ()) \<longrightarrow> accepted trace = data)
        \<and> list_all (\<lambda>(chunk, _). 0 < length chunk \<and> length chunk \<le> chunk_size mtu) trace)"
proof (cases "zs_stream_type s = UnidirectionalIn")
  case False
  obtain trace r where t: "send_chunks xs (chunks (chunk_size mtu) data) = (trace, r)" by fastforce
  then show ?thesis
    using False send_chunks_accepts [OF t] chunks_length [of _ "chunk_size mtu" data]
    by (auto simp: send_def send_bytes_def send_rest_chunks concat_chunks list_all_iff)
qed (simp add: send_def send_bytes_def)

theorem send_calls_deliver_in_order_witness:
  "\<exists>trace. send 1200 [\<lparr>at_closed = False, at_termination = None, at_sent = True, at_receipt = Accepted, at_notified = False\<rparr>] [1, 2]
      (zt_stream_new 2 Bidirectional) = (trace, Some (Ok ())) \<and> accepted trace = [1, 2]"
proof -
  let ?x = "\<lparr>at_closed = False, at_termination = None, at_sent = True, at_receipt = Accepted, at_notified = False\<rparr>"
  have "snd (send 1200 [?x] [1, 2] (zt_stream_new 2 Bidirectional)) = Some (Ok ())"
    by (simp add: send_def zt_stream_new_def chunks.simps [of _ "[1, 2]"] chunks.simps [of _ "[]"] chunk_size_def)
  then show ?thesis
    using send_calls_deliver_in_order [of 1200 "[?x]" "[1, 2]" "zt_stream_new 2 Bidirectional"]
    by (cases "send 1200 [?x] [1, 2] (zt_stream_new 2 Bidirectional)") auto
qed

text \<open>
  C33: a send call completes.  If the connection stays open, answers every attempt, wakes the sender after
  each refusal in time, and accepts as often as there are chunks, the call returns success.
\<close>

theorem send_completes:
  assumes "zs_stream_type s \<noteq> UnidirectionalIn" and "list_all hopeful xs"
    and "length (chunks (chunk_size mtu) data) \<le> accepting xs"
  shows "snd (send mtu xs data s) = Some (Ok ())"
  using send_chunks_completes [OF assms(2,3)] assms(1) by (auto simp: send_def)

theorem send_completes_witness:
  "snd (send 1200 [\<lparr>at_closed = False, at_termination = None, at_sent = True, at_receipt = Rejected CongestionWindowFull, at_notified = True\<rparr>,
      \<lparr>at_closed = False, at_termination = None, at_sent = True, at_receipt = Accepted, at_notified = False\<rparr>] [1, 2] (zt_stream_new 2 Bidirectional))
    = Some (Ok ())"
  by (rule send_completes) (simp_all add: zt_stream_new_def hopeful_def window_full_def chunks.simps [of _ "[1, 2]"] chunks.simps [of _ "[]"] chunk_size_def)

text \<open>
  C17: reads return the stream in order and account for it.  Over any run of polled and whole-chunk reads,
  what the application got followed by what is still unread is what was delivered to the stream, and the
  credit returned to the connection together with the credit still owed is the number of bytes handed
  over.  After such a run a poll with room, \<open>recv_result\<close> and \<open>recv\<close> report the end of a readable stream only
  when everything was read and no more can come.
\<close>

theorem reads_return_stream_in_order:
  assumes "reads cs s = (s', out)" and "zs_pending_read_credit s + length (unread s) < two64"
  shows "out @ unread s' = unread s \<and> credited s' = credited s + length out
    \<and> (\<forall>pe n s''. poll_read pe (Suc n) s' = (s'', Ready (Inr [])) \<longrightarrow>
         zs_stream_type s' = UnidirectionalOut \<or> unread s'' = [] \<and> zs_receiver_closed s'')
    \<and> (\<forall>alive t s''. recv_result alive t s' = (s'', Some (Ok None)) \<or> recv alive t s' = (s'', Some None) \<longrightarrow>
         zs_stream_type s' = UnidirectionalOut \<or> unread s'' = [] \<and> zs_receiver_closed s'')"
proof -
  note ok = reads_ok [OF assms]
  have "credit_fits s'" using read_ok_fits [OF ok assms(2)] .
  then have "zs_stream_type s' = UnidirectionalOut \<or> unread s'' = [] \<and> zs_receiver_closed s''"
    if "poll_read pe (Suc n) s' = (s'', Ready (Inr []))" for pe n s''
    using poll_read_ok [OF that] by simp
  then show ?thesis using ok recv_end [of _ _ s'] by (fastforce simp: read_ok_def)
qed

theorem reads_return_stream_in_order_witness:
  "\<exists>s'. reads [PollRead (quiet_env [] []) 2, Recv None] ((zt_stream_new 1 Bidirectional)\<lparr>zs_receiver := [[1, 2, 3], [4]]\<rparr>) = (s', [1, 2, 3])
     \<and> unread s' = [4] \<and> credited s' = 3 \<and> snd (recv True None s') \<noteq> Some None"
proof -
  let ?s = "(zt_stream_new 1 Bidirectional)\<lparr>zs_receiver := [[1, 2, 3], [4 :: u8]]\<rparr>"
  have "snd (reads [PollRead (quiet_env [] []) 2, Recv None] ?s) = [1, 2, 3]"
    by (simp add: zt_stream_new_def quiet_env_def poll_read_def read_loop_rules read_chunk_def offer_credit_def next_permit_def
        recv_result_def tell_def saturating_add64_def Let_def)
  then obtain s' where r: "reads [PollRead (quiet_env [] []) 2, Recv None] ?s = (s', [1, 2, 3])" by (metis prod.collapse)
  have open_end: "\<not> zs_receiver_closed (fst (recv True None s'))"
    using r by (auto simp: zt_stream_new_def quiet_env_def poll_read_def read_loop_rules read_chunk_def offer_credit_def next_permit_def
        recv_def recv_result_def tell_def saturating_add64_def Let_def)
  have type: "zs_stream_type s' = Bidirectional"
    using r by (auto simp: zt_stream_new_def quiet_env_def poll_read_def read_loop_rules read_chunk_def offer_credit_def next_permit_def
        recv_result_def tell_def saturating_add64_def Let_def)
  note all = reads_return_stream_in_order [OF r]
  then have "snd (recv True None s') \<noteq> Some None"
    using open_end type by (cases "recv True None s'") (fastforce simp: zt_stream_new_def unread_def)
  with all show ?thesis using r by (simp add: zt_stream_new_def unread_def credited_def)
qed

text \<open>
  C40: who wakes a waiting caller.  A read that returns without a result has registered its waker.  So has
  every write, flush or shutdown, except one that was woken to repeat a refused chunk and found the mailbox
  full: it starts a timer without polling it, and leaves the chunk to be sent when the timer fires.  The
  exception occurs in all three calls, for a chunk refused by a full window and for a paced one, and
  then nothing wakes the caller.
\<close>

theorem refused_retry_is_not_woken:
  "snd (poll_read pe n s) \<noteq> Pending False
   \<and> (snd (poll_write pe buf s) = Pending False \<longrightarrow>
        full_mailbox 0 pe \<and> (\<exists>chunk. zs_write_state (fst (poll_write pe buf s)) = Pacing chunk))
   \<and> (snd (poll_flush pe s) = Pending False \<longrightarrow>
        (full_mailbox 0 pe \<or> zs_write_buffer s \<noteq> [] \<and> full_mailbox 1 pe) \<and> (\<exists>chunk. zs_write_state (fst (poll_flush pe s)) = Pacing chunk))
   \<and> (snd (poll_shutdown pe s) = Pending False \<longrightarrow>
        (full_mailbox 0 pe \<or> zs_write_buffer s \<noteq> [] \<and> full_mailbox 1 pe) \<and> (\<exists>chunk. zs_write_state (fst (poll_shutdown pe s)) = Pacing chunk))
   \<and> ((zs_write_state s = Blocked chunk \<or> zs_write_state s = Pacing chunk) \<and> zs_stream_type s \<noteq> UnidirectionalIn \<and> \<not> pe_closed pe
        \<and> pe_wakeups pe = True # later \<and> \<not> fst (next_permit pe)
        \<longrightarrow> poll_write pe buf s = (s\<lparr>zs_write_state := Pacing chunk\<rparr>, Pending False)
          \<and> poll_flush pe s = (s\<lparr>zs_write_state := Pacing chunk\<rparr>, Pending False)
          \<and> poll_shutdown pe s = (s\<lparr>zs_write_state := Pacing chunk\<rparr>, Pending False))"
proof (intro conjI impI)
  show "snd (poll_read pe n s) \<noteq> Pending False" by (rule poll_read_registers)
next
  assume "snd (poll_write pe buf s) = Pending False"
  then obtain pe' s' where "write_loop pe s = (pe', s', Some (Waiting False))" "fst (poll_write pe buf s) = s'"
    by (auto simp: poll_write_def stage_def Let_def split: if_splits prod.splits option.splits bool.splits elim!: early_poll_Pending)
  with write_loop_waiting show "full_mailbox 0 pe" "\<exists>chunk. zs_write_state (fst (poll_write pe buf s)) = Pacing chunk" by auto
next
  assume "snd (poll_flush pe s) = Pending False"
  then obtain pe' s' where "flush_loop pe s = (pe', s', Some (Waiting False))" "fst (poll_flush pe s) = s'"
    by (auto simp: poll_flush_def split: if_splits prod.splits option.splits elim!: early_poll_Pending)
  with flush_loop_waiting show "full_mailbox 0 pe \<or> zs_write_buffer s \<noteq> [] \<and> full_mailbox 1 pe"
    "\<exists>chunk. zs_write_state (fst (poll_flush pe s)) = Pacing chunk" by auto
next
  assume "snd (poll_shutdown pe s) = Pending False"
  then obtain pe' s' where "flush_loop pe s = (pe', s', Some (Waiting False))" "fst (poll_shutdown pe s) = s'"
    by (auto simp: poll_shutdown_def split: if_splits prod.splits option.splits elim!: early_poll_Pending)
  with flush_loop_waiting show "full_mailbox 0 pe \<or> zs_write_buffer s \<noteq> [] \<and> full_mailbox 1 pe"
    "\<exists>chunk. zs_write_state (fst (poll_shutdown pe s)) = Pacing chunk" by auto
next
  assume *: "(zs_write_state s = Blocked chunk \<or> zs_write_state s = Pacing chunk) \<and> zs_stream_type s \<noteq> UnidirectionalIn \<and> \<not> pe_closed pe
    \<and> pe_wakeups pe = True # later \<and> \<not> fst (next_permit pe)"
  then have "\<exists>pe'. advance pe s = (pe', s\<lparr>zs_write_state := Pacing chunk\<rparr>, Some (Waiting False))"
    by (auto simp: advance_def retry_chunk_def next_wakeup_def next_permit_def split: list.splits)
  then show "poll_write pe buf s = (s\<lparr>zs_write_state := Pacing chunk\<rparr>, Pending False)"
    and "poll_flush pe s = (s\<lparr>zs_write_state := Pacing chunk\<rparr>, Pending False)"
    and "poll_shutdown pe s = (s\<lparr>zs_write_state := Pacing chunk\<rparr>, Pending False)"
    using * by (auto simp: poll_write_def poll_flush_def poll_shutdown_def write_loop_rules flush_loop_rules)
qed

theorem refused_retry_is_not_woken_witness:
  "poll_write ((quiet_env [] [])\<lparr>pe_wakeups := [True]\<rparr>) [9] ((zt_stream_new 2 Bidirectional)\<lparr>zs_write_state := Blocked [7]\<rparr>)
     = ((zt_stream_new 2 Bidirectional)\<lparr>zs_write_state := Pacing [7]\<rparr>, Pending False)
   \<and> snd (poll_write (quiet_env [] []) [9] ((zt_stream_new 2 Bidirectional)\<lparr>zs_write_state := Pacing [7]\<rparr>)) \<noteq> Pending False"
  using refused_retry_is_not_woken [of "(quiet_env [] [])\<lparr>pe_wakeups := [True]\<rparr>" 0 "(zt_stream_new 2 Bidirectional)\<lparr>zs_write_state := Blocked [7]\<rparr>" "[9]" "[7]" "[]"]
    refused_retry_is_not_woken [of "quiet_env [] []" 0 "(zt_stream_new 2 Bidirectional)\<lparr>zs_write_state := Pacing [7]\<rparr>" "[9]"]
  by (auto simp: quiet_env_def zt_stream_new_def next_permit_def full_mailbox_def)

end
