(* ===== verification/Zt_Endpoint.thy ===== *)
theory Zt_Endpoint
  imports Zt_Server
begin

text \<open>
  The endpoint (\<^verbatim>\<open>src/src/transport/endpoint.rs\<close>) and the connection handle
  (\<^verbatim>\<open>src/src/stream/connection_handle.rs\<close>): the router tasks, each with its cache of routes, the calls of the
  application, and the steps of the whole node.  A mailbox is closed when its task has ended; \<^verbatim>\<open>try_send\<close>
  fails on a closed or full one, while \<^verbatim>\<open>send\<close> waits for room, so that here it only fails on a closed one.
  What a call waits for (the answer of the actor, or the end of the handshake) is an argument.
\<close>

section \<open>Mailboxes\<close>

abbreviation MAX_ACTIVE_CONNECTIONS :: nat where
  "MAX_ACTIVE_CONNECTIONS \<equiv> 1000"

abbreviation mailbox_capacity :: nat where
  "mailbox_capacity \<equiv> 1024"

abbreviation handshake_permits :: nat where
  "handshake_permits \<equiv> 256"

definition mailbox_closed :: "nat \<Rightarrow> endpoint \<Rightarrow> bool" where
  "mailbox_closed t e \<longleftrightarrow> \<not> el_running (tk_loop (ep_tasks e ! t))"

definition try_post :: "nat \<Rightarrow> actor_message \<Rightarrow> endpoint \<Rightarrow> endpoint \<times> bool" where
  "try_post t msg e =
     (if mailbox_closed t e \<or> length (tk_mailbox (ep_tasks e ! t)) \<ge> mailbox_capacity then (e, False)
      else (post t msg e, True))"

section \<open>Routing datagrams\<close>

text \<open>
  The whole node: the endpoint; the handshakes that hold a permit, and how many have finished and still hold
  theirs; for each router task its cache, and the request it has admitted but not yet got a permit for.
  Between the steps of one router the other routers and the handshake tasks may run.
\<close>

record node =
  nd_endpoint :: endpoint
  nd_handshakes :: "(bytes \<times> socket_addr) list"
  nd_finishing :: nat
  nd_caches :: "(bytes \<times> nat) list list"
  nd_admitted :: "(bytes \<times> socket_addr) option list"

text \<open>
  A new node with as many router tasks as there are cores.  Opening and binding the sockets is left out; the
  keys of the endpoint, which are drawn at random, are those of \<open>e\<close>.
\<close>

definition bind_with_zt_config :: "nat \<Rightarrow> zt_config \<Rightarrow> endpoint \<Rightarrow> node outcome" where
  "bind_with_zt_config cores config e =
     obind (validate_config config) (\<lambda>_.
     Ok \<lparr>nd_endpoint = e\<lparr>ep_routing_table := [], ep_psk := cfg_psk config, ep_handshake_replay_filter := [],
           ep_accept_queue := [], ep_tasks := [], ep_wire := []\<rparr>,
         nd_handshakes = [], nd_finishing = 0, nd_caches = replicate (max cores 1) [],
         nd_admitted = replicate (max cores 1) None\<rparr>)"

definition bind_with_config :: "nat \<Rightarrow> bytes option \<Rightarrow> congestion_control_algorithm \<Rightarrow> endpoint \<Rightarrow> node outcome" where
  "bind_with_config cores psk cc_algo = bind_with_zt_config cores (default_config\<lparr>cfg_psk := psk, cfg_cc_algorithm := cc_algo\<rparr>)"

definition bind_default :: "nat \<Rightarrow> bytes option \<Rightarrow> endpoint \<Rightarrow> node outcome" where
  "bind_default cores psk = bind_with_zt_config cores (default_config\<lparr>cfg_psk := psk\<rparr>)"

definition route_cached ::
  "bytes \<Rightarrow> bytes \<Rightarrow> socket_addr \<Rightarrow> (bytes \<times> nat) list \<Rightarrow> endpoint \<Rightarrow> (bytes \<times> nat) list \<times> endpoint \<times> bool" where
  "route_cached dcid data addr cache e =
     (case map_of cache dcid of
        None \<Rightarrow> (cache, e, False)
      | Some t \<Rightarrow>
          if mailbox_closed t e then (AList.delete dcid cache, e, False)
          else (case try_post t (IncomingPacket data addr) e of
              (e, True) \<Rightarrow> (cache, e, True)
            | (e, False) \<Rightarrow> (AList.delete dcid cache, e, False)))"

definition looks_initial :: "bytes \<Rightarrow> bool" where
  "looks_initial data \<longleftrightarrow> length data \<ge> 1200 \<and> (data ! 0) AND 0x80 \<noteq> 0"

text \<open>
  A new handshake is admitted while the routing table is short enough, its length read at one instant; then
  a permit is asked for.
\<close>

definition admit_handshake :: "nat \<Rightarrow> bytes \<Rightarrow> socket_addr \<Rightarrow> node \<Rightarrow> node" where
  "admit_handshake i data addr nd =
     (if looks_initial data \<and> length (ep_routing_table (nd_endpoint nd)) < MAX_ACTIVE_CONNECTIONS
      then nd\<lparr>nd_admitted := (nd_admitted nd)[i := Some (data, addr)]\<rparr>
      else nd)"

definition start_handshake :: "nat \<Rightarrow> node \<Rightarrow> node" where
  "start_handshake i nd =
     (case nd_admitted nd ! i of
        None \<Rightarrow> nd
      | Some request \<Rightarrow>
          let nd = nd\<lparr>nd_admitted := (nd_admitted nd)[i := None]\<rparr> in
          if length (nd_handshakes nd) + nd_finishing nd < handshake_permits
          then nd\<lparr>nd_handshakes := nd_handshakes nd @ [request]\<rparr>
          else nd)"

definition route_packet :: "nat \<Rightarrow> bytes \<Rightarrow> socket_addr \<Rightarrow> node \<Rightarrow> node" where
  "route_packet i data addr nd =
     (case extract_dcid_fast data of
        None \<Rightarrow> nd
      | Some dcid \<Rightarrow>
          let (cache, e, routed) = route_cached dcid data addr (nd_caches nd ! i) (nd_endpoint nd);
              nd = nd\<lparr>nd_endpoint := e, nd_caches := (nd_caches nd)[i := cache]\<rparr>
          in
          if routed then nd
          else (case map_of (ep_routing_table e) dcid of
              Some t \<Rightarrow>
                if mailbox_closed t e then nd\<lparr>nd_endpoint := unregister dcid e\<rparr>
                else nd\<lparr>nd_caches := (nd_caches nd)[i := AList.update dcid t cache],
                        nd_endpoint := fst (try_post t (IncomingPacket data addr) e)\<rparr>
            | None \<Rightarrow> admit_handshake i data addr nd))"

text \<open>
  The loop of a router over what its socket returns; \<open>waiting\<close> when it awaits the socket instead of trying
  it, \<open>processed\<close> counts the batch.  The result tells whether the task still runs.
\<close>

datatype received = Datagram bytes socket_addr | NothingYet | PeerReset | SocketFailed

fun router :: "nat \<Rightarrow> bool \<Rightarrow> nat \<Rightarrow> received list \<Rightarrow> node \<Rightarrow> node \<times> bool" where
  "router i waiting processed [] nd = (nd, True)"
| "router i waiting processed (r # rs) nd =
     (let processed = (if processed < 64 then processed else 0) in
      case r of
        Datagram data addr \<Rightarrow> router i False (processed + 1) rs (start_handshake i (route_packet i data addr nd))
      | NothingYet \<Rightarrow> router i (waiting \<or> processed = 0) 0 rs nd
      | PeerReset \<Rightarrow> if waiting then (nd, False) else router i False processed rs nd
      | SocketFailed \<Rightarrow> (nd, False))"

section \<open>Settings\<close>

definition set_alpn :: "bytes \<Rightarrow> env \<Rightarrow> env" where
  "set_alpn alpn en = (if alpn = [] \<or> length alpn > 255 then en else en\<lparr>en_alpn := alpn\<rparr>)"

definition set_peer_key_verifier :: "(bytes \<Rightarrow> bool) option \<Rightarrow> env \<Rightarrow> env" where
  "set_peer_key_verifier verifier en = en\<lparr>en_peer_key_verifier := verifier\<rparr>"

section \<open>Calls on a connection\<close>

text \<open>A message to the actor of a connection, if it has a route; the flag tells whether it was taken.\<close>

definition ask :: "bytes \<Rightarrow> actor_message \<Rightarrow> endpoint \<Rightarrow> endpoint \<times> bool option" where
  "ask cid msg e =
     (case map_of (ep_routing_table e) cid of
        None \<Rightarrow> (e, None)
      | Some t \<Rightarrow> if mailbox_closed t e then (e, Some False) else (post t msg e, Some True))"

definition endpoint_get_mtu :: "bytes \<Rightarrow> nat option \<Rightarrow> endpoint \<Rightarrow> endpoint \<times> nat" where
  "endpoint_get_mtu cid answer e =
     (case ask cid GetMtu e of
        (e, Some True) \<Rightarrow> (e, case answer of Some mtu \<Rightarrow> mtu | None \<Rightarrow> 1200)
      | (e, _) \<Rightarrow> (e, 1200))"

text \<open>The answer to a call, where a dropped channel counts as a failed actor.\<close>

definition answered :: "'a outcome option \<Rightarrow> 'a outcome" where
  "answered answer = (case answer of Some r \<Rightarrow> r | None \<Rightarrow> Err ActorFailed)"

definition call_actor :: "zt_error \<Rightarrow> bytes \<Rightarrow> actor_message \<Rightarrow> 'a outcome option \<Rightarrow> endpoint \<Rightarrow> endpoint \<times> 'a outcome" where
  "call_actor send_error cid msg answer e =
     (case ask cid msg e of
        (e, Some True) \<Rightarrow> (e, answered answer)
      | (e, Some False) \<Rightarrow> (e, Err send_error)
      | (e, None) \<Rightarrow> (e, Err ActorFailed))"

definition endpoint_send_data :: "bytes \<Rightarrow> u32 \<Rightarrow> bytes \<Rightarrow> unit outcome option \<Rightarrow> endpoint \<Rightarrow> endpoint \<times> unit outcome" where
  "endpoint_send_data cid stream_id data = call_actor (Io OtherIo) cid (OutgoingData stream_id data)"

definition endpoint_get_stats ::
  "bytes \<Rightarrow> connection_stats outcome option \<Rightarrow> endpoint \<Rightarrow> endpoint \<times> connection_stats outcome" where
  "endpoint_get_stats cid = call_actor ActorFailed cid GetStats"

definition endpoint_send_datagram :: "bytes \<Rightarrow> bytes \<Rightarrow> unit outcome option \<Rightarrow> endpoint \<Rightarrow> endpoint \<times> unit outcome" where
  "endpoint_send_datagram cid data = call_actor (Io OtherIo) cid (SendDatagram data)"

definition endpoint_close_stream :: "bytes \<Rightarrow> u32 \<Rightarrow> endpoint \<Rightarrow> endpoint \<times> unit outcome" where
  "endpoint_close_stream cid stream_id e = (fst (ask cid (MsgCloseStream stream_id) e), Ok ())"

definition open_stream_with_type :: "bytes \<Rightarrow> stream_type \<Rightarrow> u32 outcome option \<Rightarrow> endpoint \<Rightarrow> endpoint \<times> u32 outcome" where
  "open_stream_with_type cid stream_type = call_actor ActorFailed cid (OpenStream stream_type)"

definition endpoint_open_stream :: "bytes \<Rightarrow> u32 outcome option \<Rightarrow> endpoint \<Rightarrow> endpoint \<times> u32 outcome" where
  "endpoint_open_stream cid = open_stream_with_type cid Bidirectional"

definition endpoint_close :: "bytes \<Rightarrow> endpoint \<Rightarrow> endpoint \<times> unit outcome" where
  "endpoint_close cid e = (unregister cid (fst (ask cid MsgClose e)), Ok ())"

definition endpoint_close_with_error :: "bytes \<Rightarrow> u64 \<Rightarrow> bytes \<Rightarrow> endpoint \<Rightarrow> endpoint \<times> unit outcome" where
  "endpoint_close_with_error cid error_code reason e =
     (if length reason > 1024 then (e, Err (InvalidPacket ''connection close reason exceeds 1024 bytes''))
      else case ask cid (MsgCloseWithError error_code reason) e of
        (e, Some False) \<Rightarrow> (unregister cid e, Err ActorFailed)
      | (e, _) \<Rightarrow> (unregister cid e, Ok ()))"

definition endpoint_accept :: "endpoint \<Rightarrow> endpoint \<times> bytes option" where
  "endpoint_accept e =
     (case ep_accept_queue e of
        [] \<Rightarrow> (e, None)
      | scid # rest \<Rightarrow> (e\<lparr>ep_accept_queue := rest\<rparr>, Some scid))"

section \<open>Connecting\<close>

definition client_actor ::
  "env \<Rightarrow> socket_addr \<Rightarrow> bytes \<Rightarrow> bytes \<Rightarrow> bytes \<times> bytes \<Rightarrow> endpoint \<Rightarrow> actor" where
  "client_actor en addr scid dcid keypair e =
     actor_new ((connection_new addr scid dcid (en_config en))\<lparr>cn_state := Handshaking\<rparr>)
       (snd keypair) (Some (fst keypair)) (Some (ep_ed_signing_key e)) (ep_ed_public_key e) (ep_psk e) True scid True"

definition connect :: "env \<Rightarrow> socket_addr \<Rightarrow> bytes \<Rightarrow> bytes \<Rightarrow> bytes \<times> bytes \<Rightarrow> endpoint \<Rightarrow> endpoint" where
  "connect en addr scid dcid keypair e =
     spawn en (client_actor en addr scid dcid keypair e) (register scid (length (ep_tasks e)) e)"

text \<open>The second half: the handshake completed before the time limit, or not.\<close>

definition connect_result :: "bytes \<Rightarrow> bool \<Rightarrow> endpoint \<Rightarrow> endpoint \<times> bytes outcome" where
  "connect_result scid completed e = (if completed then (e, Ok scid) else (unregister scid e, Err Timeout))"

section \<open>The connection handle\<close>

record connection_handle =
  ch_cid :: bytes
  ch_incoming_streams :: "u32 list"
  ch_incoming_datagrams :: "bytes list"
  ch_ended :: bool

text \<open>Receiving from one of the actor's channels; \<open>None\<close> while nothing has come.\<close>

definition channel_recv :: "bool \<Rightarrow> termination_cell \<Rightarrow> 'a list \<Rightarrow> 'a list \<times> 'a option outcome option" where
  "channel_recv ended termination queue =
     (case queue of
        x # rest \<Rightarrow> (rest, Some (Ok (Some x)))
      | [] \<Rightarrow>
          if ended then ([], Some (case termination_error termination of None \<Rightarrow> Ok None | Some e \<Rightarrow> Err e))
          else ([], None))"

definition accept_stream_result :: "termination_cell \<Rightarrow> connection_handle \<Rightarrow> connection_handle \<times> u32 option outcome option" where
  "accept_stream_result termination h =
     (case channel_recv (ch_ended h) termination (ch_incoming_streams h) of
        (queue, r) \<Rightarrow> (h\<lparr>ch_incoming_streams := queue\<rparr>, r))"

definition recv_datagram_result :: "termination_cell \<Rightarrow> connection_handle \<Rightarrow> connection_handle \<times> bytes option outcome option" where
  "recv_datagram_result termination h =
     (case channel_recv (ch_ended h) termination (ch_incoming_datagrams h) of
        (queue, r) \<Rightarrow> (h\<lparr>ch_incoming_datagrams := queue\<rparr>, r))"

text \<open>The variants without a reason: an error counts as the end.\<close>

definition ok_flatten :: "'a option outcome \<Rightarrow> 'a option" where
  "ok_flatten r = (case r of Ok x \<Rightarrow> x | _ \<Rightarrow> None)"

definition accept_stream :: "termination_cell \<Rightarrow> connection_handle \<Rightarrow> connection_handle \<times> u32 option option" where
  "accept_stream termination h = (case accept_stream_result termination h of (h, r) \<Rightarrow> (h, map_option ok_flatten r))"

definition recv_datagram :: "termination_cell \<Rightarrow> connection_handle \<Rightarrow> connection_handle \<times> bytes option option" where
  "recv_datagram termination h = (case recv_datagram_result termination h of (h, r) \<Rightarrow> (h, map_option ok_flatten r))"

section \<open>Steps of the node\<close>

text \<open>One turn of a task; a task that ends normally removes its route.\<close>

definition task_turn :: "nat \<Rightarrow> env \<Rightarrow> event \<Rightarrow> endpoint \<Rightarrow> endpoint" where
  "task_turn t en ev e =
     (let tk = ep_tasks e ! t;
          l = loop_turn en ev (tk_loop tk);
          rest = (case ev of Message _ \<Rightarrow> tl (tk_mailbox tk) | _ \<Rightarrow> tk_mailbox tk);
          e = e\<lparr>ep_tasks := (ep_tasks e)[t := \<lparr>tk_loop = l, tk_mailbox = rest\<rparr>]\<rparr>
      in if el_routed l then e else unregister (ac_scid (el_actor l)) e)"

definition can_turn :: "nat \<Rightarrow> env \<Rightarrow> event \<Rightarrow> endpoint \<Rightarrow> bool" where
  "can_turn t en ev e \<longleftrightarrow>
     t < length (ep_tasks e) \<and> el_running (tk_loop (ep_tasks e ! t)) \<and> enabled en ev (tk_loop (ep_tasks e ! t))
     \<and> (case ev of Message msg \<Rightarrow> tk_mailbox (ep_tasks e ! t) \<noteq> [] \<and> hd (tk_mailbox (ep_tasks e ! t)) = msg | _ \<Rightarrow> True)"

text \<open>Messages that come from the application or its streams.\<close>

fun from_application :: "actor_message \<Rightarrow> bool" where
  "from_application (IncomingPacket _ _) = False"
| "from_application (SetHandshakePacket _) = False"
| "from_application _ = True"

datatype node_event =
    Arrives nat bytes socket_addr
  | Acquires nat
  | Shakes nat server_env
  | Releases
  | Turns nat env event
  | Calls bytes actor_message
  | StreamSends nat actor_message
  | Closes bytes
  | ClosesWithError bytes u64 bytes
  | Accepts
  | Connects env socket_addr bytes bytes "bytes \<times> bytes"
  | ConnectEnds bytes bool

definition on_endpoint :: "(endpoint \<Rightarrow> endpoint) \<Rightarrow> node \<Rightarrow> node" where
  "on_endpoint f nd = nd\<lparr>nd_endpoint := f (nd_endpoint nd)\<rparr>"

fun node_step :: "node_event \<Rightarrow> node \<Rightarrow> node" where
  "node_step (Arrives i data addr) nd =
     (if i < length (nd_caches nd) \<and> nd_admitted nd ! i = None then route_packet i data addr nd else nd)"
| "node_step (Acquires i) nd = (if i < length (nd_admitted nd) then start_handshake i nd else nd)"
| "node_step (Shakes i sv) nd =
     (if i < length (nd_handshakes nd) then
        let (data, addr) = nd_handshakes nd ! i in
        nd\<lparr>nd_endpoint := fst (handle_handshake sv data addr (nd_endpoint nd)),
           nd_handshakes := take i (nd_handshakes nd) @ drop (Suc i) (nd_handshakes nd),
           nd_finishing := nd_finishing nd + 1\<rparr>
      else nd)"
| "node_step Releases nd = nd\<lparr>nd_finishing := nd_finishing nd - 1\<rparr>"
| "node_step (Turns t en ev) nd = (if can_turn t en ev (nd_endpoint nd) then on_endpoint (task_turn t en ev) nd else nd)"
| "node_step (Calls cid msg) nd = (if from_application msg then on_endpoint (\<lambda>e. fst (ask cid msg e)) nd else nd)"
| "node_step (StreamSends t msg) nd =
     (if from_application msg \<and> t < length (ep_tasks (nd_endpoint nd)) then on_endpoint (\<lambda>e. fst (try_post t msg e)) nd else nd)"
| "node_step (Closes cid) nd = on_endpoint (\<lambda>e. fst (endpoint_close cid e)) nd"
| "node_step (ClosesWithError cid code reason) nd = on_endpoint (\<lambda>e. fst (endpoint_close_with_error cid code reason e)) nd"
| "node_step Accepts nd = on_endpoint (\<lambda>e. fst (endpoint_accept e)) nd"
| "node_step (Connects en addr scid dcid keypair) nd = on_endpoint (connect en addr scid dcid keypair) nd"
| "node_step (ConnectEnds scid completed) nd = on_endpoint (\<lambda>e. fst (connect_result scid completed e)) nd"

end
