(* ===== verification/Zt_Node.thy ===== *)
theory Zt_Node
  imports Zt_Endpoint
begin

text \<open>
  The node as a whole: how many connections a stream of handshakes can create, and that no packet is handed
  to a connection it is not addressed to.
\<close>

section \<open>What a step does to tasks and routes\<close>

definition task_scid :: "task \<Rightarrow> bytes" where
  "task_scid tk = ac_scid (el_actor (tk_loop tk))"

definition scids :: "endpoint \<Rightarrow> bytes list" where
  "scids e = map task_scid (ep_tasks e)"

lemma length_scids [simp]: "length (scids e) = length (ep_tasks e)"
  by (simp add: scids_def)

text \<open>A route names a task that answers to that id.\<close>

definition routes_ok :: "(bytes \<times> nat) list \<Rightarrow> bytes list \<Rightarrow> bool" where
  "routes_ok xs ss \<longleftrightarrow> (\<forall>(cid, t)\<in>set xs. t < length ss \<and> ss ! t = cid)"

lemma routes_ok_subset: "routes_ok xs ss \<Longrightarrow> set ys \<subseteq> set xs \<Longrightarrow> routes_ok ys ss"
  by (auto simp: routes_ok_def)

lemma routes_ok_append: "routes_ok xs ss \<Longrightarrow> routes_ok xs (ss @ ss')"
  by (auto simp: routes_ok_def nth_append)

lemma set_AList_update: "set (AList.update k v xs) \<subseteq> insert (k, v) (set xs)"
  by (induction xs) auto

lemma set_AList_delete: "set (AList.delete k xs) \<subseteq> set xs"
  by (auto simp: AList.delete_eq)

lemma length_AList_update: "length (AList.update k v xs) \<le> Suc (length xs)"
  by (induction xs) auto

lemma length_AList_delete: "length (AList.delete k xs) \<le> length xs"
  by (simp add: AList.delete_eq)

lemma routes_ok_update: "routes_ok xs ss \<Longrightarrow> t < length ss \<Longrightarrow> ss ! t = cid \<Longrightarrow> routes_ok (AList.update cid t xs) ss"
  using set_AList_update [of cid t xs] by (auto simp: routes_ok_def)

lemma routes_ok_lookup: "routes_ok xs ss \<Longrightarrow> map_of xs cid = Some t \<Longrightarrow> t < length ss \<and> ss ! t = cid"
  by (auto simp: routes_ok_def dest: map_of_SomeD)

text \<open>The packets in a mailbox are addressed to its task.\<close>

definition mail_ok :: "task \<Rightarrow> bool" where
  "mail_ok tk \<longleftrightarrow> (\<forall>data addr. IncomingPacket data addr \<in> set (tk_mailbox tk) \<longrightarrow> extract_dcid_fast data = Some (task_scid tk))"

definition endpoint_ok :: "endpoint \<Rightarrow> bool" where
  "endpoint_ok e \<longleftrightarrow> routes_ok (ep_routing_table e) (scids e) \<and> list_all mail_ok (ep_tasks e)"

text \<open>How an endpoint may develop: tasks are kept in place and may be added, routes are old, or one leads to the new task.\<close>

definition develops :: "endpoint \<Rightarrow> endpoint \<Rightarrow> bool" where
  "develops e e' \<longleftrightarrow> endpoint_ok e \<longrightarrow> endpoint_ok e' \<and> (\<exists>ss. scids e' = scids e @ ss)"

lemma develops_refl [simp]: "develops e e"
  by (simp add: develops_def)

lemma develops_trans: "develops e e' \<Longrightarrow> develops e' e'' \<Longrightarrow> develops e e''"
  by (auto simp: develops_def)

lemma list_all_update: "list_all P xs \<Longrightarrow> P x \<Longrightarrow> list_all P (xs[t := x])"
  using set_update_subset_insert [of xs t x] by (auto simp: list_all_iff)

lemma scids_post [simp]: "scids (post t msg e) = scids e"
proof -
  have "map task_scid ((ep_tasks e)[t := (ep_tasks e ! t)\<lparr>tk_mailbox := m\<rparr>]) = map task_scid (ep_tasks e)" for m
    by (cases "t < length (ep_tasks e)") (simp_all add: map_update task_scid_def list_update_same_conv list_update_beyond)
  then show ?thesis by (simp add: scids_def post_def)
qed

lemma post_develops:
  assumes "\<And>data addr. msg = IncomingPacket data addr \<Longrightarrow> endpoint_ok e \<Longrightarrow> t < length (ep_tasks e) \<Longrightarrow> extract_dcid_fast data = Some (scids e ! t)"
  shows "develops e (post t msg e)"
proof (cases "t < length (ep_tasks e)")
  case True
  have "mail_ok ((ep_tasks e ! t)\<lparr>tk_mailbox := tk_mailbox (ep_tasks e ! t) @ [msg]\<rparr>)" if "endpoint_ok e"
  proof -
    have "mail_ok (ep_tasks e ! t)" using that True by (simp add: endpoint_ok_def list_all_length)
    then show ?thesis using assms [OF _ that True] True by (auto simp: mail_ok_def scids_def task_scid_def)
  qed
  then show ?thesis
    using scids_post [of t msg e]
    by (auto simp: develops_def endpoint_ok_def post_def list_all_update scids_def)
next
  case False
  then have "ep_tasks (post t msg e) = ep_tasks e" by (simp add: post_def list_update_beyond)
  then show ?thesis by (simp add: develops_def endpoint_ok_def scids_def post_def)
qed

lemma try_post_develops:
  assumes "\<And>data addr. msg = IncomingPacket data addr \<Longrightarrow> endpoint_ok e \<Longrightarrow> t < length (ep_tasks e) \<Longrightarrow> extract_dcid_fast data = Some (scids e ! t)"
  shows "develops e (fst (try_post t msg e))"
  using post_develops [OF assms] by (simp add: try_post_def)

lemma unregister_develops: "develops e (unregister cid e)"
  using routes_ok_subset [OF _ set_AList_delete]
  by (auto simp: develops_def endpoint_ok_def unregister_def scids_def)

lemma spawn_develops:
  assumes "ac_scid a = scid" and "ep_tasks e' = ep_tasks e @ [\<lparr>tk_loop = loop_start en a, tk_mailbox = m\<rparr>]"
    and "\<forall>data addr. IncomingPacket data addr \<notin> set m"
    and "ep_routing_table e' = AList.update scid (length (ep_tasks e)) (ep_routing_table e)"
  shows "develops e e'"
proof -
  have "task_scid \<lparr>tk_loop = loop_start en a, tk_mailbox = m\<rparr> = scid"
    using role.start_respects [of a en] assms(1) by (simp add: task_scid_def same_role_def)
  then have ss: "scids e' = scids e @ [scid]" by (simp add: scids_def assms(2))
  then show ?thesis
    using assms(3) routes_ok_update [OF routes_ok_append]
    by (auto simp: develops_def endpoint_ok_def assms(2,4) mail_ok_def nth_append)
qed

lemma same_tasks_develops:
  "ep_tasks e' = ep_tasks e \<Longrightarrow> set (ep_routing_table e') \<subseteq> set (ep_routing_table e) \<Longrightarrow> develops e e'"
  using routes_ok_subset by (auto simp: develops_def endpoint_ok_def scids_def)

section \<open>The handshake\<close>

text \<open>A handshake leaves tasks and routes alone, or adds one task and the route to it.\<close>

definition admits :: "endpoint \<Rightarrow> endpoint \<Rightarrow> bool" where
  "admits e e' \<longleftrightarrow>
     ep_tasks e' = ep_tasks e \<and> set (ep_routing_table e') \<subseteq> set (ep_routing_table e) \<and> length (ep_routing_table e') \<le> length (ep_routing_table e)
   \<or> (\<exists>en a scid m. ac_scid a = scid \<and> ep_tasks e' = ep_tasks e @ [\<lparr>tk_loop = loop_start en a, tk_mailbox = m\<rparr>]
        \<and> (\<forall>data addr. IncomingPacket data addr \<notin> set m)
        \<and> ep_routing_table e' = AList.update scid (length (ep_tasks e)) (ep_routing_table e))"

lemma admits_develops: "admits e e' \<Longrightarrow> develops e e'"
  unfolding admits_def using same_tasks_develops spawn_develops by blast

lemma admits_routes: "admits e e' \<Longrightarrow> length (ep_routing_table e') \<le> Suc (length (ep_routing_table e))"
  unfolding admits_def using length_AList_update le_SucI by fastforce

lemma admits_same: "ep_tasks e' = ep_tasks e \<Longrightarrow> ep_routing_table e' = ep_routing_table e \<Longrightarrow> admits e e'"
  by (simp add: admits_def)

lemma accept_client_admits: "admits e (fst (accept_client sv len addr header pk ck tp e))" (is "admits e ?e'")
proof -
  obtain sk pub where kp: "sv_keypair sv = (sk, pub)" by fastforce
  let ?n = "length (ep_tasks e)"
  have del: "set (AList.delete k (AList.update k v xs)) \<subseteq> set xs" "length (AList.delete k (AList.update k v xs)) \<le> length xs" for k v and xs :: "(bytes \<times> nat) list"
    by (induction xs) (auto simp: AList.delete_eq intro: le_SucI)
  show ?thesis
  proof (cases "choose_scid sv (ep_routing_table e)")
    case None
    then show ?thesis by (intro admits_same) (simp_all add: accept_client_def kp run_simps Let_def)
  next
    case (Some scid)
    show ?thesis
    proof (cases "server_connection (sv_env sv) addr scid header tp len (en_diffie_hellman (sv_env sv) sk pk) (ep_psk e)")
      case (Ok x)
      obtain c pn where x: "x = (c, pn)" by fastforce
      let ?a = "actor_new c (ep_ed_public_key e) None None (ep_ed_public_key e) (ep_psk e) False scid False"
      show ?thesis
      proof (cases "sv_accept_room sv")
        case False
        then show ?thesis
          using Some Ok x del by (simp add: admits_def accept_client_def kp run_simps Let_def register_def unregister_def)
      next
        case True
        have "\<exists>m. ep_tasks ?e' = ep_tasks e @ [\<lparr>tk_loop = loop_start (sv_env sv) ?a, tk_mailbox = m\<rparr>]
            \<and> (\<forall>data addr. IncomingPacket data addr \<notin> set m) \<and> ep_routing_table ?e' = AList.update scid ?n (ep_routing_table e)"
          using True Some Ok x
          by (cases "handshake_response (sv_env sv) e header pk ck tp scid pub pn")
             (simp_all add: accept_client_def kp run_simps Let_def register_def spawn_def post_def endpoint_send_def)
        moreover have "ac_scid ?a = scid" by (simp add: actor_new_def Let_def)
        ultimately show ?thesis unfolding admits_def by blast
      qed
    qed (use Some in \<open>simp_all add: admits_def accept_client_def kp run_simps Let_def\<close>)
  qed
qed

lemma answer_initial_admits: "admits e (fst (answer_initial sv len addr header hs ck tp e))"
proof -
  obtain pk ed th sig alpn where hs: "hs = (pk, ed, th, sig, alpn)" by (metis prod_cases5)
  have retry: "admits e (fst (send_retry sv addr scid pn c e))" for scid pn c
    by (rule admits_same) (simp_all add: send_retry_def endpoint_send_def run_simps Let_def)
  let ?e = "clean_replay_filter sv e"
  have cl: "ep_routing_table ?e = ep_routing_table e" by (simp add: clean_replay_filter_def)
  have acc: "admits e (fst (accept_client sv len addr header pk ck tp (?e\<lparr>ep_handshake_replay_filter := f\<rparr>)))" for f
    using accept_client_admits [of "?e\<lparr>ep_handshake_replay_filter := f\<rparr>"] cl by (simp add: admits_def)
  have acc0: "admits e (fst (accept_client sv len addr header pk ck tp ?e))"
    using accept_client_admits [of ?e] cl by (simp add: admits_def)
  have same: "admits e e" "admits e ?e" using cl by (simp_all add: admits_same)
  show ?thesis
    using retry acc acc0 same
    by (auto simp: hs answer_initial_def run_simps abind_def alift_def aerr_def consume_cookie_def Let_def split: outcome.splits option.splits)
qed

lemma handle_handshake_admits: "admits e (fst (handle_handshake sv data addr e))"
  by (rule handle_handshake_read [of sv data addr e]) (simp_all add: answer_initial_admits admits_same)

section \<open>Steps and runs\<close>

definition node_ok :: "node \<Rightarrow> bool" where
  "node_ok nd \<longleftrightarrow> endpoint_ok (nd_endpoint nd) \<and> (\<forall>c\<in>set (nd_caches nd). routes_ok c (scids (nd_endpoint nd)))"

lemma node_ok_endpoint:
  "develops (nd_endpoint nd) (nd_endpoint nd') \<Longrightarrow> nd_caches nd' = nd_caches nd \<Longrightarrow> node_ok nd \<Longrightarrow> node_ok nd'"
  by (auto simp: node_ok_def develops_def routes_ok_append)

lemma try_post_keeps: "scids (fst (try_post t msg e)) = scids e" "ep_routing_table (fst (try_post t msg e)) = ep_routing_table e"
  by (simp_all add: try_post_def) (simp add: post_def)

lemma packet_develops:
  assumes "routes_ok xs (scids e)" and "map_of xs dcid = Some t" and "extract_dcid_fast data = Some dcid"
  shows "develops e (fst (try_post t (IncomingPacket data addr) e))"
  using routes_ok_lookup [OF assms(1,2)] assms(3) by (intro try_post_develops) simp

lemma route_cached_ok:
  assumes "routes_ok cache (scids e)" and "extract_dcid_fast data = Some dcid"
    and "route_cached dcid data addr cache e = (cache', e', r)"
  shows "develops e e' \<and> routes_ok cache' (scids e) \<and> scids e' = scids e \<and> ep_routing_table e' = ep_routing_table e"
proof (cases "map_of cache dcid")
  case None
  then show ?thesis using assms by (simp add: route_cached_def)
next
  case (Some t)
  obtain e1 b where p: "try_post t (IncomingPacket data addr) e = (e1, b)" by fastforce
  have "cache' = cache \<or> cache' = AList.delete dcid cache" "e' = e \<or> e' = e1"
    using assms(3) Some p by (auto simp: route_cached_def split: if_splits bool.splits)
  then show ?thesis
    using packet_develops [OF assms(1) Some assms(2), of addr] try_post_keeps [of t "IncomingPacket data addr" e] p
      assms(1) routes_ok_subset [OF assms(1) set_AList_delete] by auto
qed

lemma route_packet_ok:
  assumes "node_ok nd" and "i < length (nd_caches nd)"
  shows "node_ok (route_packet i data addr nd)"
proof (cases "extract_dcid_fast data")
  case None
  then show ?thesis using assms by (simp add: route_packet_def)
next
  case (Some dcid)
  let ?e = "nd_endpoint nd"
  obtain cache e routed where rc: "route_cached dcid data addr (nd_caches nd ! i) ?e = (cache, e, routed)" by (metis prod_cases3)
  have "routes_ok (nd_caches nd ! i) (scids ?e)" using assms by (simp add: node_ok_def)
  from route_cached_ok [OF this Some rc] have e: "develops ?e e" "routes_ok cache (scids e)" "scids e = scids ?e" by simp_all
  let ?nd = "nd\<lparr>nd_endpoint := e, nd_caches := (nd_caches nd)[i := cache]\<rparr>"
  have caches: "\<forall>c\<in>set ((nd_caches nd)[i := c']). routes_ok c (scids e)" if "routes_ok c' (scids e)" for c'
    using assms(1) that e(3) set_update_subset_insert [of "nd_caches nd" i c'] by (auto simp: node_ok_def)
  have ok: "node_ok ?nd" using e caches assms(1) by (auto simp: node_ok_def develops_def)
  then have table: "routes_ok (ep_routing_table e) (scids e)" by (simp add: node_ok_def endpoint_ok_def)
  show ?thesis
  proof (cases "map_of (ep_routing_table e) dcid")
    case None
    have "node_ok (admit_handshake i data addr ?nd)" using ok by (simp add: admit_handshake_def node_ok_def)
    then show ?thesis using Some rc None ok by (simp add: route_packet_def Let_def)
  next
    case t: (Some t)
    let ?e' = "fst (try_post t (IncomingPacket data addr) e)" and ?c = "AList.update dcid t cache"
    have "routes_ok ?c (scids e)" using routes_ok_lookup [OF table t] by (intro routes_ok_update [OF e(2)]) auto
    then have "node_ok (nd\<lparr>nd_caches := (nd_caches nd)[i := ?c], nd_endpoint := ?e'\<rparr>)"
      using packet_develops [OF table t Some, of addr] ok caches try_post_keeps(1) by (auto simp: node_ok_def develops_def)
    moreover have "node_ok (nd\<lparr>nd_caches := (nd_caches nd)[i := cache], nd_endpoint := unregister dcid e\<rparr>)"
      by (rule node_ok_endpoint [OF _ _ ok]) (simp_all add: unregister_develops)
    ultimately show ?thesis using Some rc t ok by (simp add: route_packet_def Let_def)
  qed
qed

lemma ask_develops: "from_application msg \<Longrightarrow> develops e (fst (ask cid msg e))"
  by (auto simp: ask_def split: option.splits intro!: post_develops)

lemma task_turn_develops:
  assumes "t < length (ep_tasks e)"
  shows "develops e (task_turn t en ev e)"
proof -
  let ?tk = "ep_tasks e ! t"
  let ?l = "loop_turn en ev (tk_loop ?tk)"
  define rest where "rest = (case ev of Message _ \<Rightarrow> tl (tk_mailbox ?tk) | _ \<Rightarrow> tk_mailbox ?tk)"
  let ?e = "e\<lparr>ep_tasks := (ep_tasks e)[t := \<lparr>tk_loop = ?l, tk_mailbox = rest\<rparr>]\<rparr>"
  have same: "task_scid \<lparr>tk_loop = ?l, tk_mailbox = rest\<rparr> = task_scid ?tk"
    using role.turn_respects [of "tk_loop ?tk" en ev] by (simp add: task_scid_def same_role_def)
  have "set rest \<subseteq> set (tk_mailbox ?tk)"
    by (cases "tk_mailbox ?tk") (auto simp: rest_def split: event.splits)
  then have "mail_ok ?tk \<Longrightarrow> mail_ok \<lparr>tk_loop = ?l, tk_mailbox = rest\<rparr>"
    using same by (auto simp: mail_ok_def)
  moreover have "scids ?e = scids e"
    using list_update_id [of "map task_scid (ep_tasks e)" t] assms same by (simp add: scids_def map_update)
  ultimately have "develops e ?e"
    using assms by (auto simp: develops_def endpoint_ok_def list_all_update list_all_length [of mail_ok "ep_tasks e"])
  then show ?thesis
    using develops_trans [OF _ unregister_develops] by (simp add: task_turn_def rest_def Let_def)
qed

lemma close_develops: "develops e (fst (endpoint_close cid e))" "develops e (fst (endpoint_close_with_error cid code reason e))"
proof -
  have ask: "develops e (unregister cid (fst (ask cid msg e)))" if "from_application msg" for msg
    by (rule develops_trans [OF ask_develops [OF that] unregister_develops])
  show "develops e (fst (endpoint_close cid e))" using ask [of MsgClose] by (simp add: endpoint_close_def)
  obtain e1 r where a: "ask cid (MsgCloseWithError code reason) e = (e1, r)" by fastforce
  show "develops e (fst (endpoint_close_with_error cid code reason e))"
    using ask [of "MsgCloseWithError code reason"] a
    by (auto simp: endpoint_close_with_error_def split: option.splits bool.splits)
qed

lemma connect_develops: "develops e (connect en addr scid dcid keypair e)"
  by (rule spawn_develops [of "client_actor en addr scid dcid keypair e" scid _ _ en "[]"])
     (simp_all add: connect_def spawn_def register_def client_actor_def actor_new_def Let_def)

lemma try_post_application: "from_application msg \<Longrightarrow> develops e (fst (try_post t msg e))"
  by (rule try_post_develops) auto

lemma endpoint_step_ok: "(\<And>e. develops e (f e)) \<Longrightarrow> node_ok nd \<Longrightarrow> node_ok (on_endpoint f nd)"
  by (rule node_ok_endpoint) (simp_all add: on_endpoint_def)

lemma node_step_ok:
  assumes "node_ok nd"
  shows "node_ok (node_step ev nd)"
proof (cases ev)
  case (Arrives i data addr)
  then show ?thesis using assms route_packet_ok by simp
next
  case (Acquires i)
  show ?thesis
    by (rule node_ok_endpoint [OF _ _ assms]) (simp_all add: Acquires start_handshake_def Let_def split: option.split)
next
  case Releases
  show ?thesis by (rule node_ok_endpoint [OF _ _ assms]) (simp_all add: Releases)
next
  case (Shakes i sv)
  show ?thesis
    by (rule node_ok_endpoint [OF _ _ assms]) (simp_all add: Shakes admits_develops handle_handshake_admits split: prod.split)
next
  case (Turns t en ev)
  show ?thesis
    by (rule node_ok_endpoint [OF _ _ assms]) (simp_all add: Turns on_endpoint_def can_turn_def task_turn_develops)
next
  case Accepts
  have "develops e (fst (endpoint_accept e))" for e
    by (rule same_tasks_develops) (simp_all add: endpoint_accept_def split: list.split)
  then show ?thesis using assms endpoint_step_ok by (simp add: Accepts)
next
  case (ConnectEnds scid completed)
  have "develops e (fst (connect_result scid completed e))" for e
    by (simp add: connect_result_def unregister_develops)
  then show ?thesis using assms endpoint_step_ok by (simp add: ConnectEnds)
qed (use assms in \<open>simp_all add: endpoint_step_ok ask_develops try_post_application close_develops connect_develops\<close>)

lemma run_ok: "node_ok nd \<Longrightarrow> node_ok (fold node_step evs nd)"
  by (induction evs arbitrary: nd) (simp_all add: node_step_ok)

section \<open>Capacity\<close>

text \<open>
  Routes, handshakes in progress and admitted requests of \<open>n\<close> routers, when \<open>k\<close> connections were started by this side.
\<close>

definition admissions :: "node \<Rightarrow> nat" where
  "admissions nd = length (filter (\<lambda>r. r \<noteq> None) (nd_admitted nd))"

definition bounded_by :: "nat \<Rightarrow> nat \<Rightarrow> node \<Rightarrow> bool" where
  "bounded_by n k nd \<longleftrightarrow>
     length (ep_routing_table (nd_endpoint nd)) + length (nd_handshakes nd) + admissions nd \<le> 1255 + n + k
   \<and> length (nd_handshakes nd) + nd_finishing nd \<le> 256 \<and> length (nd_admitted nd) = n"

lemma admissions_le: "admissions nd \<le> length (nd_admitted nd)"
  by (simp add: admissions_def)

lemma admissions_taken:
  "i < length (nd_admitted nd) \<Longrightarrow> nd_admitted nd ! i = Some r \<Longrightarrow>
     Suc (admissions (nd\<lparr>nd_admitted := (nd_admitted nd)[i := None]\<rparr>)) = admissions nd"
proof -
  have "Suc (length (filter (\<lambda>r. r \<noteq> None) (xs[i := None]))) = length (filter (\<lambda>r. r \<noteq> None) xs)"
    if "i < length xs" "xs ! i = Some r" for xs :: "'a option list" and r
    using that by (induction xs arbitrary: i) (auto simp: nth_Cons split: nat.splits)
  then show "i < length (nd_admitted nd) \<Longrightarrow> nd_admitted nd ! i = Some r \<Longrightarrow> ?thesis" by (simp add: admissions_def del: not_None_eq)
qed

fun is_connect :: "node_event \<Rightarrow> bool" where
  "is_connect (Connects _ _ _ _ _) = True"
| "is_connect _ = False"

lemma within_less:
  "bounded_by n k nd \<Longrightarrow> length (ep_routing_table (nd_endpoint nd')) \<le> length (ep_routing_table (nd_endpoint nd)) \<Longrightarrow>
     nd_handshakes nd' = nd_handshakes nd \<Longrightarrow> nd_finishing nd' = nd_finishing nd \<Longrightarrow> nd_admitted nd' = nd_admitted nd \<Longrightarrow> bounded_by n k nd'"
  by (simp add: bounded_by_def admissions_def)

lemma routes_unregister: "length (ep_routing_table (unregister cid e)) \<le> length (ep_routing_table e)"
  by (simp add: unregister_def length_AList_delete)

lemma routes_post [simp]: "ep_routing_table (post t msg e) = ep_routing_table e"
  by (simp add: post_def)

lemma routes_ask [simp]: "ep_routing_table (fst (ask cid msg e)) = ep_routing_table e"
  by (simp add: ask_def split: option.split)

lemma route_cached_routes: "route_cached dcid data addr cache e = (cache', e', r) \<Longrightarrow> ep_routing_table e' = ep_routing_table e"
  by (auto simp: route_cached_def try_post_def split: option.splits if_splits)

lemma route_packet_within:
  assumes "bounded_by n k nd"
  shows "bounded_by n k (route_packet i data addr nd)"
proof (cases "extract_dcid_fast data")
  case (Some dcid)
  obtain cache e routed where rc: "route_cached dcid data addr (nd_caches nd ! i) (nd_endpoint nd) = (cache, e, routed)" by (metis prod_cases3)
  note t = route_cached_routes [OF rc]
  have admit: "bounded_by n k (admit_handshake i data addr (nd\<lparr>nd_endpoint := e, nd_caches := c\<rparr>))" for c
    using assms t admissions_le [of "nd\<lparr>nd_endpoint := e, nd_caches := c, nd_admitted := (nd_admitted nd)[i := Some (data, addr)]\<rparr>"]
    by (auto simp: bounded_by_def admit_handshake_def admissions_def [of nd] admissions_def [of "nd\<lparr>nd_endpoint := e, nd_caches := c\<rparr>"])
  show ?thesis
    using Some rc assms t admit routes_unregister [of dcid e] try_post_keeps(2)
    by (auto simp: route_packet_def bounded_by_def admissions_def Let_def split: option.splits)
qed (use assms in \<open>simp add: route_packet_def\<close>)

lemma acquire_within:
  assumes "bounded_by n k nd"
  shows "bounded_by n k (node_step (Acquires i) nd)"
proof (cases "i < length (nd_admitted nd)")
  case True
  show ?thesis
  proof (cases "nd_admitted nd ! i")
    case (Some r)
    let ?nd = "nd\<lparr>nd_admitted := (nd_admitted nd)[i := None]\<rparr>"
    have same: "admissions (?nd\<lparr>nd_handshakes := hs\<rparr>) = admissions ?nd" for hs by (simp add: admissions_def)
    show ?thesis
      using assms True Some admissions_taken [OF True Some] by (auto simp: bounded_by_def start_handshake_def same Let_def)
  qed (use assms True in \<open>simp add: start_handshake_def\<close>)
qed (use assms in simp)

lemma shake_within:
  assumes "bounded_by n k nd"
  shows "bounded_by n k (node_step (Shakes i sv) nd)"
proof (cases "i < length (nd_handshakes nd)")
  case True
  obtain data addr where h: "nd_handshakes nd ! i = (data, addr)" by fastforce
  show ?thesis
    using assms True h admits_routes [OF handle_handshake_admits [of "nd_endpoint nd" sv data addr]] by (auto simp: bounded_by_def admissions_def)
qed (use assms in simp)

lemma task_turn_routes: "length (ep_routing_table (task_turn t en ev e)) \<le> length (ep_routing_table e)"
  by (auto simp: task_turn_def Let_def unregister_def length_AList_delete)

lemma endpoint_step_within:
  "(\<And>e. length (ep_routing_table (f e)) \<le> length (ep_routing_table e)) \<Longrightarrow> bounded_by n k nd \<Longrightarrow> bounded_by n k (on_endpoint f nd)"
  by (rule within_less) (simp_all add: on_endpoint_def)

lemma node_step_within:
  assumes "bounded_by n k nd"
  shows "bounded_by n (if is_connect ev then Suc k else k) (node_step ev nd)"
proof (cases ev)
  case (Arrives i data addr)
  then show ?thesis using assms route_packet_within by simp
next
  case (Acquires i)
  then show ?thesis using acquire_within [OF assms, of i] by simp
next
  case (Shakes i sv)
  then show ?thesis using shake_within [OF assms, of i sv] by simp
next
  case (Closes cid)
  have "length (ep_routing_table (fst (endpoint_close cid e))) \<le> length (ep_routing_table e)" for e
    using routes_unregister [of cid "fst (ask cid MsgClose e)"] by (simp add: endpoint_close_def)
  then show ?thesis using assms endpoint_step_within by (simp add: Closes)
next
  case (ClosesWithError cid code reason)
  have "length (ep_routing_table (fst (endpoint_close_with_error cid code reason e))) \<le> length (ep_routing_table e)" for e
    using routes_unregister [of cid "fst (ask cid (MsgCloseWithError code reason) e)"] routes_ask [of cid "MsgCloseWithError code reason" e]
    by (cases "ask cid (MsgCloseWithError code reason) e") (simp add: endpoint_close_with_error_def split: option.split bool.split)
  then show ?thesis using assms endpoint_step_within by (simp add: ClosesWithError)
next
  case (Connects en addr scid dcid keypair)
  then show ?thesis
    using assms length_AList_update [of scid "length (ep_tasks (nd_endpoint nd))" "ep_routing_table (nd_endpoint nd)"]
    by (simp add: bounded_by_def on_endpoint_def connect_def spawn_def register_def admissions_def)
next
  case Releases
  then show ?thesis using assms by (auto simp: bounded_by_def admissions_def)
qed (use assms in \<open>auto simp: connect_result_def endpoint_accept_def task_turn_routes routes_unregister try_post_keeps
    intro!: endpoint_step_within split: list.split\<close>)

lemma run_within: "bounded_by n k nd \<Longrightarrow> bounded_by n (k + length (filter is_connect evs)) (fold node_step evs nd)"
proof (induction evs arbitrary: k nd)
  case (Cons ev evs)
  from Cons.IH [OF node_step_within [OF Cons.prems, of ev]] show ?case by (auto split: if_splits)
qed simp

section \<open>Example\<close>

lemma example_running: "el_running (loop_start (example_env 0) example_client)"
proof -
  have c: "ac_state example_client = (ac_state example_client)\<lparr>cn_next_packet_number := 0, cn_cookie := None\<rparr>"
    by (simp add: example_client_def actor_new_def connection_new_def Let_def)
  obtain a' where "send_initial_packet (example_env 0) None (example_client\<lparr>ac_state := ac_state example_client\<rparr>) = (a', Ok ())"
    by (rule example_started [OF c]) simp_all
  then show ?thesis using example_ready(1) by (simp add: loop_start_def on_actor_def client_ready_def Let_def)
qed

section \<open>Properties\<close>

text \<open>
  C13: an endpoint cannot be made to hold arbitrarily many connections.  Whatever datagrams arrive in
  whatever order, however routers, handshakes, actors and calls interleave, the routing table never has
  more than 1255 entries and one for each router task, beyond the connections the application itself has
  started.  (The table is compared with 1000 before a permit is taken; meanwhile every other router may
  have passed the same test, and up to 256 handshakes may be in progress.)
\<close>

theorem connections_bounded:
  assumes "bind_with_zt_config cores config e = Ok nd"
  shows "length (ep_routing_table (nd_endpoint (fold node_step evs nd))) \<le> 1255 + max cores 1 + length (filter is_connect evs)"
proof -
  have "bounded_by (max cores 1) 0 nd"
    using assms by (auto simp: bind_with_zt_config_def outcome_Ok_iffs bounded_by_def admissions_def)
  from run_within [OF this, of evs] show ?thesis by (simp add: bounded_by_def)
qed

theorem connections_bounded_witness:
  "\<exists>nd. bind_with_zt_config 4 default_config example_endpoint = Ok nd
    \<and> length (ep_routing_table (nd_endpoint (fold node_step [Connects (example_env 0) example_addr [1] [2] ([3], [4]),
        Arrives 0 [] example_addr, Acquires 0, Accepts] nd))) \<le> 1260"
proof -
  obtain nd where nd: "bind_with_zt_config 4 default_config example_endpoint = Ok nd"
    using example_ready(4) by (simp add: bind_with_zt_config_def config_valid_def)
  from connections_bounded [OF this, of "[Connects (example_env 0) example_addr [1] [2] ([3], [4]), Arrives 0 [] example_addr, Acquires 0, Accepts]"]
  show ?thesis using nd by simp
qed

text \<open>
  C12: a packet reaches only the connection it is addressed to.  In every run of the node, whatever the
  routers have cached, however often ids are reused and whichever tasks have ended, a packet in the mailbox
  of a connection carries that connection's id as its destination.
\<close>

theorem packets_reach_their_connection:
  assumes "bind_with_zt_config cores config e = Ok nd" and "nd' = fold node_step evs nd"
    and "t < length (ep_tasks (nd_endpoint nd'))" and "IncomingPacket data addr \<in> set (tk_mailbox (ep_tasks (nd_endpoint nd') ! t))"
  shows "extract_dcid_fast data = Some (ac_scid (el_actor (tk_loop (ep_tasks (nd_endpoint nd') ! t))))"
proof -
  have "node_ok nd"
    using assms(1) by (auto simp: bind_with_zt_config_def outcome_Ok_iffs node_ok_def endpoint_ok_def routes_ok_def)
  from run_ok [OF this, of evs] have "mail_ok (ep_tasks (nd_endpoint nd') ! t)"
    using assms(2,3) by (simp add: node_ok_def endpoint_ok_def list_all_length)
  then show ?thesis using assms(4) by (auto simp: mail_ok_def task_scid_def)
qed

theorem packets_reach_their_connection_witness:
  "\<exists>nd nd' data. bind_with_zt_config 1 default_config (example_endpoint\<lparr>ep_ed_signing_key := [6], ep_ed_public_key := replicate 32 7\<rparr>) = Ok nd
    \<and> nd' = fold node_step [Connects (example_env 0) example_addr [1] [3] ([5], replicate 32 4), Arrives 0 data example_addr] nd
    \<and> IncomingPacket data example_addr \<in> set (tk_mailbox (ep_tasks (nd_endpoint nd') ! 0))
    \<and> extract_dcid_fast data = Some (ac_scid (el_actor (tk_loop (ep_tasks (nd_endpoint nd') ! 0))))"
proof -
  let ?e = "example_endpoint\<lparr>ep_ed_signing_key := [6], ep_ed_public_key := replicate 32 7\<rparr>" and ?data = "[0x40, 1, 1, 0] :: bytes"
  let ?evs = "[Connects (example_env 0) example_addr [1] [3] ([5], replicate 32 4), Arrives 0 ?data example_addr]"
  obtain nd where nd: "bind_with_zt_config 1 default_config ?e = Ok nd"
    using example_ready(4) by (simp add: bind_with_zt_config_def config_valid_def)
  then have f: "ep_tasks (nd_endpoint nd) = []" "ep_routing_table (nd_endpoint nd) = []" "nd_caches nd = [[]]" "nd_admitted nd = [None]"
    "ep_ed_signing_key (nd_endpoint nd) = [6]" "ep_ed_public_key (nd_endpoint nd) = replicate 32 7" "ep_psk (nd_endpoint nd) = None"
    by (auto simp: bind_with_zt_config_def outcome_Ok_iffs default_config_def)
  have c: "client_actor (example_env 0) example_addr [1] [3] ([5], replicate 32 4) (nd_endpoint nd) = example_client"
    by (simp add: client_actor_def example_client_def f example_env_def)
  have d: "extract_dcid_fast ?data = Some [1]" by code_simp
  let ?nd' = "fold node_step ?evs nd"
  have t: "tk_mailbox (ep_tasks (nd_endpoint ?nd') ! 0) = [IncomingPacket ?data example_addr]" "length (ep_tasks (nd_endpoint ?nd')) = 1"
    using example_running
    by (simp_all add: on_endpoint_def connect_def c f d spawn_def register_def route_packet_def route_cached_def try_post_def mailbox_closed_def post_def Let_def)
  have "extract_dcid_fast ?data = Some (ac_scid (el_actor (tk_loop (ep_tasks (nd_endpoint ?nd') ! 0))))"
    by (rule packets_reach_their_connection [OF nd refl, where addr = example_addr]) (simp_all only: t list.set insert_iff, simp)
  then show ?thesis using nd t(1) by (intro exI [of _ nd] exI [of _ ?nd'] exI [of _ ?data] conjI) simp_all
qed

end
