(* ===== verification/Spec2Isabelle.thy ===== *)
theory Spec2Isabelle
  imports Zt_Prelude Zt_PacketNumber Zt_Config Zt_Frame Zt_Packet Zt_Window Zt_StreamBuffer
    Zt_Unacked Zt_F64 Zt_Congestion Zt_Crypto Zt_Cookie Zt_Termination Zt_Connection Zt_Ack
    Zt_Action Zt_Actor Zt_Sender Zt_Incoming Zt_EventLoop Zt_Steps Zt_Runs Zt_Limits
    Zt_Seal Zt_Handshake Zt_Agreement Zt_Flight Zt_Authentic Zt_Server Zt_Stream Zt_StreamCalls Zt_Endpoint Zt_Node
begin

text \<open>
  Zetta Transport: a verification library for the encrypted, multiplexed datagram transport of this
  repository (Rust, under \<^verbatim>\<open>src/src\<close>).

  \<^bold>\<open>The program.\<close>  An endpoint (\<^verbatim>\<open>transport/endpoint.rs\<close>) owns a UDP socket.  Its router hands each datagram to
  the task of the connection named by the destination id, or starts a handshake (\<^verbatim>\<open>transport/handshake.rs\<close>).
  Each connection is an actor (\<^verbatim>\<open>transport/actor\<close>): an event loop over messages and timers that opens and seals
  packets (\<^verbatim>\<open>crypto\<close>, \<^verbatim>\<open>protocol\<close>), tracks what was received and sent (\<^verbatim>\<open>transport/state\<close>), and adapts its
  rate (\<^verbatim>\<open>transport/congestion.rs\<close>).  The application holds streams (\<^verbatim>\<open>stream\<close>) that talk to the actor by messages.

  \<^bold>\<open>Conventions.\<close>  Bytes and wire integers are words; counters and durations (in nanoseconds) are naturals with
  the range tests of checked, saturating and panicking arithmetic written out.  Fallible code returns
  \<^typ>\<open>'a outcome\<close>, with a branch for every error and every panic.  Stateful code is an action on a record
  (\<^typ>\<open>('s, 'a) act\<close>), which keeps the state reached when an error is raised.  Code outside the repository is a
  parameter: cryptographic primitives, clock, socket, random choices, and the readiness of futures are fields
  of \<^typ>\<open>env\<close>, \<^typ>\<open>server_env\<close>, \<^typ>\<open>crypto_lib\<close>, \<^typ>\<open>f64_lib\<close> and \<^typ>\<open>poll_env\<close>; what a property needs of them is a named
  hypothesis (\<^const>\<open>primitives_ok\<close>, \<^const>\<open>aead_sound\<close>, \<^const>\<open>aead_lengths\<close>, \<^const>\<open>crypto_available\<close>, \<^const>\<open>trusts\<close>).
  \<^const>\<open>crypto_available\<close> promises the cipher and the key stream only within their documented limits; a packet whose
  sample selects the key stream block past the end panics, in the model as in the code, and \<^const>\<open>maskable\<close> says
  that a packet is not such a one.

  \<^bold>\<open>Theories, in the order of the code.\<close>
  \<^item> \<open>Zt_Prelude\<close>: errors (\<^verbatim>\<open>error.rs\<close>), outcomes, arithmetic, byte strings, and the shared lemma collections.
  \<^item> \<open>Zt_PacketNumber\<close>, \<open>Zt_Config\<close>, \<open>Zt_Frame\<close>, \<open>Zt_Packet\<close>: \<^verbatim>\<open>protocol/\<close> and \<^verbatim>\<open>config.rs\<close>: packet number truncation,
    configuration and its limits, the frame codec with the receive loop over a payload, packet headers and the
    router's fast path.  They show round trips, agreement on the layout, and that decoding is sound.
  \<^item> \<open>Zt_Window\<close>, \<open>Zt_StreamBuffer\<close>, \<open>Zt_Unacked\<close>: \<^verbatim>\<open>transport/state\<close>: the two bit windows refine sets, the ring buffer
    refines a partial byte string, the deque of packets in flight refines a finite map.
  \<^item> \<open>Zt_F64\<close>, \<open>Zt_Congestion\<close>: binary64 arithmetic as far as the controllers use it, and CUBIC and Reno.
  \<^item> \<open>Zt_Crypto\<close>, \<open>Zt_Cookie\<close>: \<^verbatim>\<open>crypto/\<close> and \<^verbatim>\<open>transport/cookie.rs\<close>: header protection, key schedule, key updates, nonces,
    retry cookies.
  \<^item> \<open>Zt_Termination\<close>, \<open>Zt_Connection\<close>, \<open>Zt_Ack\<close>: the connection record (\<^verbatim>\<open>transport/connection.rs\<close>,
    \<^verbatim>\<open>transport/congestion.rs\<close>) with acknowledgement and loss handling, and what an acknowledgement does.
  \<^item> \<open>Zt_Action\<close>, \<open>Zt_Actor\<close>, \<open>Zt_Sender\<close>, \<open>Zt_Incoming\<close>, \<open>Zt_EventLoop\<close>: the actor: sending, pacing and retransmission
    (\<^verbatim>\<open>packet_sender.rs\<close>), every incoming frame (\<^verbatim>\<open>incoming_handler.rs\<close>), the client's handshake
    (\<^verbatim>\<open>handshake_handler.rs\<close>), messages, timers and turns (\<^verbatim>\<open>event_loop.rs\<close>).
  \<^item> \<open>Zt_Steps\<close>, \<open>Zt_Runs\<close>: locales that carry a relation through every handler, turn and run of an actor once its few
    relevant effects respect it; interpreted for the amplification limit and the role of the actor, and below for
    the limits on memory, the authentication of the peer and the account of bytes in flight.
  \<^item> \<open>Zt_Limits\<close>, \<open>Zt_Flight\<close>: what a peer can make a connection hold, and that the counter congestion control decides
    by is the sum of the packets in flight, through every run of an actor.
  \<^item> \<open>Zt_Seal\<close>: the path of a packet from the sealing sender to the receiver's frame handlers, across key epochs.
  \<^item> \<open>Zt_Handshake\<close>, \<open>Zt_Agreement\<close>, \<open>Zt_Server\<close>: the server's handshake, its composition with the client's, and what
    requests without proof or with used cookies achieve.
  \<^item> \<open>Zt_Authentic\<close>: in every run a client becomes active only on an exchange signed by an accepted key.
  \<^item> \<open>Zt_Stream\<close>, \<open>Zt_StreamCalls\<close>: the application's end of a stream and what its calls guarantee.
  \<^item> \<open>Zt_Endpoint\<close>, \<open>Zt_Node\<close>: routers with their route caches, the calls of the application, the connection handle, and
    the whole node as a sequence of interleaved steps: its capacity, and that packets reach their connection.

  \<^bold>\<open>Bounds and termination.\<close>  No function uses fuel: loops over input recurse on it with termination proofs, loops
  that wait recurse on the finite list of what the outside has provided so far, and runs of an actor are the
  inductive relation \<^const>\<open>reaches\<close> over events the timers enable, in any order.  All definitions are executable.
  Durations are naturals without an upper limit, so additions to instants do not overflow.

  \<^bold>\<open>Reading the properties.\<close>  The blocks that open with a claim number, C1 onwards, state what is shown of the program
  as a whole or of a component; the theorem follows and, where it has hypotheses, a concrete instance.

  \<^bold>\<open>Not modelled.\<close>  Creating and binding sockets and their buffer sizes, which are calls to the operating system; the order in which \<^verbatim>\<open>tokio::select!\<close> and the scheduler pick ready tasks, which is left open;
  memory zeroing (\<^verbatim>\<open>zeroize\<close>); logging; the interleaving inside one handshake, which is one step (the sample of the clock, the replay
  filter and the routing table are then seen at one instant), and inside one pass of a router, which is two steps,
  routing with the test of the table's length, read at one instant, and taking a permit; the network
  simulator (\<^verbatim>\<open>simulation.rs\<close>) and the tests, which are compiled for testing only; the crate's module lists and
  re-exports (\<^verbatim>\<open>lib.rs\<close>, \<^verbatim>\<open>mod.rs\<close>).
\<close>

end
